(* ===== verification/Prelude.thy ===== *)
theory Prelude
  imports Main "HOL-Library.Word"
begin

text \<open>
  Shared vocabulary of the development: the machine integers and byte strings of the crate as
  HOL types, the collections of simplification rules the components extend, and generic lemmas
  on lists, words and little-endian integers. Nothing here models a particular source file.
\<close>

unbundle bit_operations_syntax

section \<open>Types\<close>

text \<open>
  Rust's \<open>u8\<close>, \<open>u32\<close>, \<open>u64\<close> and \<open>usize\<close> (64-bit target) are words; \<open>i32\<close> is the same
  32-bit word read through \<open>sint\<close>. Hashes (\<open>BlockHash\<close>, \<open>Txid\<close>) are their 32 bytes, paths are
  the list of their components.
\<close>

type_synonym byte = "8 word"
type_synonym u32 = "32 word"
type_synonym i32 = "32 word"
type_synonym u64 = "64 word"
type_synonym usize = "64 word"
type_synonym hash256 = "byte list"
type_synonym path = "string list"

text \<open>
  Rule collections: \<open>model_defs\<close> unfolds the operations of the model, \<open>result_simps\<close> computes with
  the outcomes of \<open>Errors\<close>.
\<close>

named_theorems model_defs
named_theorems result_simps

section \<open>Little-endian integers\<close>

text \<open>
  A byte string read as a little-endian number, and the first \<open>k\<close> bytes of a number. The two are
  inverse to each other, at any width.
\<close>

primrec le_nat :: "byte list \<Rightarrow> nat" where
  "le_nat [] = 0"
| "le_nat (b # bs) = unat b + 256 * le_nat bs"

primrec nat_le :: "nat \<Rightarrow> nat \<Rightarrow> byte list" where
  "nat_le 0 n = []"
| "nat_le (Suc k) n = word_of_nat (n mod 256) # nat_le k (n div 256)"

lemma nat_le_numeral [simp]:
  "nat_le (numeral k) n = word_of_nat (n mod 256) # nat_le (pred_numeral k) (n div 256)"
  by (simp add: numeral_eq_Suc [of k])

lemma unat_bound: "unat (w :: 'a::len word) < 2 ^ LENGTH('a)"
  by (rule unsigned_less)

lemma unat_ucast_u32 [simp]: "unat (ucast (w :: u32) :: u64) = unat w"
  using unat_bound [of w] by (simp add: unsigned_ucast_eq take_bit_nat_eq_self)

lemma unat_byte_lt [simp]: "unat (b :: byte) < 256"
  using unat_bound [of b] by simp

lemma length_nat_le [simp]: "length (nat_le k n) = k"
  by (induction k arbitrary: n) auto

lemma le_nat_nat_le: "le_nat (nat_le k n) = n mod 256 ^ k"
  by (induction k arbitrary: n) (auto simp: mod_mult2_eq unat_of_nat)

lemma le_nat_bound: "le_nat bs < 256 ^ length bs"
proof (induction bs)
  case (Cons b bs)
  then have "le_nat bs + 1 \<le> 256 ^ length bs" by simp
  then have "256 * (le_nat bs + 1) \<le> 256 * 256 ^ length bs" by (rule mult_le_mono2)
  then show ?case using unat_byte_lt [of b] by (simp add: algebra_simps del: unat_byte_lt)
qed simp

lemma nat_le_le_nat: "nat_le (length bs) (le_nat bs) = bs"
proof (induction bs)
  case (Cons b bs)
  then show ?case using unat_byte_lt [of b] by simp
qed simp

text \<open>\<open>LittleEndian::read_u32\<close> and Rust's \<open>u32::to_le_bytes\<close> (also \<open>to_ne_bytes\<close> on a little-endian host).\<close>

definition le_u32 :: "byte list \<Rightarrow> u32" where
  "le_u32 bs = word_of_nat (le_nat bs)"

definition u32_le :: "u32 \<Rightarrow> byte list" where
  "u32_le w = nat_le 4 (unat w)"

lemma length_u32_le [simp]: "length (u32_le w) = 4"
  by (simp add: u32_le_def)

lemma le_u32_u32_le [simp]: "le_u32 (u32_le w) = w"
proof -
  have "unat w < 256 ^ 4"
    using unat_bound [of w] by simp
  then show ?thesis
    by (simp add: le_u32_def u32_le_def le_nat_nat_le del: nat_le_numeral)
qed

lemma u32_le_le_u32: "length bs = 4 \<Longrightarrow> u32_le (le_u32 bs) = bs"
  using nat_le_le_nat [of bs] le_nat_bound [of bs]
  by (simp add: le_u32_def u32_le_def unat_of_nat del: nat_le_numeral)

lemma u32_le_inject [simp]: "u32_le v = u32_le w \<longleftrightarrow> v = w"
  by (metis le_u32_u32_le)

section \<open>Decimal notation\<close>

text \<open>How \<open>Display\<close> prints an integer, and Bitcoin Core the number of a block file.\<close>

definition digit_char :: "nat \<Rightarrow> char" where
  "digit_char d = char_of (48 + d)"

fun decimal :: "nat \<Rightarrow> string" where
  "decimal n = (if n < 10 then [digit_char n] else decimal (n div 10) @ [digit_char (n mod 10)])"

declare decimal.simps [simp del]

definition decimal_int :: "int \<Rightarrow> string" where
  "decimal_int i = (if i < 0 then CHR ''-'' # decimal (nat (- i)) else decimal (nat i))"

end
