(* ===== verification/Errors.thy ===== *)
theory Errors
  imports Prelude
begin

text \<open>
  The crate's error type (\<open>parser/error.rs\<close>) and the outcome of a fallible operation.
  A Rust call of type \<open>Result<T>\<close> can return \<open>Ok\<close>, return \<open>Err\<close>, panic (a failed \<open>expect\<close>,
  \<open>assert!\<close>, index or slice bound), or run forever; \<open>result\<close> has one constructor for each, so that
  every way out of the source is a value of the model. Arithmetic is that of a release build:
  integer overflow wraps and does not panic.
\<close>

section \<open>Errors\<close>

text \<open>The errors of \<open>std::io\<close> (and of its mirror \<open>bitcoin::io\<close>) that the crate can meet.\<close>

datatype io_error = UnexpectedEof | InvalidInput | NotFound | IoOther string

text \<open>
  \<open>parser/error.rs\<close>: \<open>enum Error\<close>, constructor by constructor. Errors of third-party crates are
  carried as their message.
\<close>

datatype error =
    BitcoinDataDirDoesNotExist path
  | EmptyBlockFiles
  | BlockFileNotFound i32
  | BlockIndexRecordNotFound nat
  | BlockHashNotFound hash256
  | TransactionRecordNotFound hash256
  | MissingOutputs nat nat
  | CannotFindHeightForTransaction hash256
  | TxDbUnavailable
  | Io io_error
  | BitcoinIo io_error
  | Encode string
  | InvalidHash string
  | Leveldb string
  | Utf8Error string
  | RuntimeError string
  | PoisonError string
  | SendError string

text \<open>
  \<open>Display for Error\<close>, as \<open>thiserror\<close> derives it from the \<open>error\<close> attributes: a text with the fields filled
  in, or the text of the wrapped error where it is \<open>transparent\<close>. How a path, a hash (shown reversed, in
  hexadecimal) and an error of \<open>std::io\<close> are printed is up to their own libraries.
\<close>

fun error_display :: "(path \<Rightarrow> string) \<Rightarrow> (hash256 \<Rightarrow> string) \<Rightarrow> (io_error \<Rightarrow> string) \<Rightarrow> error \<Rightarrow> string" where
  "error_display show_path show_hash show_io (BitcoinDataDirDoesNotExist p) = ''data_dir '' @ show_path p @ '' does not exist''"
| "error_display show_path show_hash show_io EmptyBlockFiles = ''No blk files found!''"
| "error_display show_path show_hash show_io (BlockFileNotFound n) =
     ''blk file '' @ decimal_int (sint n) @ '' not found, try to sync with Bitcoin Core''"
| "error_display show_path show_hash show_io (BlockIndexRecordNotFound n) = ''block index record '' @ decimal n @ '' not found''"
| "error_display show_path show_hash show_io (BlockHashNotFound h) = ''block index for '' @ show_hash h @ '' not found''"
| "error_display show_path show_hash show_io (TransactionRecordNotFound h) = ''Transaction record not found for '' @ show_hash h"
| "error_display show_path show_hash show_io (MissingOutputs expected got) =
     ''Some outpoints are not found, tx_index is not fully synced''"
| "error_display show_path show_hash show_io (CannotFindHeightForTransaction h) =
     ''failed to find height for transaction: '' @ show_hash h"
| "error_display show_path show_hash show_io TxDbUnavailable = ''TxDB is not enabled or failed to be opened''"
| "error_display show_path show_hash show_io (Io e) = show_io e"
| "error_display show_path show_hash show_io (BitcoinIo e) = show_io e"
| "error_display show_path show_hash show_io (Encode m) = m"
| "error_display show_path show_hash show_io (InvalidHash m) = ''Invalid hash: '' @ m"
| "error_display show_path show_hash show_io (Leveldb m) = m"
| "error_display show_path show_hash show_io (Utf8Error m) = m"
| "error_display show_path show_hash show_io (RuntimeError m) = ''Runtime: '' @ m"
| "error_display show_path show_hash show_io (PoisonError m) = m"
| "error_display show_path show_hash show_io (SendError m) = m"

text \<open>
  The \<open>From\<close> implementations, which \<open>?\<close> calls. Each keeps the text of the error it is given; \<open>to_string\<close>
  is that of the foreign type.
\<close>

definition error_from_poison_error :: "('e \<Rightarrow> string) \<Rightarrow> 'e \<Rightarrow> error" where
  "error_from_poison_error to_string err = PoisonError (to_string err)"

definition error_from_send_error :: "('e \<Rightarrow> string) \<Rightarrow> 'e \<Rightarrow> error" where
  "error_from_send_error to_string err = SendError (to_string err)"

definition error_from_slice_error :: "('e \<Rightarrow> string) \<Rightarrow> 'e \<Rightarrow> error" where
  "error_from_slice_error to_string err = InvalidHash (to_string err)"

definition error_from_odd_length_string :: "('e \<Rightarrow> string) \<Rightarrow> 'e \<Rightarrow> error" where
  "error_from_odd_length_string to_string err = InvalidHash (to_string err)"

definition error_from_hex_to_array :: "('e \<Rightarrow> string) \<Rightarrow> 'e \<Rightarrow> error" where
  "error_from_hex_to_array to_string err = InvalidHash (to_string err)"

definition error_from_hex_to_bytes :: "('e \<Rightarrow> string) \<Rightarrow> 'e \<Rightarrow> error" where
  "error_from_hex_to_bytes to_string err = InvalidHash (to_string err)"

definition error_from_invalid_char :: "('e \<Rightarrow> string) \<Rightarrow> 'e \<Rightarrow> error" where
  "error_from_invalid_char to_string err = InvalidHash (to_string err)"

lemma error_display_from:
  "error_display sp sh si (error_from_poison_error ts e) = ts e"
  "error_display sp sh si (error_from_send_error ts e) = ts e"
  "error_display sp sh si (error_from_hex_to_bytes ts e) = ''Invalid hash: '' @ ts e"
  by (simp_all add: error_from_poison_error_def error_from_send_error_def error_from_hex_to_bytes_def)

section \<open>Outcomes\<close>

datatype 'a result = Ok 'a | Err error | Panic | Diverge

text \<open>
  \<open>m?\<close> followed by the rest of the function: only \<open>Ok\<close> goes on.
\<close>

primrec bind_result :: "'a result \<Rightarrow> ('a \<Rightarrow> 'b result) \<Rightarrow> 'b result" where
  "bind_result (Ok a) f = f a"
| "bind_result (Err e) f = Err e"
| "bind_result Panic f = Panic"
| "bind_result Diverge f = Diverge"

text \<open>\<open>Result::map\<close>.\<close>

primrec result_map :: "('a \<Rightarrow> 'b) \<Rightarrow> 'a result \<Rightarrow> 'b result" where
  "result_map f (Ok a) = Ok (f a)"
| "result_map f (Err e) = Err e"
| "result_map f Panic = Panic"
| "result_map f Diverge = Diverge"

text \<open>\<open>Option::ok_or\<close> followed by \<open>?\<close>.\<close>

primrec ok_or :: "error \<Rightarrow> 'a option \<Rightarrow> 'a result" where
  "ok_or e None = Err e"
| "ok_or e (Some a) = Ok a"

text \<open>
  \<open>?\<close> on a result of another error type, through the \<open>From\<close> implementation \<open>c\<close> that
  \<open>#[from]\<close> derives.
\<close>

primrec lift_err :: "('e \<Rightarrow> error) \<Rightarrow> 'e + 'a \<Rightarrow> 'a result" where
  "lift_err c (Inl e) = Err (c e)"
| "lift_err c (Inr a) = Ok a"

text \<open>A loop that may run forever gives an option; \<open>None\<close> is the outcome \<open>Diverge\<close>.\<close>

primrec of_loop :: "'a result option \<Rightarrow> 'a result" where
  "of_loop None = Diverge"
| "of_loop (Some r) = r"

text \<open>Running an operation over a list in order, stopping at the first one that does not return \<open>Ok\<close>.\<close>

primrec mapM_result :: "('a \<Rightarrow> 'b result) \<Rightarrow> 'a list \<Rightarrow> 'b list result" where
  "mapM_result f [] = Ok []"
| "mapM_result f (x # xs) = bind_result (f x) (\<lambda>y. bind_result (mapM_result f xs) (\<lambda>ys. Ok (y # ys)))"

definition is_ok :: "'a result \<Rightarrow> bool" where
  "is_ok r = (case r of Ok _ \<Rightarrow> True | _ \<Rightarrow> False)"

text \<open>An outcome the caller gets as a value: \<open>Ok\<close> or \<open>Err\<close>.\<close>

definition returns :: "'a result \<Rightarrow> bool" where
  "returns r = (case r of Ok _ \<Rightarrow> True | Err _ \<Rightarrow> True | _ \<Rightarrow> False)"

lemma bind_result_cong [fundef_cong]:
  "m = m' \<Longrightarrow> (\<And>a. m' = Ok a \<Longrightarrow> f a = f' a) \<Longrightarrow> bind_result m f = bind_result m' f'"
  by (cases m') auto

lemma bind_result_eq_Ok [result_simps]:
  "bind_result m f = Ok b \<longleftrightarrow> (\<exists>a. m = Ok a \<and> f a = Ok b)"
  by (cases m) auto

lemma bind_result_eq_Diverge [result_simps]:
  "bind_result m f = Diverge \<longleftrightarrow> m = Diverge \<or> (\<exists>a. m = Ok a \<and> f a = Diverge)"
  by (cases m) auto

lemma lift_err_neq [simp]: "lift_err c x \<noteq> Diverge" "lift_err c x \<noteq> Panic"
  by (cases x; simp)+

lemma bind_result_assoc: "bind_result (bind_result m f) g = bind_result m (\<lambda>a. bind_result (f a) g)"
  by (cases m) auto

lemma bind_result_Ok [simp]: "bind_result m Ok = m"
  by (cases m) auto

lemma result_map_eq_Ok [result_simps]: "result_map f r = Ok b \<longleftrightarrow> (\<exists>a. r = Ok a \<and> b = f a)"
  by (cases r) auto

lemma result_map_bind: "result_map g (bind_result m f) = bind_result m (\<lambda>a. result_map g (f a))"
  by (cases m) auto

lemma bind_result_map: "bind_result (result_map g m) f = bind_result m (\<lambda>a. f (g a))"
  by (cases m) auto

lemma result_map_id [simp]: "result_map (\<lambda>a. a) r = r"
  by (cases r) auto

lemma result_map_comp: "result_map g (result_map f r) = result_map (\<lambda>a. g (f a)) r"
  by (cases r) auto

lemma ok_or_eq_Ok [result_simps]: "ok_or e x = Ok a \<longleftrightarrow> x = Some a"
  by (cases x) auto

lemma ok_or_eq_Err [result_simps]: "ok_or e x = Err e' \<longleftrightarrow> x = None \<and> e' = e"
  by (cases x) auto

lemma lift_err_eq_Ok [result_simps]: "lift_err c x = Ok a \<longleftrightarrow> x = Inr a"
  by (cases x) auto

lemma mapM_result_cong [fundef_cong]:
  "xs = ys \<Longrightarrow> (\<And>x. x \<in> set ys \<Longrightarrow> f x = g x) \<Longrightarrow> mapM_result f xs = mapM_result g ys"
  by (induction ys arbitrary: xs) auto

lemma mapM_result_Ok: "(\<And>x. x \<in> set xs \<Longrightarrow> f x = Ok (g x)) \<Longrightarrow> mapM_result f xs = Ok (map g xs)"
  by (induction xs) auto

lemma mapM_result_eq_Ok:
  "mapM_result f xs = Ok ys \<longleftrightarrow> list_all2 (\<lambda>x y. f x = Ok y) xs ys"
  by (induction xs arbitrary: ys) (auto simp: result_simps list_all2_Cons1)

lemma mapM_result_Err:
  assumes "\<exists>e. f x = Err e" and "\<And>x. (\<exists>y. f x = Ok y) \<or> (\<exists>e. f x = Err e)" and "x \<in> set xs"
  shows "\<exists>e. mapM_result f xs = Err e"
  using assms(3)
proof (induction xs)
  case (Cons z zs)
  have rest: "(\<exists>ys. mapM_result f zs = Ok ys) \<or> (\<exists>e. mapM_result f zs = Err e)"
  proof (induction zs)
    case (Cons z zs)
    then show ?case using assms(2) [of z] by auto
  qed simp
  show ?case using assms(1) assms(2) [of z] Cons rest by (cases "x = z") auto
qed simp

text \<open>All results, or the first failure.\<close>

lemma mapM_result_find:
  "mapM_result (\<lambda>x. if bad x then Err (e x) else Ok (f x)) xs = (case find bad xs of None \<Rightarrow> Ok (map f xs) | Some x \<Rightarrow> Err (e x))"
  by (induction xs) (auto split: option.split)

lemma mapM_result_append:
  "mapM_result f (xs @ ys) =
     bind_result (mapM_result f xs) (\<lambda>as. bind_result (mapM_result f ys) (\<lambda>bs. Ok (as @ bs)))"
  by (induction xs) (auto simp: bind_result_assoc)

lemma mapM_result_map: "mapM_result f (map g xs) = mapM_result (\<lambda>x. f (g x)) xs"
  by (induction xs) auto

lemma is_ok_iff [result_simps]: "is_ok r \<longleftrightarrow> (\<exists>a. r = Ok a)"
  by (cases r) (auto simp: is_ok_def)

lemma returns_simps [simp]:
  "returns (Ok a)" "returns (Err e)" "\<not> returns Panic" "\<not> returns Diverge"
  by (simp_all add: returns_def)

lemma returns_bind [intro]:
  "returns m \<Longrightarrow> (\<And>a. m = Ok a \<Longrightarrow> returns (f a)) \<Longrightarrow> returns (bind_result m f)"
  by (cases m) auto

lemma returns_lift_err [simp]: "returns (lift_err c x)"
  by (cases x) auto

lemma returns_ok_or [simp]: "returns (ok_or e x)"
  by (cases x) auto

lemma returns_result_map [simp]: "returns (result_map f r) = returns r"
  by (cases r) auto

lemma returns_iff: "returns r \<longleftrightarrow> r \<noteq> Panic \<and> r \<noteq> Diverge"
  by (cases r) auto

end
