(* ===== verification/Reader.thy ===== *)
theory Reader
  imports Errors
begin

text \<open>
  \<open>parser/reader.rs\<close>: the trait \<open>BlockchainRead\<close>, whose methods read integers, byte vectors and
  consensus-encoded objects from a \<open>bitcoin::io::BufRead\<close>. Each method is a definition over the
  supertrait's \<open>read_exact\<close> (the argument \<open>rx\<close>) and the state of the reader. The locale
  \<open>byte_source\<close> is the contract of \<open>read_exact\<close>; inside it the methods are specified once for
  every reader, and \<open>raw_reader\<close> (the contract of \<open>Read::read\<close>, short reads allowed) gives it
  for the standard \<open>read_exact\<close> loop. The in-memory \<open>Cursor\<close> is interpreted here, the file
  reader \<open>XorReader<File>\<close> in theory \<open>Xor\<close>.
\<close>

section \<open>Reading exactly n bytes\<close>

text \<open>
  \<open>read n s\<close> is a call of \<open>Read::read\<close> with a buffer of length \<open>n\<close>: an I/O error, or the bytes
  delivered (none at the end of the stream, possibly fewer than \<open>n\<close>) and the new reader.
\<close>

type_synonym 's read_fn = "nat \<Rightarrow> 's \<Rightarrow> io_error + (byte list \<times> 's)"

text \<open>
  The provided method \<open>Read::read_exact\<close>: read until the buffer is full; \<open>Ok(0)\<close> before that is
  \<open>UnexpectedEof\<close>.
\<close>

function read_exact :: "'s read_fn \<Rightarrow> 's read_fn" where
  "read_exact rd n s =
     (if n = 0 then Inr ([], s)
      else case rd n s of
        Inl e \<Rightarrow> Inl e
      | Inr (bs, s') \<Rightarrow>
          if bs = [] then Inl UnexpectedEof
          else case read_exact rd (n - length bs) s' of
                 Inl e \<Rightarrow> Inl e
               | Inr (cs, s'') \<Rightarrow> Inr (bs @ cs, s''))"
  by pat_completeness auto
termination
  by (relation "measure (\<lambda>(rd, n, s). n)") auto

declare read_exact.simps [simp del]

section \<open>The trait BlockchainRead\<close>

definition read_u8 :: "'s read_fn \<Rightarrow> 's \<Rightarrow> (byte \<times> 's) result" where
  "read_u8 rx s = bind_result (lift_err BitcoinIo (rx 1 s)) (\<lambda>(buf, s'). Ok (buf ! 0, s'))"

definition read_u256 :: "'s read_fn \<Rightarrow> 's \<Rightarrow> (hash256 \<times> 's) result" where
  "read_u256 rx s = bind_result (lift_err BitcoinIo (rx 32 s)) (\<lambda>(buf, s'). Ok (buf, s'))"

definition read_u32 :: "'s read_fn \<Rightarrow> 's \<Rightarrow> (u32 \<times> 's) result" where
  "read_u32 rx s = bind_result (lift_err BitcoinIo (rx 4 s)) (\<lambda>(buf, s'). Ok (le_u32 buf, s'))"

definition read_i32 :: "'s read_fn \<Rightarrow> 's \<Rightarrow> (i32 \<times> 's) result" where
  "read_i32 rx s = bind_result (lift_err BitcoinIo (rx 4 s)) (\<lambda>(buf, s'). Ok (le_u32 buf, s'))"

definition read_vec_u8 :: "'s read_fn \<Rightarrow> u32 \<Rightarrow> 's \<Rightarrow> (byte list \<times> 's) result" where
  "read_vec_u8 rx count s =
     bind_result (lift_err BitcoinIo (rx (unat count) s)) (\<lambda>(buf, s'). Ok (buf, s'))"

text \<open>
  \<open>read_varint\<close>. The loop ends only when a byte without the continuation bit arrives, so it is a
  partial function; \<open>n << 7\<close> drops the high bits and \<open>n += 1\<close> wraps at \<open>usize\<close>.
\<close>

partial_function (option) read_varint_loop ::
  "'s read_fn \<Rightarrow> usize \<Rightarrow> 's \<Rightarrow> (usize \<times> 's) result option" where
  "read_varint_loop rx n s =
     (case read_u8 rx s of
        Err e \<Rightarrow> Some (Err e)
      | Panic \<Rightarrow> Some Panic
      | Diverge \<Rightarrow> Some Diverge
      | Ok (ch_data, s') \<Rightarrow>
          (let n' = push_bit 7 n OR ucast (ch_data AND 0x7F)
           in if 0 < ch_data AND 0x80 then read_varint_loop rx (n' + 1) s'
              else Some (Ok (n', s'))))"

definition read_varint :: "'s read_fn \<Rightarrow> 's \<Rightarrow> (usize \<times> 's) result" where
  "read_varint rx s = of_loop (read_varint_loop rx 0 s)"

text \<open>
  \<open>read_block\<close>, \<open>read_transaction\<close> and \<open>read_block_header\<close> call \<open>Decodable::consensus_decode\<close> of
  the \<open>bitcoin\<close> crate, the argument \<open>decode\<close>, on the reader.
\<close>

type_synonym ('a, 's) decode_fn = "'s \<Rightarrow> string + ('a \<times> 's)"

definition read_decodable :: "('a, 's) decode_fn \<Rightarrow> 's \<Rightarrow> ('a \<times> 's) result" where
  "read_decodable decode s = lift_err Encode (decode s)"

section \<open>The variable-length integer as a function on numbers\<close>

text \<open>
  What the loop computes, without the width: \<open>varint_nat acc bs\<close> is the number read from \<open>bs\<close>
  and the bytes after it. \<open>varint_bytes\<close> is the encoder of Bitcoin Core (\<open>WriteVarInt\<close>), the
  inverse the format promises; it is the specification and models no file of the crate.
\<close>

fun varint_nat :: "nat \<Rightarrow> byte list \<Rightarrow> (nat \<times> byte list) option" where
  "varint_nat acc [] = None"
| "varint_nat acc (b # bs) =
     (if 128 \<le> unat b then varint_nat (acc * 128 + unat b mod 128 + 1) bs
      else Some (acc * 128 + unat b, bs))"

fun varint_more :: "nat \<Rightarrow> byte list" where
  "varint_more n = (if n < 128 then [] else varint_more (n div 128 - 1)) @ [word_of_nat (n mod 128 + 128)]"

declare varint_more.simps [simp del]

definition varint_bytes :: "nat \<Rightarrow> byte list" where
  "varint_bytes n = (if n < 128 then [] else varint_more (n div 128 - 1)) @ [word_of_nat (n mod 128)]"

text \<open>
  \<open>varint_prefix acc\<close> are the bytes that bring the loop to the accumulator \<open>acc\<close>; both the
  encoder and the decoder are read through it.
\<close>

definition varint_prefix :: "nat \<Rightarrow> byte list" where
  "varint_prefix acc = (if acc = 0 then [] else varint_more (acc - 1))"

lemma unat_byte_of: "n < 256 \<Longrightarrow> unat (word_of_nat n :: byte) = n"
  by (simp add: unat_of_nat)

lemma byte_of_unat: "unat b = n \<Longrightarrow> word_of_nat n = (b :: byte)"
  by auto

lemma varint_nat_steps:
  assumes "m < 128"
  shows "varint_nat acc (word_of_nat (m + 128) # bs) = varint_nat (acc * 128 + m + 1) bs"
    and "varint_nat acc (word_of_nat m # bs) = Some (acc * 128 + m, bs)"
proof -
  have hi: "unat (word_of_nat (m + 128) :: byte) = m + 128"
    by (rule unat_byte_of) (use assms in simp)
  show "varint_nat acc (word_of_nat (m + 128) # bs) = varint_nat (acc * 128 + m + 1) bs"
    unfolding varint_nat.simps hi using assms by simp
  have lo: "unat (word_of_nat m :: byte) = m"
    by (rule unat_byte_of) (use assms in simp)
  show "varint_nat acc (word_of_nat m # bs) = Some (acc * 128 + m, bs)"
    unfolding varint_nat.simps lo using assms by simp
qed

lemma byte_split:
  "128 \<le> unat b \<Longrightarrow> word_of_nat (unat b mod 128 + 128) = (b :: byte)"
proof (rule byte_of_unat)
  assume "128 \<le> unat b"
  moreover have "unat b - 128 < 128"
    using unat_byte_lt [of b] by linarith
  ultimately show "unat b = unat b mod 128 + 128"
    by (simp add: le_mod_geq)
qed

lemma varint_prefix_extend:
  assumes "m < 128"
  shows "varint_prefix (acc * 128 + m + 1) = varint_prefix acc @ [word_of_nat (m + 128)]"
    and "varint_bytes (acc * 128 + m) = varint_prefix acc @ [word_of_nat m]"
  using assms varint_more.simps [of "acc * 128 + m"]
  by (simp_all add: varint_prefix_def varint_bytes_def)

lemma acc_cases: obtains a m where "(acc :: nat) = a * 128 + m" and "m < 128"
  by (metis div_mod_decomp mod_less_divisor zero_less_numeral)

lemma varint_nat_prefix: "varint_nat 0 (varint_prefix acc @ bs) = varint_nat acc bs"
proof (induction acc arbitrary: bs rule: less_induct)
  case (less acc)
  show ?case
  proof (cases acc)
    case 0
    then show ?thesis by (simp add: varint_prefix_def)
  next
    case (Suc k)
    obtain a m where k: "k = a * 128 + m" and m: "m < 128" by (rule acc_cases)
    with Suc have "a < acc" by simp
    with less.IH [of a "word_of_nat (m + 128) # bs"] Suc k m show ?thesis
      using varint_prefix_extend(1) [OF m, of a] varint_nat_steps(1) [OF m, of a bs] by simp
  qed
qed

lemma varint_nat_bytes: "varint_nat 0 (varint_bytes n @ bs) = Some (n, bs)"
proof -
  obtain a m where n: "n = a * 128 + m" and m: "m < 128" by (rule acc_cases)
  then show ?thesis
    using varint_nat_prefix [of a "word_of_nat m # bs"]
    by (simp only: varint_prefix_extend(2) varint_nat_steps(2) append.assoc append.simps)
qed

text \<open>Conversely every byte string that decodes is the encoding of its value: no number has two.\<close>

lemma varint_nat_unique_gen:
  "varint_nat acc bs = Some (n, r) \<Longrightarrow> varint_prefix acc @ bs = varint_bytes n @ r"
proof (induction acc bs rule: varint_nat.induct)
  case (2 acc b bs)
  show ?case
  proof (cases "128 \<le> unat b")
    case True
    then show ?thesis
      using "2.IH" "2.prems" varint_prefix_extend(1) [of "unat b mod 128" acc]
      by (simp add: byte_split del: of_nat_add)
  next
    case False
    then show ?thesis
      using "2.prems" varint_prefix_extend(2) [of "unat b" acc] by auto
  qed
qed simp

lemma varint_nat_unique: "varint_nat 0 bs = Some (n, r) \<Longrightarrow> bs = varint_bytes n @ r"
  using varint_nat_unique_gen [of 0 bs n r] by (simp add: varint_prefix_def)

text \<open>One round of the loop on a word is one round on the number it represents.\<close>

lemma varint_word_step:
  fixes n :: usize and ch :: byte
  shows "push_bit 7 n OR ucast (ch AND 0x7F) = n * 128 + word_of_nat (unat ch mod 128)"
proof -
  have "ch AND 0x7F = take_bit 7 ch"
    by (simp add: take_bit_eq_mask mask_eq_exp_minus_1)
  then have "unat (ch AND 0x7F) = unat ch mod 128"
    by (simp add: take_bit_eq_mod unat_mod_distrib)
  then have low: "ucast (ch AND 0x7F) = (word_of_nat (unat ch mod 128) :: usize)"
    by (metis of_nat_unat)
  have "push_bit 7 n AND ucast (take_bit 7 ch) = 0"
    by (rule bit_word_eqI) (auto simp: bit_simps simp del: push_bit_numeral)
  then have "push_bit 7 n OR ucast (ch AND 0x7F) = push_bit 7 n + ucast (ch AND 0x7F)"
    unfolding \<open>ch AND 0x7F = take_bit 7 ch\<close> by (rule disjunctive_add_eq_or [symmetric])
  then show ?thesis
    unfolding low by (simp add: push_bit_eq_mult)
qed

lemma varint_more_bit: "0 < (ch :: byte) AND 0x80 \<longleftrightarrow> 128 \<le> unat ch"
proof -
  have "(0 < ch AND 0x80) = (ch AND 2 ^ 7 \<noteq> 0)"
    by (simp add: word_greater_zero_iff)
  also have "\<dots> = bit ch 7"
    by (simp only: and_exp_eq_0_iff_not_bit) simp
  also have "\<dots> = bit (unat ch) 7"
    by (simp add: bit_unsigned_iff)
  also have "\<dots> = odd (unat ch div 128)"
    by (simp add: bit_iff_odd)
  also have "\<dots> = (128 \<le> unat ch)"
  proof -
    have "unat ch div 128 = (if 128 \<le> unat ch then 1 else 0)"
      using unat_byte_lt [of ch] by (auto intro: div_nat_eqI)
    then show ?thesis by simp
  qed
  finally show ?thesis .
qed

section \<open>The contract of read_exact, and every method over it\<close>

text \<open>
  \<open>rest s\<close> are the bytes still to come. \<open>read_exact\<close> delivers exactly the next \<open>n\<close> of them, or
  fails with \<open>UnexpectedEof\<close> when there are fewer; \<open>good\<close> is the reader's own invariant.
\<close>

locale byte_source =
  fixes rx :: "nat \<Rightarrow> 's \<Rightarrow> io_error + (byte list \<times> 's)"
    and rest :: "'s \<Rightarrow> byte list"
    and good :: "'s \<Rightarrow> bool"
  assumes exact: "good s \<Longrightarrow> n \<le> length (rest s) \<Longrightarrow>
      \<exists>s'. rx n s = Inr (take n (rest s), s') \<and> rest s' = drop n (rest s) \<and> good s'"
    and eof: "good s \<Longrightarrow> length (rest s) < n \<Longrightarrow> rx n s = Inl UnexpectedEof"
begin

lemma exact_cases [consumes 1, case_names short full]:
  assumes "good s"
  obtains "length (rest s) < n" and "rx n s = Inl UnexpectedEof"
  | s' where "n \<le> length (rest s)" and "rx n s = Inr (take n (rest s), s')"
      and "rest s' = drop n (rest s)" and "good s'"
  using assms exact [of s n] eof [of s n] by (meson not_le)

lemma read_u8_nil: "good s \<Longrightarrow> rest s = [] \<Longrightarrow> read_u8 rx s = Err (BitcoinIo UnexpectedEof)"
  using eof [of s 1] by (simp add: read_u8_def)

lemma read_u8_cons:
  "good s \<Longrightarrow> rest s = b # bs \<Longrightarrow> \<exists>s'. read_u8 rx s = Ok (b, s') \<and> rest s' = bs \<and> good s'"
  using exact [of s 1] by (auto simp: read_u8_def)

lemma read_u32_append:
  "good s \<Longrightarrow> rest s = u32_le w @ bs \<Longrightarrow> \<exists>s'. read_u32 rx s = Ok (w, s') \<and> rest s' = bs \<and> good s'"
  using exact [of s 4] by (auto simp: read_u32_def)

lemma read_u32_short:
  "good s \<Longrightarrow> length (rest s) < 4 \<Longrightarrow> read_u32 rx s = Err (BitcoinIo UnexpectedEof)"
  using eof [of s 4] by (simp add: read_u32_def)

lemma read_u32_ok:
  "good s \<Longrightarrow> 4 \<le> length (rest s) \<Longrightarrow>
     \<exists>s'. read_u32 rx s = Ok (le_u32 (take 4 (rest s)), s') \<and> rest s' = drop 4 (rest s) \<and> good s'"
  using exact [of s 4] by (auto simp: read_u32_def)

lemma read_u256_ok:
  "good s \<Longrightarrow> 32 \<le> length (rest s) \<Longrightarrow>
     \<exists>s'. read_u256 rx s = Ok (take 32 (rest s), s') \<and> rest s' = drop 32 (rest s) \<and> good s'"
  using exact [of s 32] by (auto simp: read_u256_def)

lemma read_vec_u8_ok:
  "good s \<Longrightarrow> unat c \<le> length (rest s) \<Longrightarrow>
     \<exists>s'. read_vec_u8 rx c s = Ok (take (unat c) (rest s), s') \<and> rest s' = drop (unat c) (rest s) \<and> good s'"
  using exact [of s "unat c"] by (auto simp: read_vec_u8_def)

lemma read_vec_u8_short:
  "good s \<Longrightarrow> length (rest s) < unat c \<Longrightarrow> read_vec_u8 rx c s = Err (BitcoinIo UnexpectedEof)"
  using eof [of s "unat c"] by (simp add: read_vec_u8_def)

text \<open>
  The varint loop ends on every lawful source, because each round consumes a byte; its result is
  the number of \<open>varint_nat\<close> modulo the width of \<open>usize\<close>.
\<close>

lemma read_varint_loop_spec:
  assumes "good s"
  shows "case varint_nat n (rest s) of
      None \<Rightarrow> read_varint_loop rx (word_of_nat n) s = Some (Err (BitcoinIo UnexpectedEof))
    | Some (m, r) \<Rightarrow> \<exists>s'. read_varint_loop rx (word_of_nat n) s = Some (Ok (word_of_nat m, s'))
                        \<and> rest s' = r \<and> good s'"
  using assms
proof (induction n "rest s" arbitrary: s rule: varint_nat.induct)
  case (1 acc)
  then have "read_u8 rx s = Err (BitcoinIo UnexpectedEof)"
    by (simp add: read_u8_nil)
  then show ?case
    using "1"(1) [symmetric] by (simp add: read_varint_loop.simps [of rx _ s])
next
  case (2 acc b bs)
  from "2.prems" "2.hyps"(2) [symmetric] obtain s1 where
      rd: "read_u8 rx s = Ok (b, s1)" and s1: "rest s1 = bs" and g: "good s1"
    using read_u8_cons by blast
  have word: "word_of_nat acc * 128 + word_of_nat (unat b mod 128) =
      (word_of_nat (acc * 128 + unat b mod 128) :: usize)"
    by simp
  show ?case
  proof (cases "128 \<le> unat b")
    case True
    then have step: "read_varint_loop rx (word_of_nat acc) s
        = read_varint_loop rx (word_of_nat (acc * 128 + unat b mod 128 + 1)) s1"
      by (subst read_varint_loop.simps)
         (simp add: rd Let_def varint_word_step varint_more_bit algebra_simps)
    have "varint_nat acc (rest s) = varint_nat (acc * 128 + unat b mod 128 + 1) (rest s1)"
      using True s1 "2.hyps"(2) [symmetric] by simp
    with "2.hyps"(1) [OF True s1 [symmetric] g] show ?thesis
      unfolding step by (simp only:)
  next
    case False
    then have "read_varint_loop rx (word_of_nat acc) s
        = Some (Ok (word_of_nat (acc * 128 + unat b), s1))"
      by (subst read_varint_loop.simps)
         (simp add: rd Let_def varint_word_step varint_more_bit algebra_simps)
    with False "2.hyps"(2) [symmetric] s1 g show ?thesis by simp
  qed
qed

lemma read_varint_spec:
  assumes "good s"
  shows "case varint_nat 0 (rest s) of
      None \<Rightarrow> read_varint rx s = Err (BitcoinIo UnexpectedEof)
    | Some (m, r) \<Rightarrow> \<exists>s'. read_varint rx s = Ok (word_of_nat m, s') \<and> rest s' = r \<and> good s'"
  using read_varint_loop_spec [OF assms, of 0]
  by (auto simp: read_varint_def split: option.splits)

lemma read_varint_returns: "good s \<Longrightarrow> returns (read_varint rx s)"
  using read_varint_spec [of s] by (auto split: option.splits)

lemma read_varint_good: "good s \<Longrightarrow> read_varint rx s = Ok (n, s') \<Longrightarrow> good s'"
  using read_varint_spec [of s] by (auto split: option.splits)

lemma read_varint_bytes:
  "good s \<Longrightarrow> rest s = varint_bytes n @ bs \<Longrightarrow>
     \<exists>s'. read_varint rx s = Ok (word_of_nat n, s') \<and> rest s' = bs \<and> good s'"
  using read_varint_spec [of s] by (simp add: varint_nat_bytes)

end

section \<open>From Read::read to read_exact\<close>

text \<open>
  The contract of \<open>Read::read\<close>: some non-empty part of what is left is delivered, as long as the
  buffer and the rest are not empty. Any such reader, however short its reads are, satisfies
  \<open>byte_source\<close> through the \<open>read_exact\<close> loop.
\<close>

locale raw_reader =
  fixes rd :: "nat \<Rightarrow> 's \<Rightarrow> io_error + (byte list \<times> 's)"
    and rest :: "'s \<Rightarrow> byte list"
    and good :: "'s \<Rightarrow> bool"
  assumes read_part: "good s \<Longrightarrow>
      \<exists>k s'. rd n s = Inr (take k (rest s), s') \<and> k \<le> n \<and> k \<le> length (rest s)
           \<and> (0 < n \<longrightarrow> rest s \<noteq> [] \<longrightarrow> 0 < k) \<and> rest s' = drop k (rest s) \<and> good s'"
begin

lemma read_exact_spec:
  assumes "good s"
  shows "if n \<le> length (rest s)
         then \<exists>s'. read_exact rd n s = Inr (take n (rest s), s') \<and> rest s' = drop n (rest s) \<and> good s'
         else read_exact rd n s = Inl UnexpectedEof"
  using assms
proof (induction n arbitrary: s rule: less_induct)
  case (less n)
  obtain k s1 where rd: "rd n s = Inr (take k (rest s), s1)" and kn: "k \<le> n"
    and kr: "k \<le> length (rest s)" and pos: "0 < n \<longrightarrow> rest s \<noteq> [] \<longrightarrow> 0 < k"
    and s1: "rest s1 = drop k (rest s)" and g: "good s1"
    using read_part [OF less.prems, of n] by blast
  consider (zero) "n = 0" | (eof) "0 < n" "rest s = []" | (go) "0 < n" "rest s \<noteq> []" "0 < k"
    using pos by auto
  then show ?case
  proof cases
    case zero
    with less.prems show ?thesis by (simp add: read_exact.simps [of rd 0 s])
  next
    case eof
    with rd show ?thesis by (simp add: read_exact.simps [of rd n s])
  next
    case go
    with kn have "n - k < n" by simp
    note IH = less.IH [OF this g]
    have step: "read_exact rd n s = (case read_exact rd (n - k) s1 of Inl e \<Rightarrow> Inl e
        | Inr (cs, s'') \<Rightarrow> Inr (take k (rest s) @ cs, s''))"
      using go rd kr by (simp add: read_exact.simps [of rd n s] min_def)
    show ?thesis
    proof (cases "n \<le> length (rest s)")
      case True
      with IH kn s1 obtain s2 where "read_exact rd (n - k) s1 = Inr (take (n - k) (drop k (rest s)), s2)"
        and "rest s2 = drop n (rest s)" and "good s2"
        by (auto simp: diff_le_mono)
      moreover have "take k (rest s) @ take (n - k) (drop k (rest s)) = take n (rest s)"
        using kn by (metis le_add_diff_inverse take_add)
      ultimately show ?thesis using True step by simp
    next
      case False
      with IH kn kr s1 have "read_exact rd (n - k) s1 = Inl UnexpectedEof" by (auto split: if_splits)
      with False step show ?thesis by simp
    qed
  qed
qed

sublocale exactly: byte_source "read_exact rd" rest good
  by unfold_locales (use read_exact_spec in \<open>auto split: if_splits\<close>)

end

section \<open>Cursor\<close>

text \<open>
  \<open>bitcoin::io::Cursor\<close> over a byte vector, as documented: a vector and a position; a read copies
  from the position what the buffer holds and never fails.
\<close>

record cursor =
  cur_bytes :: "byte list"
  cur_pos :: nat

definition cursor_new :: "byte list \<Rightarrow> cursor" where
  "cursor_new bs = \<lparr>cur_bytes = bs, cur_pos = 0\<rparr>"

definition cursor_rest :: "cursor \<Rightarrow> byte list" where
  "cursor_rest c = drop (cur_pos c) (cur_bytes c)"

definition cursor_read :: "cursor read_fn" where
  "cursor_read n c =
     (let bs = take n (cursor_rest c) in Inr (bs, c\<lparr>cur_pos := cur_pos c + length bs\<rparr>))"

abbreviation cursor_exact :: "cursor read_fn" where
  "cursor_exact \<equiv> read_exact cursor_read"

lemma cursor_rest_new [simp]: "cursor_rest (cursor_new bs) = bs"
  by (simp add: cursor_new_def cursor_rest_def)

interpretation cur: raw_reader cursor_read cursor_rest "\<lambda>_. True"
proof (unfold_locales, goal_cases)
  case (1 c n)
  show ?case
  proof (intro exI conjI)
    show "cursor_read n c = Inr (take (min n (length (cursor_rest c))) (cursor_rest c),
        c\<lparr>cur_pos := cur_pos c + min n (length (cursor_rest c))\<rparr>)"
      by (simp add: cursor_read_def Let_def min_def)
  qed (auto simp: cursor_rest_def add.commute)
qed

section \<open>Properties\<close>

lemma varint_nat_None: "varint_nat acc bs = None \<longleftrightarrow> list_all (\<lambda>b. 128 \<le> unat b) bs"
  by (induction acc bs rule: varint_nat.induct) auto

text \<open>
  C28. The varint decoder returns on every input and is exact: it fails with \<open>UnexpectedEof\<close> precisely
  when every byte left has the continuation bit, and otherwise the bytes consumed are Bitcoin Core's
  encoding of a number, the result is that number modulo the width of \<open>usize\<close>, and the cursor stands
  behind the encoding. So no byte string makes it loop and no number has a second encoding.
\<close>

theorem read_varint_exact:
  "if list_all (\<lambda>b. 128 \<le> unat b) (cursor_rest c)
   then read_varint cursor_exact c = Err (BitcoinIo UnexpectedEof)
   else \<exists>n c'. read_varint cursor_exact c = Ok (word_of_nat n, c')
        \<and> cursor_rest c = varint_bytes n @ cursor_rest c'"
  using cur.exactly.read_varint_spec [of c] varint_nat_unique [of "cursor_rest c"] varint_nat_None [of 0 "cursor_rest c"]
  by (auto split: option.splits)

text \<open>
  Varints round-trip: the number that Bitcoin Core encoded is read back, whatever follows, and what
  follows is left; a number of at least \<open>2 ^ 64\<close> comes back modulo \<open>2 ^ 64\<close>.
\<close>

theorem read_varint_roundtrip:
  assumes "cursor_rest c = varint_bytes n @ bs"
  shows "\<exists>w c'. read_varint cursor_exact c = Ok (w, c') \<and> unat w = n mod 2 ^ 64 \<and> cursor_rest c' = bs"
  using cur.exactly.read_varint_bytes [OF TrueI assms] by (force simp: unat_of_nat)

theorem read_varint_roundtrip_witness:
  "\<exists>w c'. read_varint cursor_exact (cursor_new [0x80, 0x7F, 9]) = Ok (w, c') \<and> unat w = 255 \<and> cursor_rest c' = [9]"
proof -
  have "cursor_rest (cursor_new [0x80, 0x7F, 9]) = varint_bytes 255 @ [9]"
    by (simp add: varint_bytes_def varint_more.simps)
  from read_varint_roundtrip [OF this] show ?thesis by auto
qed

end
