(* ===== verification/Bitcoin_Types.thy ===== *)
theory Bitcoin_Types
  imports Reader
begin

text \<open>
  The data of the \<open>bitcoin\<close> crate that the explorer reads, copies and rearranges: headers,
  transactions, blocks. The crate is a dependency and not part of the repository, so only the
  fields the explorer uses are here, and its functions (hashing, consensus decoding, null and
  coinbase tests) are the fields of \<open>bitcoin_lib\<close>, a parameter of every definition that calls
  them. What the explorer relies on is stated as the predicates \<open>coinbase_doc\<close> and
  \<open>txout_codec\<close>; they are hypotheses of the theorems that need them.
\<close>

section \<open>Data\<close>

record header =
  hdr_version :: i32
  prev_blockhash :: hash256
  merkle_root :: hash256
  hdr_time :: u32
  hdr_bits :: u32
  hdr_nonce :: u32

record outpoint =
  op_txid :: hash256
  op_vout :: u32

record txin =
  previous_output :: outpoint
  script_sig :: "byte list"
  tx_sequence :: u32
  tx_witness :: "byte list list"

record txout =
  txo_value :: u64
  script_pubkey :: "byte list"

record transaction =
  tx_version :: i32
  tx_lock_time :: u32
  tx_input :: "txin list"
  tx_output :: "txout list"

record block =
  blk_header :: header
  txdata :: "transaction list"

section \<open>Functions of the bitcoin crate\<close>

text \<open>
  Decoders take the bytes to come and return the object and the bytes after it, or the error
  message of \<open>consensus::encode::Error\<close>.
\<close>

record bitcoin_lib =
  block_hash :: "header \<Rightarrow> hash256"
  compute_txid :: "transaction \<Rightarrow> hash256"
  is_coinbase :: "transaction \<Rightarrow> bool"
  is_null :: "outpoint \<Rightarrow> bool"
  decode_block :: "(block, byte list) decode_fn"
  decode_transaction :: "(transaction, byte list) decode_fn"
  decode_header :: "(header, byte list) decode_fn"
  encode_txout :: "txout \<Rightarrow> byte list"
  decode_txout :: "byte list \<Rightarrow> txout option"

text \<open>
  \<open>Transaction::is_coinbase\<close> is documented as the test for a single input with a null previous
  output; \<open>TxOut\<close>'s consensus encoding is documented to decode to the same output.
\<close>

definition coinbase_doc :: "bitcoin_lib \<Rightarrow> bool" where
  "coinbase_doc L \<longleftrightarrow>
     (\<forall>tx. is_coinbase L tx \<longleftrightarrow> (\<exists>i. tx_input tx = [i] \<and> is_null L (previous_output i)))"

definition txout_codec :: "bitcoin_lib \<Rightarrow> bool" where
  "txout_codec L \<longleftrightarrow> (\<forall>t. decode_txout L (encode_txout L t) = Some t)"

definition txid_length :: "bitcoin_lib \<Rightarrow> bool" where
  "txid_length L \<longleftrightarrow> (\<forall>tx. length (compute_txid L tx) = 32)"

text \<open>
  \<open>consensus_decode\<close> on a \<open>Cursor\<close>: the object at the cursor, which then stands behind it.
\<close>

definition cursor_decode :: "('a, byte list) decode_fn \<Rightarrow> ('a, cursor) decode_fn" where
  "cursor_decode decode c =
     (case decode (cursor_rest c) of
        Inl e \<Rightarrow> Inl e
      | Inr (a, bs) \<Rightarrow> Inr (a, c\<lparr>cur_pos := length (cur_bytes c) - length bs\<rparr>))"

lemma coinbase_docD:
  "coinbase_doc L \<Longrightarrow> is_coinbase L tx \<Longrightarrow> \<exists>i. tx_input tx = [i] \<and> is_null L (previous_output i)"
  by (simp add: coinbase_doc_def)

lemma txout_codecD [simp]: "txout_codec L \<Longrightarrow> decode_txout L (encode_txout L t) = Some t"
  by (simp add: txout_codec_def)

section \<open>A concrete library for the witnesses\<close>

text \<open>
  An instance of \<open>bitcoin_lib\<close> that satisfies the documented facts: a block hash is the nonce and a
  txid the lock time, padded to 32 bytes; a transaction is decoded from one byte \<open>b\<close>, as lock time
  \<open>b\<close> with one output of value \<open>b\<close>, a block from one byte as a block with that one transaction, a
  header from two bytes, its nonce and the nonce of its parent.
\<close>

definition sample_hash :: "u32 \<Rightarrow> hash256" where
  "sample_hash w = u32_le w @ replicate 28 0"

definition sample_tx :: "u32 \<Rightarrow> txin list \<Rightarrow> transaction" where
  "sample_tx t ins = \<lparr>tx_version = 1, tx_lock_time = t, tx_input = ins,
     tx_output = [\<lparr>txo_value = ucast t, script_pubkey = []\<rparr>]\<rparr>"

definition sample_header :: "u32 \<Rightarrow> u32 \<Rightarrow> header" where
  "sample_header nonce parent = \<lparr>hdr_version = 1, prev_blockhash = sample_hash parent,
     merkle_root = sample_hash 0, hdr_time = 0, hdr_bits = 0, hdr_nonce = nonce\<rparr>"

definition sample_lib :: bitcoin_lib where
  "sample_lib =
     \<lparr>block_hash = (\<lambda>h. sample_hash (hdr_nonce h)), compute_txid = (\<lambda>tx. sample_hash (tx_lock_time tx)),
      is_coinbase = (\<lambda>tx. case tx_input tx of [i] \<Rightarrow> op_vout (previous_output i) = 0xFFFFFFFF | _ \<Rightarrow> False),
      is_null = (\<lambda>p. op_vout p = 0xFFFFFFFF),
      decode_block = (\<lambda>bs. case bs of [] \<Rightarrow> Inl ''eof''
         | b # r \<Rightarrow> Inr (\<lparr>blk_header = sample_header (ucast b) 0, txdata = [sample_tx (ucast b) []]\<rparr>, r)),
      decode_transaction = (\<lambda>bs. case bs of [] \<Rightarrow> Inl ''eof'' | b # r \<Rightarrow> Inr (sample_tx (ucast b) [], r)),
      decode_header = (\<lambda>bs. case bs of b # c # r \<Rightarrow> Inr (sample_header (ucast b) (ucast c), r) | _ \<Rightarrow> Inl ''eof''),
      encode_txout = (\<lambda>t. nat_le 8 (unat (txo_value t)) @ script_pubkey t),
      decode_txout = (\<lambda>bs. if length bs < 8 then None
         else Some \<lparr>txo_value = word_of_nat (le_nat (take 8 bs)), script_pubkey = drop 8 bs\<rparr>)\<rparr>"

lemma length_sample_hash [simp]: "length (sample_hash w) = 32"
  by (simp add: sample_hash_def)

lemma sample_hash_inject [simp]: "sample_hash v = sample_hash w \<longleftrightarrow> v = w"
  by (simp add: sample_hash_def)

lemma sample_coinbase_doc: "coinbase_doc sample_lib"
  by (auto simp: coinbase_doc_def sample_lib_def split: list.splits)

lemma sample_txout_codec: "txout_codec sample_lib"
proof -
  have "le_nat (nat_le 8 (unat v)) = unat v" for v :: u64
    using unat_bound [of v] by (simp add: le_nat_nat_le del: nat_le_numeral)
  then show ?thesis
    by (simp add: txout_codec_def sample_lib_def del: nat_le_numeral)
qed

lemma sample_txid_length: "txid_length sample_lib"
  by (simp add: txid_length_def sample_lib_def)

lemma sample_lib_simps [simp]:
  "block_hash sample_lib h = sample_hash (hdr_nonce h)"
  "compute_txid sample_lib tx = sample_hash (tx_lock_time tx)"
  "is_null sample_lib p \<longleftrightarrow> op_vout p = 0xFFFFFFFF"
  "decode_transaction sample_lib (b # bs) = Inr (sample_tx (ucast b) [], bs)"
  "decode_block sample_lib (b # bs) =
     Inr (\<lparr>blk_header = sample_header (ucast b) 0, txdata = [sample_tx (ucast b) []]\<rparr>, bs)"
  by (simp_all add: sample_lib_def)

lemma sample_data_simps [simp]:
  "tx_input (sample_tx t ins) = ins" "tx_lock_time (sample_tx t ins) = t"
  "tx_output (sample_tx t ins) = [\<lparr>txo_value = ucast t, script_pubkey = []\<rparr>]"
  "hdr_nonce (sample_header n p) = n" "prev_blockhash (sample_header n p) = sample_hash p"
  by (simp_all add: sample_tx_def sample_header_def)

end
