(* ===== verification/Script.thy ===== *)
theory Script
  imports Bitcoin_Types
begin

text \<open>
  \<open>parser/script.rs\<close>: the classification of a script public key and the addresses in it. The
  script tests, the instruction iterator, hashing and address construction belong to the
  \<open>bitcoin\<close> crate and are the fields of \<open>script_lib\<close>; the dispatch, the recognition of bare
  multi-signature scripts and their addresses are the explorer's own code and are modelled here,
  with every \<open>assert!\<close> and \<open>unreachable!\<close> as the outcome \<open>Panic\<close>.
\<close>

section \<open>Interface to the bitcoin crate\<close>

text \<open>Of \<open>bitcoin::Network\<close> the code names only the main network.\<close>

datatype network = Bitcoin | OtherNetwork string

datatype instruction = PushBytes "byte list" | Op byte

record ('pk, 'addr) script_lib =
  address_from_script :: "byte list \<Rightarrow> network \<Rightarrow> 'addr option"
  is_p2pk :: "byte list \<Rightarrow> bool"
  is_p2pkh :: "byte list \<Rightarrow> bool"
  is_p2sh :: "byte list \<Rightarrow> bool"
  is_p2wpkh :: "byte list \<Rightarrow> bool"
  is_p2wsh :: "byte list \<Rightarrow> bool"
  is_witness_program :: "byte list \<Rightarrow> bool"
  is_op_return :: "byte list \<Rightarrow> bool"
  instructions :: "byte list \<Rightarrow> (string + instruction) list"
  public_key_from_slice :: "byte list \<Rightarrow> 'pk option"
  pubkey_hash :: "'pk \<Rightarrow> byte list"
  hash160 :: "byte list \<Rightarrow> byte list"
  pubkey_hash_from_slice :: "byte list \<Rightarrow> byte list option"
  address_p2pkh :: "byte list \<Rightarrow> network \<Rightarrow> 'addr"

text \<open>The opcodes the code names, with their byte in the script encoding.\<close>

abbreviation OP_PUSHBYTES_0 :: byte where "OP_PUSHBYTES_0 \<equiv> 0x00"
abbreviation OP_PUSHNUM_NEG1 :: byte where "OP_PUSHNUM_NEG1 \<equiv> 0x4f"
abbreviation OP_PUSHNUM_1 :: byte where "OP_PUSHNUM_1 \<equiv> 0x51"
abbreviation OP_PUSHNUM_16 :: byte where "OP_PUSHNUM_16 \<equiv> 0x60"
abbreviation OP_CHECKMULTISIG :: byte where "OP_CHECKMULTISIG \<equiv> 0xae"
abbreviation OP_CHECKMULTISIGVERIFY :: byte where "OP_CHECKMULTISIGVERIFY \<equiv> 0xaf"

text \<open>
  \<open>Script::is_p2pk\<close> is documented as the test for a push of a public key followed by
  \<open>OP_CHECKSIG\<close>, so the first instruction of such a script is a push.
\<close>

definition p2pk_doc :: "('pk, 'addr) script_lib \<Rightarrow> bool" where
  "p2pk_doc S \<longleftrightarrow>
     (\<forall>script. is_p2pk S script \<longrightarrow> (\<exists>pk rest. instructions S script = Inr (PushBytes pk) # rest))"

section \<open>Types of scripts\<close>

datatype script_type =
    OpReturn
  | Pay2MultiSig
  | Pay2PublicKey
  | Pay2PublicKeyHash
  | Pay2ScriptHash
  | Pay2WitnessPublicKeyHash
  | Pay2WitnessScriptHash
  | WitnessProgram
  | NotRecognised

text \<open>\<open>derive(PartialOrd, Ord)\<close>: the order of the declaration.\<close>

primrec script_type_rank :: "script_type \<Rightarrow> nat" where
  "script_type_rank OpReturn = 0"
| "script_type_rank Pay2MultiSig = 1"
| "script_type_rank Pay2PublicKey = 2"
| "script_type_rank Pay2PublicKeyHash = 3"
| "script_type_rank Pay2ScriptHash = 4"
| "script_type_rank Pay2WitnessPublicKeyHash = 5"
| "script_type_rank Pay2WitnessScriptHash = 6"
| "script_type_rank WitnessProgram = 7"
| "script_type_rank NotRecognised = 8"

instantiation script_type :: linorder
begin

definition less_eq_script_type :: "script_type \<Rightarrow> script_type \<Rightarrow> bool" where
  "less_eq_script_type a b \<longleftrightarrow> script_type_rank a \<le> script_type_rank b"

definition less_script_type :: "script_type \<Rightarrow> script_type \<Rightarrow> bool" where
  "less_script_type a b \<longleftrightarrow> script_type_rank a < script_type_rank b"

instance
proof
  fix a b :: script_type
  assume "a \<le> b" and "b \<le> a"
  then show "a = b" by (cases a; cases b) (simp_all add: less_eq_script_type_def)
qed (auto simp: less_eq_script_type_def less_script_type_def)

end

text \<open>\<open>impl Display for ScriptType\<close>.\<close>

fun script_type_display :: "script_type \<Rightarrow> string" where
  "script_type_display OpReturn = ''OpReturn''"
| "script_type_display Pay2MultiSig = ''Pay2MultiSig''"
| "script_type_display Pay2PublicKey = ''Pay2PublicKey''"
| "script_type_display Pay2PublicKeyHash = ''Pay2PublicKeyHash''"
| "script_type_display Pay2ScriptHash = ''Pay2ScriptHash''"
| "script_type_display Pay2WitnessPublicKeyHash = ''Pay2WitnessPublicKeyHash''"
| "script_type_display Pay2WitnessScriptHash = ''Pay2WitnessScriptHash''"
| "script_type_display WitnessProgram = ''WitnessProgram''"
| "script_type_display NotRecognised = ''NotRecognised''"

record 'addr script_info =
  si_addresses :: "'addr list"
  si_pattern :: script_type

definition script_info_from_vec :: "'addr list \<Rightarrow> script_type \<Rightarrow> 'addr script_info" where
  "script_info_from_vec addresses pattern = \<lparr>si_addresses = addresses, si_pattern = pattern\<rparr>"

definition script_info_new :: "'addr option \<Rightarrow> script_type \<Rightarrow> 'addr script_info" where
  "script_info_new address pattern =
     (case address of
        Some a \<Rightarrow> script_info_from_vec [a] pattern
      | None \<Rightarrow> script_info_from_vec [] pattern)"

section \<open>Multi-signature scripts\<close>

definition decode_from_op_n :: "byte \<Rightarrow> int" where
  "decode_from_op_n opc =
     (if opc = OP_PUSHBYTES_0 then 0
      else if opc = OP_PUSHNUM_NEG1 then -1
      else uint opc + 1 - uint OP_PUSHNUM_1)"

text \<open>The trait \<open>Cmp\<close> on opcodes.\<close>

definition opcode_ge :: "byte \<Rightarrow> byte \<Rightarrow> bool" where
  [simp]: "opcode_ge op other \<longleftrightarrow> other \<le> op"

fun get_num_keys :: "instruction \<Rightarrow> int option" where
  "get_num_keys (PushBytes data) = None"
| "get_num_keys (Op opc) =
     (if \<not> (opc = OP_PUSHNUM_NEG1 \<or> opc = OP_PUSHBYTES_0
            \<or> (opcode_ge opc OP_PUSHNUM_1 \<and> opcode_ge OP_PUSHNUM_16 opc))
      then None else Some (decode_from_op_n opc))"

text \<open>The loop that collects the instructions and gives up at the first that does not parse.\<close>

fun collect_chunks :: "(string + instruction) list \<Rightarrow> instruction list option" where
  "collect_chunks [] = Some []"
| "collect_chunks (Inr i # is) = map_option (\<lambda>cs. i # cs) (collect_chunks is)"
| "collect_chunks (Inl e # is) = None"

text \<open>The loop over the middle chunks, which must all be data.\<close>

fun all_push :: "instruction list \<Rightarrow> bool" where
  "all_push [] = True"
| "all_push (Op opc # cs) = False"
| "all_push (PushBytes data # cs) = all_push cs"

definition ends_in_checkmultisig :: "instruction \<Rightarrow> bool" where
  "ends_in_checkmultisig c =
     (case c of
        PushBytes data \<Rightarrow> False
      | Op opc \<Rightarrow> opc = OP_CHECKMULTISIG \<or> opc = OP_CHECKMULTISIGVERIFY)"

definition is_multisig :: "('pk, 'addr) script_lib \<Rightarrow> byte list \<Rightarrow> bool" where
  "is_multisig S script =
     (case collect_chunks (instructions S script) of
        None \<Rightarrow> False
      | Some chunks \<Rightarrow>
          if length chunks < 4 then False
          else if \<not> ends_in_checkmultisig (last chunks) then False
          else (case get_num_keys (chunks ! (length chunks - 2)) of
                  None \<Rightarrow> False
                | Some num_keys \<Rightarrow>
                    if num_keys < 1 \<or> num_keys + 3 \<noteq> int (length chunks) then False
                    else if \<not> all_push (take (length chunks - 3) (drop 1 chunks)) then False
                    else (case get_num_keys (hd chunks) of
                            None \<Rightarrow> False
                          | Some num_keys \<Rightarrow> \<not> num_keys < 1)))"

text \<open>
  The addresses: every key must parse, or none is returned. \<open>ops.len() - 2\<close> and the capacity
  \<open>num_keys as usize\<close> are guarded as the machine would: out of range is a panic.
\<close>

fun multisig_keys :: "('pk, 'addr) script_lib \<Rightarrow> instruction list \<Rightarrow> 'addr list \<Rightarrow> 'addr list result" where
  "multisig_keys S [] public_keys = Ok public_keys"
| "multisig_keys S (PushBytes data # ops) public_keys =
     (case public_key_from_slice S data of
        Some pk \<Rightarrow> multisig_keys S ops (public_keys @ [address_p2pkh S (pubkey_hash S pk) Bitcoin])
      | None \<Rightarrow> Ok [])"
| "multisig_keys S (Op opc # ops) public_keys = Panic"

definition multisig_addresses :: "('pk, 'addr) script_lib \<Rightarrow> byte list \<Rightarrow> 'addr list result" where
  "multisig_addresses S script =
     (if \<not> is_multisig S script then Panic
      else (let ops = List.map_filter (\<lambda>i. case i of Inl e \<Rightarrow> None | Inr c \<Rightarrow> Some c) (instructions S script)
            in if length ops < 2 then Panic
               else (case ops ! (length ops - 2) of
                       PushBytes data \<Rightarrow> Panic
                     | Op opc \<Rightarrow>
                         (let num_keys = decode_from_op_n opc
                          in if num_keys < 0 then Panic
                             else multisig_keys S (take (nat num_keys) (drop 1 ops)) []))))"

section \<open>Pay to public key\<close>

definition p2pk_to_address :: "('pk, 'addr) script_lib \<Rightarrow> byte list \<Rightarrow> 'addr option result" where
  "p2pk_to_address S script =
     (if \<not> is_p2pk S script then Panic
      else (case instructions S script of
              Inr (PushBytes pk) # _ \<Rightarrow>
                (case pubkey_hash_from_slice S (hash160 S pk) of
                   None \<Rightarrow> Ok None
                 | Some pkh \<Rightarrow> Ok (Some (address_p2pkh S pkh Bitcoin)))
            | _ \<Rightarrow> Panic))"

section \<open>The dispatch\<close>

definition evaluate_script ::
  "('pk, 'addr) script_lib \<Rightarrow> byte list \<Rightarrow> network \<Rightarrow> 'addr script_info result" where
  "evaluate_script S script net =
     (let address = address_from_script S script net
      in if is_p2pk S script then
           bind_result (p2pk_to_address S script) (\<lambda>a. Ok (script_info_new a Pay2PublicKey))
         else if is_p2pkh S script then Ok (script_info_new address Pay2PublicKeyHash)
         else if is_p2sh S script then Ok (script_info_new address Pay2ScriptHash)
         else if is_p2wpkh S script then Ok (script_info_new address Pay2WitnessPublicKeyHash)
         else if is_p2wsh S script then Ok (script_info_new address Pay2WitnessScriptHash)
         else if is_witness_program S script then Ok (script_info_new address WitnessProgram)
         else if is_op_return S script then Ok (script_info_new address OpReturn)
         else if is_multisig S script then
           bind_result (multisig_addresses S script) (\<lambda>as. Ok (script_info_from_vec as Pay2MultiSig))
         else Ok (script_info_new address NotRecognised))"

section \<open>Bare multi-signature scripts, characterised\<close>

lemma collect_chunks_eq: "collect_chunks is = Some cs \<longleftrightarrow> is = map Inr cs"
  by (induction "is" arbitrary: cs rule: collect_chunks.induct) (auto simp: map_eq_Cons_conv)

lemma all_push_eq: "all_push cs \<longleftrightarrow> (\<exists>keys. cs = map PushBytes keys)"
proof (induction cs rule: all_push.induct)
  case (3 data cs)
  then show ?case by (auto simp: Cons_eq_map_conv)
qed auto

lemma get_num_keys_pos:
  "get_num_keys c = Some n \<and> 1 \<le> n \<longleftrightarrow>
     (\<exists>opc. c = Op opc \<and> OP_PUSHNUM_1 \<le> opc \<and> opc \<le> OP_PUSHNUM_16 \<and> n = uint opc - 0x50)"
proof (cases c)
  case (Op opc)
  have "uint opc - 0x50 \<ge> 1" if "OP_PUSHNUM_1 \<le> opc"
    using that by (simp add: word_le_def)
  then show ?thesis
    using Op by (auto simp: decode_from_op_n_def word_le_def split: if_splits)
qed auto

lemma ends_in_checkmultisig_iff:
  "ends_in_checkmultisig c \<longleftrightarrow> (\<exists>v. c = Op v \<and> (v = OP_CHECKMULTISIG \<or> v = OP_CHECKMULTISIGVERIFY))"
  by (cases c) (auto simp: ends_in_checkmultisig_def)

text \<open>\<open>m\<close>-of-\<open>n\<close>: the opcodes \<open>OP_m\<close>, \<open>OP_n\<close> and \<open>v\<close> around the \<open>n\<close> keys.\<close>

definition multisig_chunks :: "byte \<Rightarrow> byte list list \<Rightarrow> byte \<Rightarrow> byte \<Rightarrow> instruction list" where
  "multisig_chunks m keys n v = Op m # map PushBytes keys @ [Op n, Op v]"

definition multisig_ops :: "byte \<Rightarrow> byte list list \<Rightarrow> byte \<Rightarrow> byte \<Rightarrow> bool" where
  "multisig_ops m keys n v \<longleftrightarrow>
     OP_PUSHNUM_1 \<le> m \<and> m \<le> OP_PUSHNUM_16 \<and> OP_PUSHNUM_1 \<le> n \<and> n \<le> OP_PUSHNUM_16
     \<and> uint n - 0x50 = int (length keys) \<and> (v = OP_CHECKMULTISIG \<or> v = OP_CHECKMULTISIGVERIFY)"

lemma four_chunks:
  assumes "4 \<le> length cs"
  obtains a mid b c where "cs = a # mid @ [b, c]"
proof -
  from assms obtain a xs where a: "cs = a # xs" and "3 \<le> length xs" by (cases cs) auto
  then obtain ys c where xs: "xs = ys @ [c]" and "2 \<le> length ys" by (cases xs rule: rev_cases) auto
  then obtain zs b where "ys = zs @ [b]" by (cases ys rule: rev_cases) auto
  with a xs that show ?thesis by simp
qed

lemma is_multisig_chunks:
  "is_multisig S script \<longleftrightarrow>
     (\<exists>a mid b c. instructions S script = map Inr (a # mid @ [b, c]) \<and> mid \<noteq> []
        \<and> ends_in_checkmultisig c
        \<and> (\<exists>n. get_num_keys b = Some n \<and> 1 \<le> n \<and> n = int (length mid))
        \<and> all_push mid \<and> (\<exists>m. get_num_keys a = Some m \<and> 1 \<le> m))" (is "_ \<longleftrightarrow> ?R")
proof
  assume "is_multisig S script"
  then obtain chunks where inst: "instructions S script = map Inr chunks" and len: "4 \<le> length chunks"
    and *: "is_multisig S script"
    by (auto simp: is_multisig_def collect_chunks_eq split: option.splits if_splits)
  from len obtain a mid b c where "chunks = a # mid @ [b, c]" by (rule four_chunks)
  moreover from this inst have "collect_chunks (instructions S script) = Some (a # mid @ [b, c])"
    by (simp add: collect_chunks_eq)
  ultimately show ?R
    using inst * by (auto simp: is_multisig_def nth_append split: option.splits if_splits)
next
  assume ?R
  then obtain a mid b c where "collect_chunks (instructions S script) = Some (a # mid @ [b, c])"
    and "mid \<noteq> []" "ends_in_checkmultisig c" "all_push mid"
    and "\<exists>n. get_num_keys b = Some n \<and> 1 \<le> n \<and> n = int (length mid)"
    and "\<exists>m. get_num_keys a = Some m \<and> 1 \<le> m"
    by (auto simp: collect_chunks_eq)
  then show "is_multisig S script"
    by (auto simp: is_multisig_def nth_append Suc_le_eq neq_Nil_conv)
qed

lemma is_multisig_shape:
  "is_multisig S script \<longleftrightarrow>
     (\<exists>m keys n v. instructions S script = map Inr (multisig_chunks m keys n v) \<and> multisig_ops m keys n v)"
    (is "_ \<longleftrightarrow> ?R")
proof
  assume "is_multisig S script"
  then obtain a mid b c where inst: "instructions S script = map Inr (a # mid @ [b, c])"
    and c: "ends_in_checkmultisig c"
    and b: "\<exists>n. get_num_keys b = Some n \<and> 1 \<le> n \<and> n = int (length mid)"
    and mid: "all_push mid" and a: "\<exists>m. get_num_keys a = Some m \<and> 1 \<le> m"
    unfolding is_multisig_chunks by blast
  from mid obtain keys where keys: "mid = map PushBytes keys" by (auto simp: all_push_eq)
  from a obtain m where m: "a = Op m" "OP_PUSHNUM_1 \<le> m" "m \<le> OP_PUSHNUM_16"
    using get_num_keys_pos by blast
  from b obtain n where n: "b = Op n" "OP_PUSHNUM_1 \<le> n" "n \<le> OP_PUSHNUM_16" "uint n - 0x50 = int (length mid)"
    using get_num_keys_pos by metis
  from c obtain v where v: "c = Op v" "v = OP_CHECKMULTISIG \<or> v = OP_CHECKMULTISIGVERIFY"
    using ends_in_checkmultisig_iff by blast
  have "instructions S script = map Inr (multisig_chunks m keys n v)" "multisig_ops m keys n v"
    using inst keys m n v by (simp_all add: multisig_chunks_def multisig_ops_def)
  then show ?R by blast
next
  assume ?R
  then obtain m keys n v where inst: "instructions S script = map Inr (multisig_chunks m keys n v)"
    and ops: "multisig_ops m keys n v" by blast
  have m: "\<exists>k. get_num_keys (Op m) = Some k \<and> 1 \<le> k" and
    n: "\<exists>k. get_num_keys (Op n) = Some k \<and> 1 \<le> k \<and> k = int (length keys)"
    using ops get_num_keys_pos [of "Op m"] get_num_keys_pos [of "Op n"]
    unfolding multisig_ops_def by blast+
  from n have "keys \<noteq> []" by auto
  moreover have "ends_in_checkmultisig (Op v)"
    using ops by (auto simp: multisig_ops_def ends_in_checkmultisig_iff)
  ultimately show "is_multisig S script"
    unfolding is_multisig_chunks using inst m n
    by (intro exI [of _ "Op m"] exI [of _ "map PushBytes keys"] exI [of _ "Op n"] exI [of _ "Op v"])
       (auto simp: multisig_chunks_def all_push_eq)
qed

text \<open>
  What \<open>is_multisig\<close> accepts. A script is a bare multi-signature script exactly if all of it
  parses, as \<open>OP_1..OP_16\<close>, then one data push per key, then the \<open>OP_1..OP_16\<close> that is the number
  of keys, then \<open>OP_CHECKMULTISIG\<close> or \<open>OP_CHECKMULTISIGVERIFY\<close>. The threshold is not compared with
  the number of keys.
\<close>

theorem is_multisig_iff:
  "is_multisig S script \<longleftrightarrow>
     (\<exists>m keys n v. instructions S script = map Inr (multisig_chunks m keys n v) \<and> multisig_ops m keys n v)"
  by (rule is_multisig_shape)

lemma multisig_opsD:
  assumes "multisig_ops m keys n v"
  shows "decode_from_op_n n = int (length keys)" and "keys \<noteq> []"
    and "get_num_keys (Op n) = Some (int (length keys))"
proof -
  obtain k where k: "get_num_keys (Op n) = Some k" "1 \<le> k" "k = uint n - 0x50"
    using assms get_num_keys_pos [of "Op n"] unfolding multisig_ops_def by blast
  then have len: "k = int (length keys)"
    using assms by (simp add: multisig_ops_def)
  then show "get_num_keys (Op n) = Some (int (length keys))" using k by simp
  then show "decode_from_op_n n = int (length keys)" by (auto split: if_splits)
  show "keys \<noteq> []" using k len by auto
qed

lemma multisig_keys_pushes:
  "multisig_keys S (map PushBytes keys) acc =
     Ok (case those (map (public_key_from_slice S) keys) of
           None \<Rightarrow> []
         | Some pks \<Rightarrow> acc @ map (\<lambda>pk. address_p2pkh S (pubkey_hash S pk) Bitcoin) pks)"
  by (induction keys arbitrary: acc) (auto split: option.splits)

lemma map_filter_Inr: "List.map_filter (\<lambda>i. case i of Inl e \<Rightarrow> None | Inr c \<Rightarrow> Some c) (map Inr cs) = cs"
  by (induction cs) (auto simp: List.map_filter_def)

lemma multisig_addresses_eq:
  assumes "instructions S script = map Inr (multisig_chunks m keys n v)" and "multisig_ops m keys n v"
  shows "multisig_addresses S script =
     Ok (case those (map (public_key_from_slice S) keys) of
           None \<Rightarrow> []
         | Some pks \<Rightarrow> map (\<lambda>pk. address_p2pkh S (pubkey_hash S pk) Bitcoin) pks)"
proof -
  have "is_multisig S script"
    using assms is_multisig_shape by blast
  moreover have "take (length keys) (drop 1 (multisig_chunks m keys n v)) = map PushBytes keys"
    by (simp add: multisig_chunks_def)
  moreover have "multisig_chunks m keys n v ! (length (multisig_chunks m keys n v) - 2) = Op n"
    by (simp add: multisig_chunks_def nth_append)
  moreover have "\<not> length (multisig_chunks m keys n v) < 2"
    by (simp add: multisig_chunks_def)
  ultimately show ?thesis
    using multisig_opsD [OF assms(2)]
    by (simp add: multisig_addresses_def assms(1) map_filter_Inr Let_def multisig_keys_pushes
          split: option.split)
qed

text \<open>
  On a script \<open>is_multisig\<close> accepts, \<open>multisig_addresses\<close> never reaches its \<open>unreachable!()\<close>,
  its assertion or an index out of range. It returns the address of every key, in order, or no
  address at all when one key does not parse.
\<close>

theorem multisig_addresses_all_or_none:
  assumes "instructions S script = map Inr (multisig_chunks m keys n v)" and "multisig_ops m keys n v"
  shows "multisig_addresses S script =
     Ok (case those (map (public_key_from_slice S) keys) of
           None \<Rightarrow> []
         | Some pks \<Rightarrow> map (\<lambda>pk. address_p2pkh S (pubkey_hash S pk) Bitcoin) pks)"
  using assms by (rule multisig_addresses_eq)

lemma multisig_addresses_ok: "is_multisig S script \<Longrightarrow> \<exists>as. multisig_addresses S script = Ok as"
  using multisig_addresses_eq [of S script] unfolding is_multisig_shape by blast

lemma those_map_length: "those (map f xs) = Some ys \<Longrightarrow> length ys = length xs"
  by (induction xs arbitrary: ys) (auto split: option.splits)

lemma multisig_addresses_le:
  assumes "is_multisig S script" and "multisig_addresses S script = Ok as"
  shows "length as \<le> 16"
proof -
  obtain m keys n v where inst: "instructions S script = map Inr (multisig_chunks m keys n v)" and ops: "multisig_ops m keys n v"
    using assms(1) unfolding is_multisig_shape by blast
  have "uint n \<le> 0x60" using ops by (simp add: multisig_ops_def word_le_def)
  with ops have "length keys \<le> 16" by (simp add: multisig_ops_def)
  moreover have "length as \<le> length keys"
    using assms(2) multisig_addresses_eq [OF inst ops] by (auto simp: those_map_length split: option.splits)
  ultimately show ?thesis by simp
qed

section \<open>Every script is classified\<close>

lemma p2pk_to_address_ok:
  assumes "p2pk_doc S" and "is_p2pk S script"
  shows "\<exists>a. p2pk_to_address S script = Ok a"
proof -
  obtain pk rest where "instructions S script = Inr (PushBytes pk) # rest"
    using assms by (auto simp: p2pk_doc_def)
  with assms(2) show ?thesis
    by (cases "pubkey_hash_from_slice S (hash160 S pk)") (auto simp: p2pk_to_address_def)
qed

lemma evaluate_script_ok:
  assumes "p2pk_doc S"
  shows "\<exists>info. evaluate_script S script net = Ok info"
  using p2pk_to_address_ok [OF assms, of script] multisig_addresses_ok [of S script]
  by (auto simp: evaluate_script_def Let_def)

lemma script_info_simps [simp]:
  "si_pattern (script_info_new a p) = p"
  "si_addresses (script_info_new a p) = (case a of None \<Rightarrow> [] | Some x \<Rightarrow> [x])"
  "si_pattern (script_info_from_vec as p) = p"
  "si_addresses (script_info_from_vec as p) = as"
  by (simp_all add: script_info_new_def script_info_from_vec_def split: option.split)

text \<open>
  \<open>evaluate_script\<close> returns for every script and network, and the pattern it reports is sound:
  \<open>Pay2PublicKey\<close> only for scripts the library calls P2PK, \<open>Pay2MultiSig\<close> only for bare
  multi-signature scripts that are none of the other kinds; apart from \<open>Pay2MultiSig\<close> there is at
  most one address.
\<close>

theorem evaluate_script_total:
  assumes "p2pk_doc S"
  shows "\<exists>info. evaluate_script S script net = Ok info
    \<and> (si_pattern info = Pay2PublicKey \<longleftrightarrow> is_p2pk S script)
    \<and> (si_pattern info = Pay2MultiSig \<longleftrightarrow>
         is_multisig S script \<and> \<not> is_p2pk S script \<and> \<not> is_p2pkh S script \<and> \<not> is_p2sh S script
         \<and> \<not> is_p2wpkh S script \<and> \<not> is_p2wsh S script \<and> \<not> is_witness_program S script
         \<and> \<not> is_op_return S script)
    \<and> (si_pattern info \<noteq> Pay2MultiSig \<longrightarrow> length (si_addresses info) \<le> 1)"
  using p2pk_to_address_ok [OF assms, of script] multisig_addresses_ok [of S script]
  by (auto simp: evaluate_script_def Let_def split: option.split)

text \<open>
  C39. The network argument does not reach P2PK and bare multi-signature scripts: their addresses
  are always built for \<open>Network::Bitcoin\<close>, whatever network the caller asks for.
\<close>

theorem evaluate_script_ignores_network:
  assumes "is_p2pk S script \<or>
    (is_multisig S script \<and> \<not> is_p2pkh S script \<and> \<not> is_p2sh S script \<and> \<not> is_p2wpkh S script
       \<and> \<not> is_p2wsh S script \<and> \<not> is_witness_program S script \<and> \<not> is_op_return S script)"
  shows "evaluate_script S script net = evaluate_script S script Bitcoin"
  using assms by (auto simp: evaluate_script_def Let_def)

section \<open>A concrete library for the witnesses\<close>

text \<open>
  An instance of \<open>script_lib\<close> with direct pushes only, in which a key is its own hash and address;
  it satisfies \<open>p2pk_doc\<close>.
\<close>

function sample_instructions :: "byte list \<Rightarrow> (string + instruction) list" where
  "sample_instructions [] = []"
| "sample_instructions (b # bs) =
     (if 75 < unat b then Inr (Op b) # sample_instructions bs
      else if length bs < unat b then [Inl ''EarlyEndOfScript'']
      else Inr (PushBytes (take (unat b) bs)) # sample_instructions (drop (unat b) bs))"
  by pat_completeness auto
termination
  by (relation "measure length") auto

definition sample_is_p2pk :: "byte list \<Rightarrow> bool" where
  "sample_is_p2pk script =
     (case sample_instructions script of [Inr (PushBytes pk), Inr (Op opc)] \<Rightarrow> opc = 0xac | _ \<Rightarrow> False)"

definition sample_script_lib :: "(byte list, byte list) script_lib" where
  "sample_script_lib =
     \<lparr>address_from_script = (\<lambda>_ _. None), is_p2pk = sample_is_p2pk, is_p2pkh = (\<lambda>_. False),
      is_p2sh = (\<lambda>_. False), is_p2wpkh = (\<lambda>_. False), is_p2wsh = (\<lambda>_. False),
      is_witness_program = (\<lambda>_. False), is_op_return = (\<lambda>s. take 1 s = [0x6a]),
      instructions = sample_instructions, public_key_from_slice = (\<lambda>k. if k = [] then None else Some k),
      pubkey_hash = (\<lambda>k. k), hash160 = (\<lambda>k. k), pubkey_hash_from_slice = Some,
      address_p2pkh = (\<lambda>h _. h)\<rparr>"

lemma sample_p2pk_doc: "p2pk_doc sample_script_lib"
  by (auto simp: p2pk_doc_def sample_script_lib_def sample_is_p2pk_def
      split: list.splits sum.splits instruction.splits)

lemma sample_multisig_instructions:
  "instructions sample_script_lib [0x52, 1, 7, 2, 8, 9, 0x52, 0xae] =
     map Inr (multisig_chunks 0x52 [[7], [8, 9]] 0x52 0xae)"
  "multisig_ops 0x52 [[7], [8, 9]] 0x52 0xae"
  by (simp_all add: sample_script_lib_def multisig_chunks_def multisig_ops_def)

theorem multisig_addresses_all_or_none_witness:
  "multisig_addresses sample_script_lib [0x52, 1, 7, 2, 8, 9, 0x52, 0xae] = Ok [[7], [8, 9]]"
  using multisig_addresses_all_or_none [OF sample_multisig_instructions]
  by (simp add: sample_script_lib_def)

theorem evaluate_script_total_witness:
  "\<exists>info. evaluate_script sample_script_lib [2, 5, 6, 0xac] Bitcoin = Ok info
     \<and> si_pattern info = Pay2PublicKey"
proof -
  have "is_p2pk sample_script_lib [2, 5, 6, 0xac]"
    by (simp add: sample_script_lib_def sample_is_p2pk_def)
  then show ?thesis
    using evaluate_script_total [OF sample_p2pk_doc, of "[2, 5, 6, 0xac]" Bitcoin] by auto
qed

theorem evaluate_script_ignores_network_witness:
  "evaluate_script sample_script_lib [2, 5, 6, 0xac] (OtherNetwork ''testnet'')
     = evaluate_script sample_script_lib [2, 5, 6, 0xac] Bitcoin"
  by (rule evaluate_script_ignores_network) (simp add: sample_script_lib_def sample_is_p2pk_def)

end
