(* ===== verification/Block_Types.thy ===== *)
theory Block_Types
  imports Script
begin

text \<open>
  \<open>parser/block_types/full_block.rs\<close> and \<open>compact_block.rs\<close>: the two formats in which blocks,
  transactions and outputs are handed out, and their \<open>From\<close> conversions from the types of the
  \<open>bitcoin\<close> crate. Converting an output evaluates its script, so each conversion is an outcome.
  The lemmas relate the two formats: the compact one is the full one with fields left out.
\<close>

section \<open>compact_block.rs\<close>

record compact_txin =
  cti_txid :: hash256
  cti_vout :: u32

record 'addr compact_txout =
  cto_value :: u64
  cto_addresses :: "'addr list"

record 'addr compact_transaction =
  ct_txid :: hash256
  ct_input :: "compact_txin list"
  ct_output :: "'addr compact_txout list"

record compact_block_header =
  cbh_block_hash :: hash256
  cbh_time :: u32

record 'addr compact_block =
  cb_header :: compact_block_header
  cb_txdata :: "'addr compact_transaction list"

definition compact_block_header_new :: "header \<Rightarrow> hash256 \<Rightarrow> compact_block_header" where
  "compact_block_header_new blk hash = \<lparr>cbh_block_hash = hash, cbh_time = hdr_time blk\<rparr>"

definition compact_txin_from :: "txin \<Rightarrow> compact_txin" where
  "compact_txin_from tx_in =
     \<lparr>cti_txid = op_txid (previous_output tx_in), cti_vout = op_vout (previous_output tx_in)\<rparr>"

definition compact_txout_from :: "('pk, 'addr) script_lib \<Rightarrow> txout \<Rightarrow> 'addr compact_txout result" where
  "compact_txout_from S out =
     bind_result (evaluate_script S (script_pubkey out) Bitcoin)
       (\<lambda>info. Ok \<lparr>cto_value = txo_value out, cto_addresses = si_addresses info\<rparr>)"

definition compact_transaction_from ::
  "bitcoin_lib \<Rightarrow> ('pk, 'addr) script_lib \<Rightarrow> transaction \<Rightarrow> 'addr compact_transaction result" where
  "compact_transaction_from L S tx =
     (let coinbase = is_coinbase L tx;
          txid = compute_txid L tx;
          input = (if coinbase then [] else map compact_txin_from (tx_input tx))
      in bind_result (mapM_result (compact_txout_from S) (tx_output tx))
           (\<lambda>output. Ok \<lparr>ct_txid = txid, ct_input = input, ct_output = output\<rparr>))"

definition compact_block_from ::
  "bitcoin_lib \<Rightarrow> ('pk, 'addr) script_lib \<Rightarrow> block \<Rightarrow> 'addr compact_block result" where
  "compact_block_from L S blk =
     (let hash = block_hash L (blk_header blk)
      in bind_result (mapM_result (compact_transaction_from L S) (txdata blk))
           (\<lambda>txs. Ok \<lparr>cb_header = compact_block_header_new (blk_header blk) hash, cb_txdata = txs\<rparr>))"

section \<open>full_block.rs\<close>

record 'addr full_txout =
  fto_value :: u64
  fto_script_pubkey :: "byte list"
  fto_script_type :: script_type
  fto_addresses :: "'addr list"

record 'addr full_transaction =
  ft_version :: i32
  ft_lock_time :: u32
  ft_input :: "txin list"
  ft_txid :: hash256
  ft_output :: "'addr full_txout list"

record full_block_header =
  fbh_version :: i32
  fbh_prev_blockhash :: hash256
  fbh_merkle_root :: hash256
  fbh_time :: u32
  fbh_bits :: u32
  fbh_nonce :: u32
  fbh_block_hash :: hash256

record 'addr full_block =
  fb_header :: full_block_header
  fb_txdata :: "'addr full_transaction list"

definition full_block_header_parse :: "header \<Rightarrow> hash256 \<Rightarrow> full_block_header" where
  "full_block_header_parse b hash =
     \<lparr>fbh_version = hdr_version b, fbh_prev_blockhash = prev_blockhash b,
      fbh_merkle_root = merkle_root b, fbh_time = hdr_time b, fbh_bits = hdr_bits b,
      fbh_nonce = hdr_nonce b, fbh_block_hash = hash\<rparr>"

definition full_txout_from :: "('pk, 'addr) script_lib \<Rightarrow> txout \<Rightarrow> 'addr full_txout result" where
  "full_txout_from S out =
     bind_result (evaluate_script S (script_pubkey out) Bitcoin)
       (\<lambda>info. Ok \<lparr>fto_value = txo_value out, fto_script_pubkey = script_pubkey out,
                   fto_script_type = si_pattern info, fto_addresses = si_addresses info\<rparr>)"

definition full_transaction_from ::
  "bitcoin_lib \<Rightarrow> ('pk, 'addr) script_lib \<Rightarrow> transaction \<Rightarrow> 'addr full_transaction result" where
  "full_transaction_from L S tx =
     (let coinbase = is_coinbase L tx;
          txid = compute_txid L tx;
          input = (if coinbase then [] else tx_input tx)
      in bind_result (mapM_result (full_txout_from S) (tx_output tx))
           (\<lambda>output. Ok \<lparr>ft_version = tx_version tx, ft_lock_time = tx_lock_time tx, ft_input = input,
                         ft_txid = txid, ft_output = output\<rparr>))"

definition full_block_from ::
  "bitcoin_lib \<Rightarrow> ('pk, 'addr) script_lib \<Rightarrow> block \<Rightarrow> 'addr full_block result" where
  "full_block_from L S blk =
     (let hash = block_hash L (blk_header blk)
      in bind_result (mapM_result (full_transaction_from L S) (txdata blk))
           (\<lambda>txs. Ok \<lparr>fb_header = full_block_header_parse (blk_header blk) hash, fb_txdata = txs\<rparr>))"

section \<open>The compact format forgets\<close>

definition forget_txout :: "'addr full_txout \<Rightarrow> 'addr compact_txout" where
  "forget_txout t = \<lparr>cto_value = fto_value t, cto_addresses = fto_addresses t\<rparr>"

definition forget_transaction :: "'addr full_transaction \<Rightarrow> 'addr compact_transaction" where
  "forget_transaction t =
     \<lparr>ct_txid = ft_txid t, ct_input = map compact_txin_from (ft_input t), ct_output = map forget_txout (ft_output t)\<rparr>"

definition forget_header :: "full_block_header \<Rightarrow> compact_block_header" where
  "forget_header h = \<lparr>cbh_block_hash = fbh_block_hash h, cbh_time = fbh_time h\<rparr>"

definition forget_block :: "'addr full_block \<Rightarrow> 'addr compact_block" where
  "forget_block b = \<lparr>cb_header = forget_header (fb_header b), cb_txdata = map forget_transaction (fb_txdata b)\<rparr>"

lemma mapM_result_map_result: "mapM_result (\<lambda>x. result_map g (f x)) xs = result_map (map g) (mapM_result f xs)"
  by (induction xs) (auto simp: bind_result_map result_map_bind)

lemma compact_txout_from_forget: "compact_txout_from S = (\<lambda>out. result_map forget_txout (full_txout_from S out))"
  by (simp add: fun_eq_iff compact_txout_from_def full_txout_from_def result_map_bind forget_txout_def)

lemma compact_transaction_from_forget:
  "compact_transaction_from L S = (\<lambda>tx. result_map forget_transaction (full_transaction_from L S tx))"
  by (auto simp: fun_eq_iff compact_transaction_from_def full_transaction_from_def Let_def
      compact_txout_from_forget mapM_result_map_result bind_result_map result_map_bind forget_transaction_def)

text \<open>
  The compact format of a block is the full format with fields left out, transaction by
  transaction and output by output: same hash, times, txids, spent outpoints, values and addresses,
  in the same order; and one conversion fails exactly when the other does.
\<close>

theorem compact_block_forgets_full:
  "compact_block_from L S blk = result_map forget_block (full_block_from L S blk)"
  by (simp add: compact_block_from_def full_block_from_def Let_def compact_transaction_from_forget
      mapM_result_map_result bind_result_map result_map_bind forget_block_def forget_header_def
      compact_block_header_new_def full_block_header_parse_def)

section \<open>Conversions always succeed\<close>

primrec result_value :: "'a result \<Rightarrow> 'a" where
  "result_value (Ok a) = a"

definition full_txout_of :: "('pk, 'addr) script_lib \<Rightarrow> txout \<Rightarrow> 'addr full_txout" where
  "full_txout_of S out =
     (let info = result_value (evaluate_script S (script_pubkey out) Bitcoin)
      in \<lparr>fto_value = txo_value out, fto_script_pubkey = script_pubkey out,
          fto_script_type = si_pattern info, fto_addresses = si_addresses info\<rparr>)"

definition compact_txout_of :: "('pk, 'addr) script_lib \<Rightarrow> txout \<Rightarrow> 'addr compact_txout" where
  "compact_txout_of S out = forget_txout (full_txout_of S out)"

lemma full_txout_from_ok: "p2pk_doc S \<Longrightarrow> full_txout_from S out = Ok (full_txout_of S out)"
  using evaluate_script_ok [of S "script_pubkey out" Bitcoin]
  by (auto simp: full_txout_from_def full_txout_of_def)

text \<open>
  A well-typed output in the full format: its type and its addresses fit its script. A bare
  multi-signature output has up to 16 addresses, every other output at most one.
\<close>

definition txout_typed :: "('pk, 'addr) script_lib \<Rightarrow> 'addr full_txout \<Rightarrow> bool" where
  "txout_typed S out \<longleftrightarrow>
     length (fto_addresses out) \<le> (if fto_script_type out = Pay2MultiSig then 16 else 1)
     \<and> (fto_script_type out = Pay2PublicKey \<longleftrightarrow> is_p2pk S (fto_script_pubkey out))
     \<and> (fto_script_type out = Pay2MultiSig \<longrightarrow> is_multisig S (fto_script_pubkey out))"

lemma full_txout_of_typed:
  assumes "p2pk_doc S"
  shows "txout_typed S (full_txout_of S out)"
proof -
  let ?s = "script_pubkey out"
  obtain a where "is_p2pk S ?s \<longrightarrow> p2pk_to_address S ?s = Ok a" using p2pk_to_address_ok [OF assms, of ?s] by blast
  moreover obtain as where "is_multisig S ?s \<longrightarrow> multisig_addresses S ?s = Ok as \<and> length as \<le> 16"
    using multisig_addresses_ok [of S ?s] multisig_addresses_le [of S ?s] by blast
  ultimately show ?thesis
    by (auto simp: txout_typed_def full_txout_of_def evaluate_script_def Let_def split: option.split)
qed

lemma compact_txout_from_ok: "p2pk_doc S \<Longrightarrow> compact_txout_from S out = Ok (compact_txout_of S out)"
  by (simp add: compact_txout_from_forget full_txout_from_ok compact_txout_of_def)

lemma full_txouts_ok: "p2pk_doc S \<Longrightarrow> mapM_result (full_txout_from S) outs = Ok (map (full_txout_of S) outs)"
  by (rule mapM_result_Ok) (rule full_txout_from_ok)

lemma compact_txouts_ok:
  "p2pk_doc S \<Longrightarrow> mapM_result (compact_txout_from S) outs = Ok (map (compact_txout_of S) outs)"
  by (rule mapM_result_Ok) (rule compact_txout_from_ok)

text \<open>
  Converting a block to the full format always succeeds, keeps every transaction and output in
  order with its value and script, and empties exactly the inputs of coinbase transactions.
\<close>

theorem full_block_from_complete:
  assumes "p2pk_doc S"
  shows "\<exists>fb. full_block_from L S blk = Ok fb
    \<and> fbh_block_hash (fb_header fb) = block_hash L (blk_header blk)
    \<and> map ft_txid (fb_txdata fb) = map (compute_txid L) (txdata blk)
    \<and> map ft_input (fb_txdata fb) = map (\<lambda>tx. if is_coinbase L tx then [] else tx_input tx) (txdata blk)
    \<and> map (map fto_value \<circ> ft_output) (fb_txdata fb) = map (map txo_value \<circ> tx_output) (txdata blk)
    \<and> map (map fto_script_pubkey \<circ> ft_output) (fb_txdata fb)
        = map (map script_pubkey \<circ> tx_output) (txdata blk)"
proof -
  let ?of = "\<lambda>tx. \<lparr>ft_version = tx_version tx, ft_lock_time = tx_lock_time tx,
      ft_input = (if is_coinbase L tx then [] else tx_input tx), ft_txid = compute_txid L tx,
      ft_output = map (full_txout_of S) (tx_output tx)\<rparr>"
  have "mapM_result (full_transaction_from L S) (txdata blk) = Ok (map ?of (txdata blk))"
    by (rule mapM_result_Ok) (simp add: full_transaction_from_def Let_def full_txouts_ok [OF assms])
  then show ?thesis
    by (auto simp: full_block_from_def Let_def full_block_header_parse_def full_txout_of_def comp_def)
qed

theorem full_block_from_complete_witness:
  "\<exists>fb. full_block_from sample_lib sample_script_lib \<lparr>blk_header = sample_header 7 6, txdata = [sample_tx 5 []]\<rparr> = Ok fb
     \<and> map (map fto_value \<circ> ft_output) (fb_txdata fb) = [[5]]"
  using full_block_from_complete [OF sample_p2pk_doc, of sample_lib
      "\<lparr>blk_header = sample_header 7 6, txdata = [sample_tx 5 []]\<rparr>"] by auto

end
