(* ===== verification/Xor.thy ===== *)
theory Xor
  imports Reader
begin

text \<open>
  \<open>parser/xor.rs\<close>: \<open>XorReader\<close>, the reader that removes Bitcoin Core's XOR obfuscation while it
  reads. The mask is applied at the absolute position of each byte, which the reader counts itself
  and re-reads from the inner reader after a seek. The inner reader of the crate is
  \<open>std::fs::File\<close>, modelled here as contents and position, with reads as short as an arbitrary
  oracle makes them. Through the locale \<open>raw_reader\<close> every method of \<open>BlockchainRead\<close> is then known
  on \<open>XorReader<File>\<close>: it reads the unmasked file.
\<close>

section \<open>XorReader\<close>

definition XOR_MASK_LEN :: nat where
  "XOR_MASK_LEN = 8"

record 'r xor_reader =
  xr_inner :: 'r
  xr_pos :: u64
  xr_mask :: "byte list option"
  xr_buffer :: "byte list"

definition xor_new :: "'r \<Rightarrow> byte list option \<Rightarrow> 'r xor_reader" where
  "xor_new reader xor_mask = \<lparr>xr_inner = reader, xr_pos = 0, xr_mask = xor_mask, xr_buffer = []\<rparr>"

text \<open>The loop \<open>*x ^= mask[(self.pos % mask.len()) as usize]; self.pos += 1\<close>, and the position after it.\<close>

fun xor_loop :: "byte list \<Rightarrow> u64 \<Rightarrow> byte list \<Rightarrow> byte list \<times> u64" where
  "xor_loop msk p [] = ([], p)"
| "xor_loop msk p (x # xs) =
     (let y = x XOR msk ! unat (p mod word_of_nat (length msk));
          (ys, q) = xor_loop msk (p + 1) xs
      in (y # ys, q))"

text \<open>\<open>std::io::Read::read\<close>: the position is only kept while there is a mask.\<close>

definition xor_read :: "'r read_fn \<Rightarrow> 'r xor_reader read_fn" where
  "xor_read rd n x =
     (case rd n (xr_inner x) of
        Inl e \<Rightarrow> Inl e
      | Inr (buf, r) \<Rightarrow>
          (case xr_mask x of
             None \<Rightarrow> Inr (buf, x\<lparr>xr_inner := r\<rparr>)
           | Some msk \<Rightarrow>
               (let (buf', p) = xor_loop msk (xr_pos x) buf
                in Inr (buf', x\<lparr>xr_inner := r, xr_pos := p\<rparr>))))"

text \<open>\<open>BufRead::fill_buf\<close> and \<open>consume\<close>; \<open>drain(..amt)\<close> panics beyond the buffer.\<close>

definition xor_fill_buf :: "'r read_fn \<Rightarrow> 'r xor_reader \<Rightarrow> io_error + (byte list \<times> 'r xor_reader)" where
  "xor_fill_buf rd x =
     (if xr_buffer x = [] then
        case rd 4096 (xr_inner x) of
          Inl e \<Rightarrow> Inl e
        | Inr (temp_buf, r) \<Rightarrow>
            if temp_buf = [] then Inr ([], x\<lparr>xr_inner := r\<rparr>)
            else (case xr_mask x of
                    None \<Rightarrow> Inr (temp_buf, x\<lparr>xr_inner := r, xr_buffer := temp_buf\<rparr>)
                  | Some msk \<Rightarrow>
                      (let (buf, p) = xor_loop msk (xr_pos x) temp_buf
                       in Inr (buf, x\<lparr>xr_inner := r, xr_pos := p, xr_buffer := buf\<rparr>)))
      else Inr (xr_buffer x, x))"

definition xor_consume :: "nat \<Rightarrow> 'r xor_reader \<Rightarrow> 'r xor_reader result" where
  "xor_consume amt x =
     (if amt \<le> length (xr_buffer x) then Ok (x\<lparr>xr_buffer := drop amt (xr_buffer x)\<rparr>) else Panic)"

text \<open>The implementations of \<open>bitcoin::io::Read\<close> and \<open>BufRead\<close> forward to these; its error type is one of \<open>std\<close>.\<close>

definition xor_bitcoin_read :: "'r read_fn \<Rightarrow> 'r xor_reader read_fn" where
  "xor_bitcoin_read rd n x = xor_read rd n x"

definition xor_bitcoin_fill_buf :: "'r read_fn \<Rightarrow> 'r xor_reader \<Rightarrow> io_error + (byte list \<times> 'r xor_reader)" where
  "xor_bitcoin_fill_buf rd x = xor_fill_buf rd x"

definition xor_bitcoin_consume :: "nat \<Rightarrow> 'r xor_reader \<Rightarrow> 'r xor_reader result" where
  "xor_bitcoin_consume amount x = xor_consume amount x"

text \<open>
  \<open>Seek::seek\<close>, over the inner \<open>seek\<close> and \<open>stream_position\<close>: the position is taken from the inner
  reader even when its seek failed, and the buffer is left alone.
\<close>

definition xor_seek ::
  "('p \<Rightarrow> 'r \<Rightarrow> (io_error + u64) \<times> 'r) \<Rightarrow> ('r \<Rightarrow> io_error + u64)
     \<Rightarrow> 'p \<Rightarrow> 'r xor_reader \<Rightarrow> (io_error + u64) \<times> 'r xor_reader" where
  "xor_seek seek stream_position pos x =
     (let (res, r) = seek pos (xr_inner x)
      in case stream_position r of
           Inl e \<Rightarrow> (Inl e, x\<lparr>xr_inner := r\<rparr>)
         | Inr p \<Rightarrow> (res, x\<lparr>xr_inner := r, xr_pos := p\<rparr>))"

section \<open>Files\<close>

text \<open>
  \<open>std::fs::File\<close>: contents and position. A read delivers at least one byte unless the buffer is
  empty or the position is at or past the end; how many beyond that, the oracle \<open>chunk\<close> decides.
  A seek to \<open>2 ^ 63\<close> or beyond is refused by the operating system.
\<close>

record os_file =
  fl_data :: "byte list"
  fl_pos :: nat

definition file_open :: "byte list \<Rightarrow> os_file" where
  "file_open bs = \<lparr>fl_data = bs, fl_pos = 0\<rparr>"

definition file_rest :: "os_file \<Rightarrow> byte list" where
  "file_rest f = drop (fl_pos f) (fl_data f)"

definition file_read :: "(nat \<Rightarrow> nat \<Rightarrow> nat) \<Rightarrow> os_file read_fn" where
  "file_read chunk n f =
     (let m = min n (length (file_rest f));
          k = (if m = 0 then 0 else max 1 (min m (chunk (fl_pos f) n)))
      in Inr (take k (file_rest f), f\<lparr>fl_pos := fl_pos f + k\<rparr>))"

definition file_seek :: "u64 \<Rightarrow> os_file \<Rightarrow> (io_error + u64) \<times> os_file" where
  "file_seek p f = (if unat p < 2 ^ 63 then (Inr p, f\<lparr>fl_pos := unat p\<rparr>) else (Inl InvalidInput, f))"

definition file_position :: "os_file \<Rightarrow> io_error + u64" where
  "file_position f = Inr (word_of_nat (fl_pos f))"

section \<open>What is read: the unmasked file\<close>

text \<open>
  \<open>xor_from mask p bs\<close> is \<open>bs\<close> with the mask applied as if \<open>bs\<close> began at position \<open>p\<close>;
  \<open>unmask\<close> is the whole file without its obfuscation.
\<close>

fun xor_from :: "byte list \<Rightarrow> nat \<Rightarrow> byte list \<Rightarrow> byte list" where
  "xor_from msk p [] = []"
| "xor_from msk p (x # xs) = (x XOR msk ! (p mod XOR_MASK_LEN)) # xor_from msk (Suc p) xs"

definition unmask :: "byte list option \<Rightarrow> byte list \<Rightarrow> byte list" where
  "unmask mo bs = (case mo of None \<Rightarrow> bs | Some msk \<Rightarrow> xor_from msk 0 bs)"

definition mask_ok :: "byte list option \<Rightarrow> bool" where
  "mask_ok mo = (case mo of None \<Rightarrow> True | Some msk \<Rightarrow> length msk = XOR_MASK_LEN)"

lemma length_xor_from [simp]: "length (xor_from msk p bs) = length bs"
  by (induction bs arbitrary: p) auto

lemma length_unmask [simp]: "length (unmask mo bs) = length bs"
  by (simp add: unmask_def split: option.split)

lemma xor_from_append: "xor_from msk p (xs @ ys) = xor_from msk p xs @ xor_from msk (p + length xs) ys"
  by (induction xs arbitrary: p) auto

lemma take_xor_from: "take k (xor_from msk p bs) = xor_from msk p (take k bs)"
  by (induction bs arbitrary: p k) (auto simp: take_Cons' split: nat.split)

lemma drop_xor_from: "drop k (xor_from msk p bs) = xor_from msk (p + k) (drop k bs)"
  by (induction bs arbitrary: p k) (auto simp: drop_Cons' split: nat.split)

lemma nth_xor_from:
  "i < length bs \<Longrightarrow> xor_from msk p bs ! i = bs ! i XOR msk ! ((p + i) mod XOR_MASK_LEN)"
  by (induction bs arbitrary: p i) (auto simp: nth_Cons' less_Suc_eq_0_disj)

lemma xor_from_twice [simp]: "xor_from msk p (xor_from msk p bs) = bs"
  by (induction bs arbitrary: p) (auto simp: xor.assoc)

lemma unmask_twice [simp]: "unmask mo (unmask mo bs) = bs"
  by (simp add: unmask_def split: option.split)

lemma pos_mod_mask: "unat ((word_of_nat p :: u64) mod 8) = p mod 8"
proof -
  have "p mod 2 ^ 64 mod 8 = p mod (8 :: nat)"
    by (rule mod_mod_cancel) simp
  then show ?thesis by (simp add: unat_mod_distrib unat_of_nat)
qed

lemma xor_loop_eq:
  assumes "length msk = XOR_MASK_LEN"
  shows "xor_loop msk (word_of_nat p) bs = (xor_from msk p bs, word_of_nat (p + length bs))"
proof (induction bs arbitrary: p)
  case (Cons b bs)
  have "word_of_nat p + 1 = (word_of_nat (Suc p) :: u64)" by simp
  with Cons [of "Suc p"] assms show ?case
    by (simp add: Let_def pos_mod_mask XOR_MASK_LEN_def algebra_simps)
qed simp

section \<open>XorReader over a file\<close>

text \<open>
  The invariant: a well-formed mask, and a counter in step with the file while there is a mask.
  \<open>xor_rest\<close> is what \<open>read\<close> will deliver, \<open>xor_buffered_rest\<close> what the \<open>BufRead\<close> methods will.
\<close>

definition xor_good :: "os_file xor_reader \<Rightarrow> bool" where
  "xor_good x \<longleftrightarrow> mask_ok (xr_mask x)
     \<and> (xr_mask x \<noteq> None \<longrightarrow> xr_pos x = word_of_nat (fl_pos (xr_inner x)))"

definition xor_rest :: "os_file xor_reader \<Rightarrow> byte list" where
  "xor_rest x = drop (fl_pos (xr_inner x)) (unmask (xr_mask x) (fl_data (xr_inner x)))"

definition xor_buffered_rest :: "os_file xor_reader \<Rightarrow> byte list" where
  "xor_buffered_rest x = xr_buffer x @ xor_rest x"

lemma file_read_part:
  "\<exists>k. file_read chunk n f = Inr (take k (file_rest f), f\<lparr>fl_pos := fl_pos f + k\<rparr>)
     \<and> k \<le> n \<and> k \<le> length (file_rest f) \<and> (0 < n \<longrightarrow> file_rest f \<noteq> [] \<longrightarrow> 0 < k)"
proof -
  define m where "m = min n (length (file_rest f))"
  define k where "k = (if m = 0 then 0 else max 1 (min m (chunk (fl_pos f) n)))"
  have "k \<le> m" by (simp add: k_def)
  moreover have "0 < m \<longrightarrow> 0 < k" by (simp add: k_def less_max_iff_disj)
  moreover have "file_read chunk n f = Inr (take k (file_rest f), f\<lparr>fl_pos := fl_pos f + k\<rparr>)"
    unfolding file_read_def Let_def k_def m_def by (rule refl)
  moreover have "k \<le> n" "k \<le> length (file_rest f)" "0 < n \<longrightarrow> file_rest f \<noteq> [] \<longrightarrow> 0 < m"
    using \<open>k \<le> m\<close> by (auto simp: m_def min_def split: if_splits)
  ultimately show ?thesis by blast
qed

interpretation fl: raw_reader "file_read chunk" file_rest "\<lambda>_. True"
  for chunk :: "nat \<Rightarrow> nat \<Rightarrow> nat"
proof (unfold_locales, goal_cases)
  case (1 f n)
  have "file_rest (f\<lparr>fl_pos := fl_pos f + k\<rparr>) = drop k (file_rest f)" for k
    by (simp add: file_rest_def add.commute)
  with file_read_part [of chunk n f] show ?case by metis
qed

lemma xor_loop_file:
  assumes "xor_good x" and "xr_mask x = Some msk" and "k \<le> length (file_rest (xr_inner x))"
  shows "xor_loop msk (xr_pos x) (take k (file_rest (xr_inner x)))
     = (take k (xor_rest x), word_of_nat (fl_pos (xr_inner x) + k))"
proof -
  have "length msk = XOR_MASK_LEN" and "xr_pos x = word_of_nat (fl_pos (xr_inner x))"
    using assms(1,2) by (auto simp: xor_good_def mask_ok_def)
  with assms(2,3) show ?thesis
    by (simp add: xor_loop_eq file_rest_def xor_rest_def unmask_def take_xor_from drop_xor_from min_def)
qed

lemma length_xor_rest [simp]: "length (xor_rest x) = length (file_rest (xr_inner x))"
  by (simp add: xor_rest_def file_rest_def)

lemma xor_rest_Nil_iff: "xor_rest x = [] \<longleftrightarrow> file_rest (xr_inner x) = []"
  by (metis length_0_conv length_xor_rest)

text \<open>The reader after \<open>k\<close> more bytes of the file went through it.\<close>

definition xor_advance :: "nat \<Rightarrow> os_file xor_reader \<Rightarrow> os_file xor_reader" where
  "xor_advance k x =
     (let f = xr_inner x
      in x\<lparr>xr_inner := f\<lparr>fl_pos := fl_pos f + k\<rparr>,
           xr_pos := (if xr_mask x = None then xr_pos x else word_of_nat (fl_pos f + k))\<rparr>)"

lemma xor_rest_advance [simp]: "xor_rest (xor_advance k x) = drop k (xor_rest x)"
  by (simp add: xor_advance_def xor_rest_def Let_def add.commute)

lemma xor_good_advance [simp]: "xor_good x \<Longrightarrow> xor_good (xor_advance k x)"
  by (simp add: xor_advance_def xor_good_def Let_def)

lemma xr_buffer_advance [simp]: "xr_buffer (xor_advance k x) = xr_buffer x"
  by (simp add: xor_advance_def Let_def)

lemma xor_read_advance:
  assumes "xor_good x"
  shows "\<exists>k. xor_read (file_read chunk) n x = Inr (take k (xor_rest x), xor_advance k x)
      \<and> k \<le> n \<and> k \<le> length (xor_rest x) \<and> (0 < n \<longrightarrow> xor_rest x \<noteq> [] \<longrightarrow> 0 < k)"
proof -
  obtain k where rd: "file_read chunk n (xr_inner x) =
        Inr (take k (file_rest (xr_inner x)), (xr_inner x)\<lparr>fl_pos := fl_pos (xr_inner x) + k\<rparr>)"
    and k: "k \<le> n" "k \<le> length (file_rest (xr_inner x))"
      "0 < n \<longrightarrow> file_rest (xr_inner x) \<noteq> [] \<longrightarrow> 0 < k"
    using file_read_part by blast
  have "xor_read (file_read chunk) n x = Inr (take k (xor_rest x), xor_advance k x)"
  proof (cases "xr_mask x")
    case None
    with rd show ?thesis
      by (simp add: xor_read_def xor_advance_def xor_rest_def file_rest_def unmask_def Let_def)
  next
    case (Some msk)
    with rd show ?thesis
      by (simp add: xor_read_def xor_advance_def xor_loop_file [OF assms Some k(2)] Let_def)
  qed
  with k show ?thesis by (auto simp: xor_rest_Nil_iff)
qed

lemma xor_read_part:
  assumes "xor_good x"
  shows "\<exists>k x'. xor_read (file_read chunk) n x = Inr (take k (xor_rest x), x') \<and> k \<le> n
      \<and> k \<le> length (xor_rest x) \<and> (0 < n \<longrightarrow> xor_rest x \<noteq> [] \<longrightarrow> 0 < k)
      \<and> xor_rest x' = drop k (xor_rest x) \<and> xor_good x'"
  using xor_read_advance [OF assms, of chunk n] xor_good_advance [OF assms] xor_rest_advance [of _ x]
  by blast

interpretation xr: raw_reader "xor_read (file_read chunk)" xor_rest xor_good
  for chunk :: "nat \<Rightarrow> nat \<Rightarrow> nat"
  by unfold_locales (rule xor_read_part)


section \<open>Seeking and reading\<close>

lemma xor_seek_file:
  assumes "mask_ok (xr_mask x)" and "unat p < 2 ^ 63"
  shows "\<exists>x'. xor_seek file_seek file_position p x = (Inr p, x')
    \<and> xor_good x' \<and> xor_rest x' = drop (unat p) (unmask (xr_mask x) (fl_data (xr_inner x)))
    \<and> xr_buffer x' = xr_buffer x"
  using assms by (auto simp: xor_seek_def file_seek_def file_position_def xor_good_def xor_rest_def)

lemma xor_seek_refused:
  assumes "\<not> unat p < 2 ^ 63"
  shows "fst (xor_seek file_seek file_position p x) = Inl InvalidInput"
  using assms by (simp add: xor_seek_def file_seek_def file_position_def)

lemma xor_new_simps [simp]:
  "xr_mask (xor_new r m) = m" "xr_inner (xor_new r m) = r" "xr_buffer (xor_new r m) = []"
  by (simp_all add: xor_new_def)

lemma file_open_simps [simp]: "fl_data (file_open bs) = bs" "fl_pos (file_open bs) = 0"
  by (simp_all add: file_open_def)

text \<open>
  C23. \<open>XorReader\<close> is transparent. Whatever the mask (or none), whatever the position seeked to and
  however short the file's reads are, \<open>read_vec_u8\<close> returns exactly the bytes of the unmasked file
  from that position, and fails with \<open>UnexpectedEof\<close> when the file is too short; it never stops
  early, panics or loops.
\<close>

theorem xor_seek_read_transparent:
  assumes "mask_ok m" and "unat p < 2 ^ 63"
    and "xor_seek file_seek file_position p (xor_new (file_open bs) m) = (res, x)"
  shows "res = Inr p \<and>
    (if unat n \<le> length bs - unat p
     then \<exists>x'. read_vec_u8 (read_exact (xor_read (file_read chunk))) n x
              = Ok (take (unat n) (drop (unat p) (unmask m bs)), x')
     else read_vec_u8 (read_exact (xor_read (file_read chunk))) n x = Err (BitcoinIo UnexpectedEof))"
proof -
  have "mask_ok (xr_mask (xor_new (file_open bs) m))"
    using assms(1) by simp
  from xor_seek_file [OF this assms(2)] assms(3) have res: "res = Inr p"
    and good: "xor_good x" and rest: "xor_rest x = drop (unat p) (unmask m bs)"
    by auto
  have len: "length (xor_rest x) = length bs - unat p"
    by (simp add: rest del: length_xor_rest)
  show ?thesis
    using xr.exactly.read_vec_u8_ok [OF good, of n chunk] xr.exactly.read_vec_u8_short [OF good, of n chunk]
    unfolding len res by (auto simp: rest)
qed

theorem xor_seek_read_transparent_witness:
  "\<exists>x. xor_seek file_seek file_position 2 (xor_new (file_open [10, 20, 30, 40, 50]) (Some [1, 2, 3, 4, 5, 6, 7, 8]))
        = (Inr 2, x)
     \<and> (\<exists>x'. read_vec_u8 (read_exact (xor_read (file_read (\<lambda>_ _. 1)))) 2 x = Ok ([29, 44], x'))"
proof -
  let ?x = "xor_new (file_open [10, 20, 30, 40, 50]) (Some [1, 2, 3, 4, 5, 6, 7, 8])"
  obtain res x where sk: "xor_seek file_seek file_position 2 ?x = (res, x)" by (metis surj_pair)
  have "mask_ok (Some [1, 2, 3, 4, 5, 6, 7, 8])" and "unat (2 :: u64) < 2 ^ 63"
    by (simp_all add: mask_ok_def XOR_MASK_LEN_def)
  from xor_seek_read_transparent [OF this sk, of 2 "\<lambda>_ _. 1"] sk show ?thesis
    by (simp add: unmask_def XOR_MASK_LEN_def)
qed

section \<open>The BufRead side\<close>

lemma xor_buffered_rest_advance:
  "xor_buffered_rest ((xor_advance k x)\<lparr>xr_buffer := bs\<rparr>) = bs @ drop k (xor_rest x)"
  by (simp add: xor_buffered_rest_def xor_advance_def xor_rest_def Let_def add.commute)

lemma xor_good_buffer [simp]: "xor_good (x\<lparr>xr_buffer := bs\<rparr>) = xor_good x"
  by (simp add: xor_good_def)

lemma xor_fill_buf_empty:
  assumes "xor_good x" and "xr_buffer x = []"
  shows "\<exists>k. xor_fill_buf (file_read chunk) x
           = Inr (take k (xor_rest x), (xor_advance k x)\<lparr>xr_buffer := take k (xor_rest x)\<rparr>)
      \<and> k \<le> length (xor_rest x) \<and> (xor_rest x \<noteq> [] \<longrightarrow> 0 < k)"
proof -
  obtain k where rd: "file_read chunk 4096 (xr_inner x) =
        Inr (take k (file_rest (xr_inner x)), (xr_inner x)\<lparr>fl_pos := fl_pos (xr_inner x) + k\<rparr>)"
    and k: "k \<le> length (file_rest (xr_inner x))" "file_rest (xr_inner x) \<noteq> [] \<longrightarrow> 0 < k"
    using file_read_part [of chunk 4096 "xr_inner x"] by auto
  have "xor_fill_buf (file_read chunk) x
      = Inr (take k (xor_rest x), (xor_advance k x)\<lparr>xr_buffer := take k (xor_rest x)\<rparr>)"
  proof (cases "xr_mask x")
    case None
    with rd assms(2) show ?thesis
      by (auto simp: xor_fill_buf_def xor_advance_def xor_rest_def file_rest_def unmask_def Let_def)
  next
    case (Some msk)
    show ?thesis
    proof (cases "k = 0")
      case True
      with rd assms Some show ?thesis
        by (simp add: xor_fill_buf_def xor_advance_def xor_good_def Let_def)
    next
      case False
      with k have "take k (file_rest (xr_inner x)) \<noteq> []" by auto
      with rd Some assms(2) show ?thesis
        by (simp add: xor_fill_buf_def xor_advance_def xor_loop_file [OF assms(1) Some k(1)] Let_def
              del: take_eq_Nil)
    qed
  qed
  with k show ?thesis by (auto simp: xor_rest_Nil_iff)
qed

text \<open>
  C37. The \<open>BufRead\<close> contract. \<open>fill_buf\<close> returns a part of the unmasked stream, empty only at its
  end, without losing a byte of it; \<open>consume\<close> then removes exactly the bytes it is told, and panics
  when told more than the buffer holds.
\<close>

theorem xor_buf_read_contract:
  assumes "xor_good x"
  shows "\<exists>buf x'. xor_fill_buf (file_read chunk) x = Inr (buf, x') \<and> xor_good x'
      \<and> xr_buffer x' = buf \<and> xor_buffered_rest x' = xor_buffered_rest x
      \<and> (buf = [] \<longleftrightarrow> xor_buffered_rest x = [])
      \<and> xor_consume amt x' = (if amt \<le> length buf then Ok (x'\<lparr>xr_buffer := drop amt buf\<rparr>) else Panic)
      \<and> (amt \<le> length buf \<longrightarrow>
           xor_buffered_rest (x'\<lparr>xr_buffer := drop amt buf\<rparr>) = drop amt (xor_buffered_rest x))"
proof (cases "xr_buffer x = []")
  case True
  obtain k where k: "xor_fill_buf (file_read chunk) x
        = Inr (take k (xor_rest x), (xor_advance k x)\<lparr>xr_buffer := take k (xor_rest x)\<rparr>)"
      "k \<le> length (xor_rest x)" "xor_rest x \<noteq> [] \<longrightarrow> 0 < k"
    using xor_fill_buf_empty [OF assms True] by blast
  have "drop amt (take k (xor_rest x)) @ drop k (xor_rest x) = drop amt (xor_rest x)" if "amt \<le> k"
    using that k(2) by (metis append_take_drop_id drop_append length_take min_absorb2 diff_is_0_eq drop_0)
  with k True assms show ?thesis
    by (auto simp: xor_consume_def xor_buffered_rest_advance xor_buffered_rest_def [of x] min_def
          xor_rest_Nil_iff)
next
  case False
  then show ?thesis
    using assms by (auto simp: xor_fill_buf_def xor_consume_def xor_buffered_rest_def xor_rest_def)
qed

theorem xor_buf_read_contract_witness:
  "\<exists>x'. xor_fill_buf (file_read (\<lambda>_ _. 2))
      \<lparr>xr_inner = \<lparr>fl_data = [1, 2, 3], fl_pos = 0\<rparr>, xr_pos = 0, xr_mask = None, xr_buffer = []\<rparr> = Inr (xr_buffer x', x')
    \<and> xor_buffered_rest x' = [1, 2, 3] \<and> xor_consume 9 x' \<noteq> Diverge"
proof -
  let ?x = "\<lparr>xr_inner = \<lparr>fl_data = [1, 2, 3], fl_pos = 0\<rparr>, xr_pos = 0, xr_mask = None, xr_buffer = []\<rparr>"
  have "xor_good ?x" and "xor_buffered_rest ?x = [1, 2, 3]"
    by (simp_all add: xor_good_def mask_ok_def xor_buffered_rest_def xor_rest_def unmask_def)
  then show ?thesis
    using xor_buf_read_contract [of ?x "\<lambda>_ _. 2" 9] by auto
qed

section \<open>Mixing the two interfaces\<close>

text \<open>
  C38. \<open>read\<close> ignores the buffer that \<open>fill_buf\<close> filled: after a \<open>fill_buf\<close> whose bytes were not
  consumed, a read delivers bytes from behind the buffer, so the buffered ones are skipped.
  The two interfaces of the reader must not be mixed without draining the buffer.
\<close>

theorem xor_read_skips_buffer:
  assumes "xor_good x" and "xr_buffer x \<noteq> []" and "xor_rest x \<noteq> []"
  shows "\<exists>k x'. xor_read (file_read chunk) n x = Inr (take k (drop (length (xr_buffer x)) (xor_buffered_rest x)), x')
      \<and> k \<le> n \<and> (0 < n \<longrightarrow> 0 < k) \<and> xr_buffer x' = xr_buffer x"
proof -
  have "drop (length (xr_buffer x)) (xor_buffered_rest x) = xor_rest x"
    by (simp add: xor_buffered_rest_def)
  with xor_read_advance [OF assms(1), of chunk n] assms(3) show ?thesis
    by (metis xr_buffer_advance)
qed

theorem xor_read_skips_buffer_witness:
  "\<exists>x'. xor_read (file_read (\<lambda>_ _. 1)) 1
      \<lparr>xr_inner = \<lparr>fl_data = [1, 2, 3], fl_pos = 1\<rparr>, xr_pos = 0, xr_mask = None, xr_buffer = [1]\<rparr>
    = Inr ([2], x')"
proof -
  let ?x = "\<lparr>xr_inner = \<lparr>fl_data = [1, 2, 3], fl_pos = 1\<rparr>, xr_pos = 0, xr_mask = None, xr_buffer = [1]\<rparr>"
  have "xor_good ?x" "xr_buffer ?x \<noteq> []" "xor_rest ?x \<noteq> []"
    by (simp_all add: xor_good_def mask_ok_def xor_rest_def unmask_def)
  from xor_read_skips_buffer [OF this, of "\<lambda>_ _. 1" 1] obtain k x' where
    "xor_read (file_read (\<lambda>_ _. 1)) 1 ?x = Inr (take k [2, 3], x')" "k \<le> 1" "0 < k"
    by (auto simp: xor_buffered_rest_def xor_rest_def unmask_def)
  moreover from this have "k = 1" by simp
  ultimately show ?thesis by auto
qed

text \<open>
  \<open>seek\<close> does not discard the buffer: after seeking, \<open>fill_buf\<close> still returns the bytes buffered
  before the seek, not those at the new position.
\<close>

theorem xor_seek_keeps_stale_buffer:
  assumes "xr_buffer x \<noteq> []"
  shows "\<exists>res x'. xor_seek file_seek file_position p x = (res, x')
    \<and> xor_fill_buf (file_read chunk) x' = Inr (xr_buffer x, x')"
  using assms by (auto simp: xor_seek_def file_seek_def file_position_def xor_fill_buf_def)

theorem xor_seek_keeps_stale_buffer_witness:
  "\<exists>res x'. xor_seek file_seek file_position 2
        \<lparr>xr_inner = \<lparr>fl_data = [1, 2, 3], fl_pos = 1\<rparr>, xr_pos = 0, xr_mask = None, xr_buffer = [1]\<rparr> = (res, x')
    \<and> xor_fill_buf (file_read (\<lambda>_ _. 1)) x' = Inr ([1], x')"
  using xor_seek_keeps_stale_buffer [of "\<lparr>xr_inner = \<lparr>fl_data = [1, 2, 3], fl_pos = 1\<rparr>, xr_pos = 0,
      xr_mask = None, xr_buffer = [1]\<rparr>" 2 "\<lambda>_ _. 1"] by simp

end
