(* ===== verification/Blk_File.thy ===== *)
theory Blk_File
  imports Xor Bitcoin_Types
begin

text \<open>
  \<open>parser/blk_file.rs\<close>: the index of the \<open>blk*.dat\<close> files of a data directory and the reading of
  raw blocks, blocks and transactions from them. The operating system is the record \<open>filesystem\<close>;
  files are read through \<open>XorReader\<close>, with the short reads of the oracle \<open>chunk\<close>.
\<close>

section \<open>The file system\<close>

text \<open>
  What the code asks the operating system: \<open>read_dir\<close>, the symlink test of an entry's file type,
  \<open>read_link\<close>, \<open>is_file\<close>, \<open>exists\<close> and \<open>File::open\<close> (here the contents of the file).
\<close>

record dir_entry =
  de_is_symlink :: "io_error + bool"
  de_path :: path

record filesystem =
  fs_read_dir :: "path \<Rightarrow> io_error + (io_error + dir_entry) list"
  fs_read_link :: "path \<Rightarrow> io_error + path"
  fs_is_file :: "path \<Rightarrow> bool"
  fs_exists :: "path \<Rightarrow> bool"
  fs_open :: "path \<Rightarrow> io_error + byte list"
  fs_chunk :: "nat \<Rightarrow> nat \<Rightarrow> nat"

section \<open>File names\<close>

text \<open>\<open>str::strip_prefix\<close>, \<open>str::strip_suffix\<close> and \<open>str::parse::<i32>\<close> of the standard library.\<close>

definition strip_prefix :: "string \<Rightarrow> string \<Rightarrow> string option" where
  "strip_prefix p s = (if take (length p) s = p then Some (drop (length p) s) else None)"

definition strip_suffix :: "string \<Rightarrow> string \<Rightarrow> string option" where
  "strip_suffix p s =
     (if length p \<le> length s \<and> drop (length s - length p) s = p
      then Some (take (length s - length p) s) else None)"

definition digit_value :: "char \<Rightarrow> nat option" where
  "digit_value c =
     (if 48 \<le> (of_char c :: nat) \<and> (of_char c :: nat) \<le> 57 then Some (of_char c - 48) else None)"

fun parse_digits :: "nat \<Rightarrow> string \<Rightarrow> nat option" where
  "parse_digits acc [] = Some acc"
| "parse_digits acc (c # cs) =
     (case digit_value c of None \<Rightarrow> None | Some d \<Rightarrow> parse_digits (10 * acc + d) cs)"

definition i32_range :: "int \<Rightarrow> i32 option" where
  "i32_range v = (if - (2 ^ 31) \<le> v \<and> v < 2 ^ 31 then Some (word_of_int v) else None)"

text \<open>An optional sign, then one digit or more, within the range of \<open>i32\<close>.\<close>

fun parse_i32 :: "string \<Rightarrow> i32 option" where
  "parse_i32 [] = None"
| "parse_i32 (c # cs) =
     (if c = CHR ''-'' then (if cs = [] then None else Option.bind (parse_digits 0 cs) (\<lambda>n. i32_range (- int n)))
      else if c = CHR ''+'' then (if cs = [] then None else Option.bind (parse_digits 0 cs) (\<lambda>n. i32_range (int n)))
      else Option.bind (parse_digits 0 (c # cs)) (\<lambda>n. i32_range (int n)))"

definition file_name :: "path \<Rightarrow> string option" where
  "file_name p = (if p = [] then None else Some (last p))"

definition parse_blk_index :: "path \<Rightarrow> i32 option" where
  "parse_blk_index p =
     Option.bind (file_name p) (\<lambda>name.
     Option.bind (strip_prefix ''blk'' name) (\<lambda>s.
     Option.bind (strip_suffix ''.dat'' s) (\<lambda>blk_index. parse_i32 blk_index)))"

section \<open>Scanning the blocks directory\<close>

definition resolve_path :: "filesystem \<Rightarrow> dir_entry \<Rightarrow> io_error + path" where
  "resolve_path fs entry =
     (case de_is_symlink entry of
        Inl e \<Rightarrow> Inl e
      | Inr is_symlink \<Rightarrow> if is_symlink then fs_read_link fs (de_path entry) else Inr (de_path entry))"

type_synonym blk_map = "i32 \<rightharpoonup> path"

fun scan_entries :: "filesystem \<Rightarrow> (io_error + dir_entry) list \<Rightarrow> blk_map \<Rightarrow> blk_map result" where
  "scan_entries fs [] blk_files = Ok blk_files"
| "scan_entries fs (entry # entries) blk_files =
     bind_result (lift_err Io entry) (\<lambda>e.
     bind_result (lift_err Io (resolve_path fs e)) (\<lambda>p.
       if \<not> fs_is_file fs p then scan_entries fs entries blk_files
       else case parse_blk_index p of
              Some index \<Rightarrow> scan_entries fs entries (blk_files(index \<mapsto> p))
            | None \<Rightarrow> scan_entries fs entries blk_files))"

definition scan_blocks_dir :: "filesystem \<Rightarrow> path \<Rightarrow> blk_map result" where
  "scan_blocks_dir fs blocks_dir =
     bind_result (lift_err Io (fs_read_dir fs blocks_dir)) (\<lambda>entries.
     bind_result (scan_entries fs entries Map.empty) (\<lambda>blk_files.
       if blk_files = Map.empty then Err EmptyBlockFiles else Ok blk_files))"

text \<open>\<open>file.read_exact(&mut buf)\<close> on the first \<open>XOR_MASK_LEN\<close> bytes of \<open>xor.dat\<close>.\<close>

definition read_xor_mask :: "filesystem \<Rightarrow> path \<Rightarrow> io_error + byte list option" where
  "read_xor_mask fs blocks_dir =
     (let p = blocks_dir @ [''xor.dat'']
      in if \<not> fs_exists fs p then Inr None
         else case fs_open fs p of
                Inl e \<Rightarrow> Inl e
              | Inr bytes \<Rightarrow>
                  (case read_exact (file_read (fs_chunk fs)) XOR_MASK_LEN (file_open bytes) of
                     Inl e \<Rightarrow> Inl e
                   | Inr (buf, _) \<Rightarrow> Inr (Some buf)))"

record blk_file =
  bf_files :: blk_map
  bf_xor_mask :: "byte list option"

definition blk_file_new :: "filesystem \<Rightarrow> path \<Rightarrow> blk_file result" where
  "blk_file_new fs p =
     bind_result (lift_err Io (read_xor_mask fs p)) (\<lambda>xor_mask.
     bind_result (scan_blocks_dir fs p) (\<lambda>files.
       Ok \<lparr>bf_files = files, bf_xor_mask = xor_mask\<rparr>))"

section \<open>Reading blocks and transactions\<close>

definition HEADER_SIZE :: u64 where
  "HEADER_SIZE = 80"

text \<open>The reader both functions build: open, wrap, seek; a failed seek is returned with \<open>?\<close>.\<close>

definition open_at :: "filesystem \<Rightarrow> blk_file \<Rightarrow> i32 \<Rightarrow> u64 \<Rightarrow> os_file xor_reader result" where
  "open_at fs bf n_file pos =
     bind_result (ok_or (BlockFileNotFound n_file) (bf_files bf n_file)) (\<lambda>blk_path.
     bind_result (lift_err Io (fs_open fs blk_path)) (\<lambda>bytes.
       (let (res, r) = xor_seek file_seek file_position pos (xor_new (file_open bytes) (bf_xor_mask bf))
        in bind_result (lift_err Io res) (\<lambda>_. Ok r))))"

text \<open>\<open>offset as u64 - 4\<close> wraps below zero, which the seek then refuses.\<close>

definition read_raw_block :: "filesystem \<Rightarrow> blk_file \<Rightarrow> i32 \<Rightarrow> u32 \<Rightarrow> byte list result" where
  "read_raw_block fs bf n_file offset =
     bind_result (open_at fs bf n_file (ucast offset - 4)) (\<lambda>r.
     bind_result (read_u32 (read_exact (xor_read (file_read (fs_chunk fs)))) r) (\<lambda>(block_size, r).
     bind_result (read_vec_u8 (read_exact (xor_read (file_read (fs_chunk fs)))) block_size r)
       (\<lambda>(blk, r). Ok blk)))"

definition read_block :: "filesystem \<Rightarrow> bitcoin_lib \<Rightarrow> blk_file \<Rightarrow> i32 \<Rightarrow> u32 \<Rightarrow> block result" where
  "read_block fs L bf n_file offset =
     bind_result (read_raw_block fs bf n_file offset) (\<lambda>bytes.
     bind_result (read_decodable (cursor_decode (decode_block L)) (cursor_new bytes)) (\<lambda>(blk, _). Ok blk))"

text \<open>
  \<open>Transaction::consensus_decode\<close> on the reader itself: the decoder takes the bytes the reader
  delivers from where it stands.
\<close>

definition xor_decode :: "('a, byte list) decode_fn \<Rightarrow> ('a, os_file xor_reader) decode_fn" where
  "xor_decode decode x =
     (case decode (xor_rest x) of
        Inl e \<Rightarrow> Inl e
      | Inr (a, bs) \<Rightarrow> Inr (a, xor_advance (length (xor_rest x) - length bs) x))"

definition read_transaction ::
  "filesystem \<Rightarrow> bitcoin_lib \<Rightarrow> blk_file \<Rightarrow> i32 \<Rightarrow> u32 \<Rightarrow> u32 \<Rightarrow> transaction result" where
  "read_transaction fs L bf n_file n_pos n_tx_offset =
     bind_result (open_at fs bf n_file (ucast n_pos + ucast n_tx_offset + HEADER_SIZE)) (\<lambda>r.
     bind_result (read_decodable (xor_decode (decode_transaction L)) r) (\<lambda>(tx, _). Ok tx))"

section \<open>File names, specified\<close>

lemma digit_value_char [simp]: "d < 10 \<Longrightarrow> digit_value (digit_char d) = Some d"
  by (simp add: digit_value_def digit_char_def)

lemma digit_char_zero: "digit_char 0 = CHR ''0''"
  by (simp add: digit_char_def char_of_def bit_0)

lemma digit_char_no_sign: "d < 10 \<Longrightarrow> digit_char d \<noteq> CHR ''-'' \<and> digit_char d \<noteq> CHR ''+''"
  using digit_value_char [of d] by (auto simp: digit_value_def)

lemma parse_digits_append:
  "parse_digits acc (xs @ ys) = Option.bind (parse_digits acc xs) (\<lambda>a. parse_digits a ys)"
  by (induction xs arbitrary: acc) (auto split: option.split)

lemma parse_digits_decimal: "parse_digits 0 (decimal n) = Some n"
proof (induction n rule: decimal.induct)
  case (1 n)
  then show ?case
    by (cases "n < 10") (simp_all add: decimal.simps [of n] parse_digits_append)
qed

lemma parse_digits_zeros: "parse_digits 0 (replicate k (CHR ''0'') @ s) = parse_digits 0 s"
  by (induction k) (simp_all add: digit_value_def)

lemma decimal_first: "\<exists>d cs. decimal n = digit_char d # cs \<and> d < 10"
proof (induction n rule: decimal.induct)
  case (1 n)
  then show ?case by (cases "n < 10") (auto simp: decimal.simps [of n])
qed

lemma parse_i32_unsigned:
  assumes "s = digit_char d # cs" and "d < 10"
  shows "parse_i32 s = Option.bind (parse_digits 0 s) (\<lambda>n. i32_range (int n))"
  using assms digit_char_no_sign [of d] by simp

lemma parse_i32_padded:
  assumes "n < 2 ^ 31"
  shows "parse_i32 (replicate k (CHR ''0'') @ decimal n) = Some (word_of_nat n)"
proof -
  have "\<exists>d cs. replicate k (CHR ''0'') @ decimal n = digit_char d # cs \<and> d < 10"
    using decimal_first [of n] digit_char_zero by (cases k) (auto, metis zero_less_numeral)
  then obtain d cs where "replicate k (CHR ''0'') @ decimal n = digit_char d # cs" "d < 10" by blast
  from parse_i32_unsigned [OF this] assms show ?thesis
    by (simp add: parse_digits_zeros parse_digits_decimal i32_range_def)
qed

lemma strip_prefix_append [simp]: "strip_prefix p (p @ s) = Some s"
  by (simp add: strip_prefix_def)

lemma strip_suffix_append [simp]: "strip_suffix p (s @ p) = Some s"
  by (simp add: strip_suffix_def)

text \<open>
  File names round-trip: the name Bitcoin Core gives to block file \<open>n\<close>, \<open>blk\<close> then the decimal
  number with any padding of zeros then \<open>.dat\<close>, in any directory, is parsed back to \<open>n\<close>, for every
  \<open>n\<close> an \<open>i32\<close> can hold.
\<close>

theorem parse_blk_index_roundtrip:
  assumes "n < 2 ^ 31"
  shows "parse_blk_index (dir @ [''blk'' @ replicate k (CHR ''0'') @ decimal n @ ''.dat'']) = Some (word_of_nat n)"
proof -
  have "strip_prefix ''blk'' (''blk'' @ replicate k (CHR ''0'') @ decimal n @ ''.dat'')
      = Some (replicate k (CHR ''0'') @ decimal n @ ''.dat'')"
    by (rule strip_prefix_append)
  moreover have "strip_suffix ''.dat'' (replicate k (CHR ''0'') @ decimal n @ ''.dat'')
      = Some (replicate k (CHR ''0'') @ decimal n)"
    using strip_suffix_append [of "''.dat''" "replicate k (CHR ''0'') @ decimal n"]
    by (simp del: strip_suffix_append)
  ultimately show ?thesis
    unfolding parse_blk_index_def file_name_def by (simp add: parse_i32_padded [OF assms])
qed

theorem parse_blk_index_roundtrip_witness:
  "parse_blk_index [''blocks'', ''blk01202.dat''] = Some 1202"
proof -
  have "decimal 1202 = ''1202''"
    by (simp add: decimal.simps digit_char_def char_of_def bit_0)
  with parse_blk_index_roundtrip [of 1202 "[''blocks'']" 1] show ?thesis by simp
qed

section \<open>The scan, specified\<close>

text \<open>The file an entry of the directory stands for, when it is a block file, with its number.\<close>

definition entry_index :: "filesystem \<Rightarrow> io_error + dir_entry \<Rightarrow> (i32 \<times> path) option" where
  "entry_index fs entry =
     (case entry of
        Inl e \<Rightarrow> None
      | Inr d \<Rightarrow> (case resolve_path fs d of
          Inl e \<Rightarrow> None
        | Inr p \<Rightarrow> if fs_is_file fs p then map_option (\<lambda>i. (i, p)) (parse_blk_index p) else None))"

definition entry_readable :: "filesystem \<Rightarrow> io_error + dir_entry \<Rightarrow> bool" where
  "entry_readable fs entry = (case entry of Inl e \<Rightarrow> False | Inr d \<Rightarrow> \<not> isl (resolve_path fs d))"

lemma scan_entries_eq:
  "list_all (entry_readable fs) entries \<Longrightarrow>
     scan_entries fs entries m = Ok (m ++ map_of (rev (List.map_filter (entry_index fs) entries)))"
proof (induction entries arbitrary: m)
  case (Cons entry entries)
  then obtain d p where "entry = Inr d" and "resolve_path fs d = Inr p"
    by (cases entry; cases "resolve_path fs (projr entry)") (auto simp: entry_readable_def)
  with Cons show ?case
    by (auto simp: List.map_filter_def entry_index_def map_add_def fun_eq_iff split: option.splits)
qed (simp add: List.map_filter_def)

lemma scan_blocks_dir_eq:
  assumes "fs_read_dir fs dir = Inr entries" and "list_all (entry_readable fs) entries"
  shows "scan_blocks_dir fs dir =
    (let found = List.map_filter (entry_index fs) entries
     in if found = [] then Err EmptyBlockFiles else Ok (map_of (rev found)))"
proof -
  have "map_of (rev found) = Map.empty \<longleftrightarrow> found = []" for found :: "(i32 \<times> path) list"
    by (metis map_of_eq_empty_iff rev_is_Nil_conv)
  then show ?thesis
    using assms by (simp add: scan_blocks_dir_def scan_entries_eq Let_def)
qed

text \<open>
  Scanning the directory finds every block file: when the entries can be read, the result maps
  exactly the numbers of the regular files (symbolic links resolved) named like block files to
  their paths, the last entry with a number winning, and a directory without any is an error.
\<close>

theorem scan_blocks_dir_finds_all:
  assumes "fs_read_dir fs dir = Inr entries" and "list_all (entry_readable fs) entries"
  shows "scan_blocks_dir fs dir =
    (let found = List.map_filter (entry_index fs) entries
     in if found = [] then Err EmptyBlockFiles else Ok (map_of (rev found)))"
  using assms by (rule scan_blocks_dir_eq)

definition sample_entries :: "(io_error + dir_entry) list" where
  "sample_entries =
     [Inr \<lparr>de_is_symlink = Inr False, de_path = [''blocks'', ''blk7.dat'']\<rparr>,
      Inr \<lparr>de_is_symlink = Inr False, de_path = [''blocks'', ''rev7.dat'']\<rparr>,
      Inr \<lparr>de_is_symlink = Inr True, de_path = [''blocks'', ''blk8.dat'']\<rparr>]"

definition sample_fs :: filesystem where
  "sample_fs = \<lparr>fs_read_dir = (\<lambda>_. Inr sample_entries), fs_read_link = (\<lambda>_. Inr [''mnt'', ''blk9.dat'']),
     fs_is_file = (\<lambda>_. True), fs_exists = (\<lambda>_. False),
     fs_open = (\<lambda>_. Inr [9, 9, 2, 0, 0, 0, 30, 31]), fs_chunk = (\<lambda>_ _. 1)\<rparr>"

lemma sample_blk_names:
  "parse_blk_index [''blocks'', ''blk7.dat''] = Some 7"
  "parse_blk_index [''blocks'', ''rev7.dat''] = None"
  "parse_blk_index [''mnt'', ''blk9.dat''] = Some 9"
  by (simp_all add: parse_blk_index_def file_name_def strip_prefix_def strip_suffix_def digit_value_def
      i32_range_def)

theorem scan_blocks_dir_finds_all_witness:
  "scan_blocks_dir sample_fs [''blocks''] = Ok [7 \<mapsto> [''blocks'', ''blk7.dat''], 9 \<mapsto> [''mnt'', ''blk9.dat'']]"
proof -
  have rd: "fs_read_dir sample_fs [''blocks''] = Inr sample_entries"
    and ok: "list_all (entry_readable sample_fs) sample_entries"
    by (simp_all add: sample_fs_def sample_entries_def entry_readable_def resolve_path_def)
  have "List.map_filter (entry_index sample_fs) sample_entries
      = [(7, [''blocks'', ''blk7.dat'']), (9, [''mnt'', ''blk9.dat''])]"
    by (simp add: sample_fs_def sample_entries_def List.map_filter_def entry_index_def resolve_path_def
        sample_blk_names)
  then show ?thesis
    using scan_blocks_dir_finds_all [OF rd ok] by simp
qed

section \<open>The mask of an opened directory\<close>

lemma read_xor_mask_eq:
  "read_xor_mask fs dir =
     (if \<not> fs_exists fs (dir @ [''xor.dat'']) then Inr None
      else case fs_open fs (dir @ [''xor.dat'']) of
             Inl e \<Rightarrow> Inl e
           | Inr bytes \<Rightarrow>
               if XOR_MASK_LEN \<le> length bytes then Inr (Some (take XOR_MASK_LEN bytes)) else Inl UnexpectedEof)"
proof -
  have "(case read_exact (file_read (fs_chunk fs)) XOR_MASK_LEN (file_open bytes) of
        Inl e \<Rightarrow> Inl e | Inr (buf, _) \<Rightarrow> Inr (Some buf))
      = (if XOR_MASK_LEN \<le> length bytes then Inr (Some (take XOR_MASK_LEN bytes)) else Inl UnexpectedEof)" for bytes
    using fl.read_exact_spec [where chunk = "fs_chunk fs" and n = XOR_MASK_LEN and s = "file_open bytes"]
    by (auto simp: file_rest_def split: if_splits)
  then show ?thesis
    by (cases "fs_open fs (dir @ [''xor.dat''])") (simp_all add: read_xor_mask_def Let_def)
qed

lemma blk_file_new_mask: "blk_file_new fs dir = Ok bf \<Longrightarrow> mask_ok (bf_xor_mask bf)"
  by (auto simp: blk_file_new_def result_simps read_xor_mask_eq mask_ok_def split: if_splits sum.splits)

section \<open>Reading, specified\<close>

text \<open>The contents of block file \<open>n_file\<close> without the obfuscation.\<close>

definition blk_view :: "filesystem \<Rightarrow> blk_file \<Rightarrow> i32 \<Rightarrow> byte list option" where
  "blk_view fs bf n_file =
     (case bf_files bf n_file of
        None \<Rightarrow> None
      | Some p \<Rightarrow> (case fs_open fs p of
          Inl e \<Rightarrow> None
        | Inr bytes \<Rightarrow> Some (unmask (bf_xor_mask bf) bytes)))"

lemma blk_viewD:
  assumes "blk_view fs bf n_file = Some v"
  obtains p bytes where "bf_files bf n_file = Some p" "fs_open fs p = Inr bytes"
    "v = unmask (bf_xor_mask bf) bytes"
  using assms by (auto simp: blk_view_def split: option.splits sum.splits)

lemma open_at_view:
  assumes "mask_ok (bf_xor_mask bf)" and "blk_view fs bf n_file = Some v" and "unat pos < 2 ^ 63"
  shows "\<exists>x. open_at fs bf n_file pos = Ok x \<and> xor_good x \<and> xor_rest x = drop (unat pos) v"
proof -
  obtain p bytes where p: "bf_files bf n_file = Some p" "fs_open fs p = Inr bytes"
    "v = unmask (bf_xor_mask bf) bytes"
    using assms(2) by (rule blk_viewD)
  have "mask_ok (xr_mask (xor_new (file_open bytes) (bf_xor_mask bf)))"
    using assms(1) by simp
  from xor_seek_file [OF this assms(3)] p show ?thesis
    by (auto simp: open_at_def)
qed

lemma open_at_refused:
  assumes "bf_files bf n_file = Some p" and "fs_open fs p = Inr bytes" and "\<not> unat pos < 2 ^ 63"
  shows "open_at fs bf n_file pos = Err (Io InvalidInput)"
  using xor_seek_refused [OF assms(3), of "xor_new (file_open bytes) (bf_xor_mask bf)"] assms(1,2)
  by (cases "xor_seek file_seek file_position pos (xor_new (file_open bytes) (bf_xor_mask bf))")
     (simp add: open_at_def)

lemma unat_offset:
  "4 \<le> unat (off :: u32) \<Longrightarrow> unat (ucast off - 4 :: u64) = unat off - 4"
  "unat (off :: u32) < 4 \<Longrightarrow> \<not> unat (ucast off - 4 :: u64) < 2 ^ 63"
proof -
  show "4 \<le> unat off \<Longrightarrow> unat (ucast off - 4 :: u64) = unat off - 4"
    by (simp add: unat_sub word_le_nat_alt)
  assume less: "unat off < 4"
  have "(ucast off - 4 :: u64) = word_of_nat (18446744073709551612 + unat off)"
    by simp
  then have "unat (ucast off - 4 :: u64) = 18446744073709551612 + unat off"
    using less by (simp add: unat_of_nat del: of_nat_add)
  then show "\<not> unat (ucast off - 4 :: u64) < 2 ^ 63"
    by simp
qed

definition raw_block_spec :: "byte list \<Rightarrow> nat \<Rightarrow> byte list result" where
  "raw_block_spec v off =
     (if off < 4 then Err (Io InvalidInput)
      else (let d = drop (off - 4) v
            in if length d < 4 then Err (BitcoinIo UnexpectedEof)
               else (let size = unat (le_u32 (take 4 d))
                     in if length d - 4 < size then Err (BitcoinIo UnexpectedEof)
                        else Ok (take size (drop 4 d)))))"

lemma read_raw_block_eq:
  assumes "mask_ok (bf_xor_mask bf)" and "blk_view fs bf n_file = Some v"
  shows "read_raw_block fs bf n_file off = raw_block_spec v (unat off)"
proof (cases "unat off < 4")
  case True
  obtain p bytes where "bf_files bf n_file = Some p" "fs_open fs p = Inr bytes"
    using assms(2) by (rule blk_viewD)
  with open_at_refused [OF this unat_offset(2) [OF True]] True show ?thesis
    by (simp add: read_raw_block_def raw_block_spec_def)
next
  case False
  then have pos: "unat (ucast off - 4 :: u64) = unat off - 4" by (intro unat_offset) simp
  moreover have "unat off - 4 < 2 ^ 63"
    using unat_bound [of off] by simp
  ultimately obtain x where x: "open_at fs bf n_file (ucast off - 4) = Ok x" "xor_good x"
      "xor_rest x = drop (unat off - 4) v"
    using open_at_view [OF assms, of "ucast off - 4"] by auto
  let ?d = "xor_rest x" and ?rx = "read_exact (xor_read (file_read (fs_chunk fs)))"
  have len: "length (xor_rest x) = length v - (unat off - 4)"
    by (simp add: x(3) del: length_xor_rest)
  show ?thesis
  proof (cases "length ?d < 4")
    case True
    from xr.exactly.read_u32_short [OF x(2) this] True False x(3) show ?thesis
      by (simp add: read_raw_block_def raw_block_spec_def x(1) len)
  next
    case short: False
    then obtain y where y: "read_u32 ?rx x = Ok (le_u32 (take 4 ?d), y)"
        "xor_rest y = drop 4 ?d" "xor_good y"
      using xr.exactly.read_u32_ok [OF x(2), of "fs_chunk fs"] by auto
    have leny: "length (xor_rest y) = length v - (unat off - 4) - 4"
      using y(2) len by simp
    show ?thesis
      using xr.exactly.read_vec_u8_ok [OF y(3), of "le_u32 (take 4 ?d)" "fs_chunk fs"]
        xr.exactly.read_vec_u8_short [OF y(3), of "le_u32 (take 4 ?d)" "fs_chunk fs"] short False x y(1,2)
      unfolding leny len
      by (auto simp: read_raw_block_def raw_block_spec_def Let_def not_le not_less)
  qed
qed

text \<open>
  C22. \<open>read_raw_block\<close>, every branch: an unknown file number, a file that cannot be opened, an
  offset below 4 (whose subtraction wraps, so that the seek is refused), a file that ends before the
  size or before the block, and otherwise the bytes the size field counts. No outcome is a panic or
  an endless loop, whatever the short reads of the file.
\<close>

theorem read_raw_block_every_branch:
  assumes "mask_ok (bf_xor_mask bf)"
  shows "read_raw_block fs bf n_file off =
    (case bf_files bf n_file of
       None \<Rightarrow> Err (BlockFileNotFound n_file)
     | Some p \<Rightarrow> (case fs_open fs p of
         Inl e \<Rightarrow> Err (Io e)
       | Inr bytes \<Rightarrow> raw_block_spec (unmask (bf_xor_mask bf) bytes) (unat off)))"
  using read_raw_block_eq [OF assms, of fs n_file _ off]
  by (auto simp: blk_view_def read_raw_block_def open_at_def split: option.splits sum.splits)

theorem read_raw_block_every_branch_witness:
  "read_raw_block sample_fs \<lparr>bf_files = [7 \<mapsto> [''blk7.dat'']], bf_xor_mask = None\<rparr> 7 6 = Ok [30, 31]
   \<and> read_raw_block sample_fs \<lparr>bf_files = [7 \<mapsto> [''blk7.dat'']], bf_xor_mask = None\<rparr> 7 3 = Err (Io InvalidInput)"
  using read_raw_block_every_branch [of "\<lparr>bf_files = [7 \<mapsto> [''blk7.dat'']], bf_xor_mask = None\<rparr>" sample_fs 7]
  by (simp add: mask_ok_def unmask_def sample_fs_def raw_block_spec_def le_u32_def)

text \<open>
  Blocks are read back as they were written: where the (unmasked) file holds the size of a block
  as four little-endian bytes and then the block, \<open>read_raw_block\<close> at the offset of the block returns
  the block, byte for byte, independently of what surrounds it.
\<close>

theorem read_raw_block_layout:
  assumes "mask_ok (bf_xor_mask bf)"
    and "blk_view fs bf n_file = Some (pre @ u32_le (word_of_nat (length blk)) @ blk @ post)"
    and "length blk < 2 ^ 32" and "length pre + 4 < 2 ^ 32"
  shows "read_raw_block fs bf n_file (word_of_nat (length pre + 4)) = Ok blk"
proof -
  have "unat (word_of_nat (length pre + 4) :: u32) = length pre + 4"
    and "unat (word_of_nat (length blk) :: u32) = length blk"
    using assms(3,4) by (simp_all add: unat_of_nat del: of_nat_add)
  then show ?thesis
    unfolding read_raw_block_eq [OF assms(1,2)]
    by (simp add: raw_block_spec_def Let_def)
qed

theorem read_raw_block_layout_witness:
  "read_raw_block sample_fs \<lparr>bf_files = [7 \<mapsto> [''blk7.dat'']], bf_xor_mask = None\<rparr> 7 6 = Ok [30, 31]"
proof -
  have "blk_view sample_fs \<lparr>bf_files = [7 \<mapsto> [''blk7.dat'']], bf_xor_mask = None\<rparr> 7
      = Some ([9, 9] @ u32_le (word_of_nat (length [30, 31 :: byte])) @ [30, 31] @ [])"
    by (simp add: blk_view_def sample_fs_def unmask_def u32_le_def)
  from read_raw_block_layout [OF _ this] show ?thesis
    by (simp add: mask_ok_def)
qed

lemma read_block_of_raw:
  "read_raw_block fs bf n_file off = Ok bytes \<Longrightarrow>
     read_block fs L bf n_file off = (case decode_block L bytes of Inl e \<Rightarrow> Err (Encode e) | Inr (b, _) \<Rightarrow> Ok b)"
  by (simp add: read_block_def read_decodable_def cursor_decode_def split: sum.splits prod.splits)

lemma unat_tx_pos:
  "unat (ucast (p :: u32) + ucast (q :: u32) + HEADER_SIZE) = unat p + unat q + 80"
proof -
  have "ucast p + ucast q + HEADER_SIZE = (word_of_nat (unat p + unat q + 80) :: u64)"
    by (simp add: HEADER_SIZE_def)
  then show ?thesis
    using unat_bound [of p] unat_bound [of q] by (simp add: unat_of_nat del: of_nat_add)
qed

lemma read_transaction_eq:
  assumes "mask_ok (bf_xor_mask bf)" and "blk_view fs bf n_file = Some v"
  shows "read_transaction fs L bf n_file n_pos n_tx_offset =
    (case decode_transaction L (drop (unat n_pos + unat n_tx_offset + 80) v) of
       Inl e \<Rightarrow> Err (Encode e) | Inr (tx, _) \<Rightarrow> Ok tx)"
proof -
  have "unat n_pos + unat n_tx_offset + 80 < 2 ^ 63"
    using unat_bound [of n_pos] unat_bound [of n_tx_offset] by simp
  then obtain x where "open_at fs bf n_file (ucast n_pos + ucast n_tx_offset + HEADER_SIZE) = Ok x"
      "xor_rest x = drop (unat n_pos + unat n_tx_offset + 80) v"
    using open_at_view [OF assms, of "ucast n_pos + ucast n_tx_offset + HEADER_SIZE"]
    unfolding unat_tx_pos by blast
  then show ?thesis
    by (simp add: read_transaction_def read_decodable_def xor_decode_def split: sum.splits prod.splits)
qed

section \<open>Unit test of the source\<close>

definition test_parse_blk_index :: bool where
  "test_parse_blk_index \<longleftrightarrow>
     parse_blk_index [''blk00000.dat''] = Some 0 \<and> parse_blk_index [''blk6.dat''] = Some 6
     \<and> parse_blk_index [''blk1202.dat''] = Some 1202 \<and> parse_blk_index [''blk13412451.dat''] = Some 13412451
     \<and> parse_blk_index [''blkindex.dat''] = None \<and> parse_blk_index [''invalid.dat''] = None"

lemma parse_blk_index_test_passes: test_parse_blk_index
  by (simp add: test_parse_blk_index_def parse_blk_index_def file_name_def strip_prefix_def strip_suffix_def digit_value_def
      i32_range_def)

end
