(* ===== verification/Block_Index.thy ===== *)
theory Block_Index
  imports Bitcoin_Types
begin

text \<open>
  \<open>parser/block_index.rs\<close>: decoding the records of Bitcoin Core's block index (LevelDB), keeping the
  valid ones, and rebuilding the longest chain backwards from the block of greatest height. LevelDB
  is a parameter: the entries its iterator yields, in their order, and its lookups. A failed
  \<open>expect\<close> or \<open>assert_eq!\<close> is the outcome \<open>Panic\<close>.
\<close>

section \<open>LevelDB\<close>

record leveldb =
  ldb_entries :: "(byte list \<times> byte list) list"
  ldb_get :: "byte list \<Rightarrow> string + byte list option"

section \<open>Block index records\<close>

text \<open>\<open>BlockKey\<close>, the key type the iterator of LevelDB is used with: a copy of the bytes.\<close>

record block_key =
  bk_key :: "byte list"

definition block_key_from_u8 :: "byte list \<Rightarrow> block_key" where
  "block_key_from_u8 key = \<lparr>bk_key = key\<rparr>"

definition block_key_as_slice :: "(byte list \<Rightarrow> 't) \<Rightarrow> block_key \<Rightarrow> 't" where
  "block_key_as_slice f k = f (bk_key k)"

lemma block_key_slice [simp]: "block_key_as_slice f (block_key_from_u8 key) = f key"
  by (simp add: block_key_as_slice_def block_key_from_u8_def)

definition BLOCK_VALID_HEADER :: u32 where "BLOCK_VALID_HEADER = 1"
definition BLOCK_VALID_TREE :: u32 where "BLOCK_VALID_TREE = 2"
definition BLOCK_VALID_TRANSACTIONS :: u32 where "BLOCK_VALID_TRANSACTIONS = 3"
definition BLOCK_VALID_CHAIN :: u32 where "BLOCK_VALID_CHAIN = 4"
definition BLOCK_VALID_SCRIPTS :: u32 where "BLOCK_VALID_SCRIPTS = 5"
definition BLOCK_VALID_MASK :: u32 where
  "BLOCK_VALID_MASK = BLOCK_VALID_HEADER OR BLOCK_VALID_TREE OR BLOCK_VALID_TRANSACTIONS
     OR BLOCK_VALID_CHAIN OR BLOCK_VALID_SCRIPTS"
definition BLOCK_HAVE_DATA :: u32 where "BLOCK_HAVE_DATA = 8"
definition BLOCK_HAVE_UNDO :: u32 where "BLOCK_HAVE_UNDO = 16"

lemmas block_status_defs = BLOCK_VALID_HEADER_def BLOCK_VALID_TREE_def BLOCK_VALID_TRANSACTIONS_def
  BLOCK_VALID_CHAIN_def BLOCK_VALID_SCRIPTS_def BLOCK_VALID_MASK_def BLOCK_HAVE_DATA_def BLOCK_HAVE_UNDO_def

record block_index_record =
  n_version :: i32
  n_height :: i32
  n_status :: u32
  n_tx :: u32
  n_file :: i32
  n_data_pos :: u32
  n_undo_pos :: u32
  block_header :: header

text \<open>
  \<open>impl Debug for BlockIndexRecord\<close>, on one line (\<open>{:?}\<close>); \<open>debug_header\<close> is \<open>Debug\<close> of \<open>BlockHeader\<close>. The
  position of the undo data is left out.
\<close>

definition block_index_record_debug :: "(header \<Rightarrow> string) \<Rightarrow> block_index_record \<Rightarrow> string" where
  "block_index_record_debug debug_header r =
     ''BlockIndexRecord { version: '' @ decimal_int (sint (n_version r))
     @ '', height: '' @ decimal_int (sint (n_height r))
     @ '', status: '' @ decimal (unat (n_status r))
     @ '', n_tx: '' @ decimal (unat (n_tx r))
     @ '', n_file: '' @ decimal_int (sint (n_file r))
     @ '', n_data_pos: '' @ decimal (unat (n_data_pos r))
     @ '', header: '' @ debug_header (block_header r) @ '' }''"

definition is_valid :: "block_index_record \<Rightarrow> bool" where
  "is_valid r \<longleftrightarrow>
     n_height r = 0
     \<or> (BLOCK_VALID_SCRIPTS \<le> n_status r AND BLOCK_VALID_MASK \<and> 0 < n_status r AND BLOCK_HAVE_DATA)"

text \<open>\<open>BlockIndexRecord::decode\<close>; \<open>as i32\<close> and \<open>as u32\<close> truncate the \<open>usize\<close>.\<close>

definition index_decode :: "bitcoin_lib \<Rightarrow> byte list \<Rightarrow> block_index_record result" where
  "index_decode L values =
     bind_result (read_varint cursor_exact (cursor_new values)) (\<lambda>(version, c).
     bind_result (read_varint cursor_exact c) (\<lambda>(height, c).
     bind_result (read_varint cursor_exact c) (\<lambda>(status, c).
     (let st = (ucast status :: u32) in
     bind_result (read_varint cursor_exact c) (\<lambda>(tx, c).
     bind_result (if 0 < st AND (BLOCK_HAVE_DATA OR BLOCK_HAVE_UNDO)
                  then result_map (\<lambda>(n, c). (ucast n, c)) (read_varint cursor_exact c)
                  else Ok (-1, c)) (\<lambda>(fileno, c).
     bind_result (if 0 < st AND BLOCK_HAVE_DATA
                  then result_map (\<lambda>(n, c). (ucast n, c)) (read_varint cursor_exact c)
                  else Ok (0xFFFFFFFF, c)) (\<lambda>(data_pos, c).
     bind_result (if 0 < st AND BLOCK_HAVE_UNDO
                  then result_map (\<lambda>(n, c). (ucast n, c)) (read_varint cursor_exact c)
                  else Ok (0xFFFFFFFF, c)) (\<lambda>(undo_pos, c).
     bind_result (read_decodable (cursor_decode (decode_header L)) c) (\<lambda>(hdr, c).
       Ok \<lparr>n_version = ucast version, n_height = ucast height, n_status = st, n_tx = ucast tx,
           n_file = fileno, n_data_pos = data_pos, n_undo_pos = undo_pos, block_header = hdr\<rparr>)))))))))"

section \<open>Loading the index\<close>

definition is_block_index_record :: "byte list \<Rightarrow> bool" where
  "is_block_index_record data = (case data of [] \<Rightarrow> False | b # _ \<Rightarrow> b = 0x62)"

type_synonym index_map = "hash256 \<rightharpoonup> block_index_record"

definition update_max :: "hash256 \<Rightarrow> i32 \<Rightarrow> (hash256 \<times> i32) option \<Rightarrow> (hash256 \<times> i32) option" where
  "update_max hash height mx =
     (case mx of
        Some (h, k) \<Rightarrow> if sint k < sint height then Some (hash, height) else Some (h, k)
      | None \<Rightarrow> Some (hash, height))"

text \<open>The loop over the database: decode, keep the valid records by hash, track the greatest height.\<close>

fun scan_index ::
  "bitcoin_lib \<Rightarrow> (byte list \<times> byte list) list \<Rightarrow> index_map \<Rightarrow> (hash256 \<times> i32) option
     \<Rightarrow> (index_map \<times> (hash256 \<times> i32) option) result" where
  "scan_index L [] m mx = Ok (m, mx)"
| "scan_index L ((k, v) # entries) m mx =
     (if is_block_index_record k then
        bind_result (index_decode L v) (\<lambda>record.
          if is_valid record then
            (let hash = block_hash L (block_header record)
             in scan_index L entries (m(hash \<mapsto> record)) (update_max hash (n_height record) mx))
          else scan_index L entries m mx)
      else scan_index L entries m mx)"

text \<open>
  The walk back from the greatest height: remove the block from the map, check its height, go on
  with its parent. The heights are those of an \<open>i32\<close> counting down to \<open>-1\<close>.
\<close>

function build_chain ::
  "index_map \<Rightarrow> hash256 \<Rightarrow> int \<Rightarrow> block_index_record list \<Rightarrow> block_index_record list result" where
  "build_chain m current_hash current_height acc =
     (if 0 \<le> current_height then
        (case m current_hash of
           None \<Rightarrow> Panic
         | Some blk \<Rightarrow>
             if current_height \<noteq> sint (n_height blk) then Panic
             else build_chain (m(current_hash := None)) (prev_blockhash (block_header blk))
                    (current_height - 1) (acc @ [blk]))
      else Ok acc)"
  by pat_completeness auto
termination
  by (relation "measure (\<lambda>(m, hash, h, acc). nat (h + 1))") auto

declare build_chain.simps [simp del]

text \<open>
  \<open>Vec::with_capacity(height as usize + 1)\<close> panics for a height below \<open>-1\<close>; for \<open>-1\<close> the sum wraps
  to 0 and the loop does not run.
\<close>

definition load_block_index :: "bitcoin_lib \<Rightarrow> (string + leveldb) \<Rightarrow> block_index_record list result" where
  "load_block_index L opened =
     bind_result (lift_err Leveldb opened) (\<lambda>db.
     bind_result (scan_index L (ldb_entries db) Map.empty None) (\<lambda>(m, mx).
       case mx of
         None \<Rightarrow> Ok []
       | Some (hash, height) \<Rightarrow>
           if sint height < -1 then Panic
           else bind_result (build_chain m hash (sint height) []) (\<lambda>chain. Ok (rev chain))))"

record block_index =
  bi_records :: "block_index_record list"
  bi_hash_to_height :: "hash256 \<rightharpoonup> i32"

definition block_index_new :: "bitcoin_lib \<Rightarrow> (string + leveldb) \<Rightarrow> block_index result" where
  "block_index_new L opened =
     bind_result (load_block_index L opened) (\<lambda>records.
       Ok \<lparr>bi_records = records,
           bi_hash_to_height =
             foldl (\<lambda>m b. m(block_hash L (block_header b) \<mapsto> n_height b)) Map.empty records\<rparr>)"

section \<open>Decoding, specified\<close>

lemma ucast_of_nat_u64: "ucast (word_of_nat n :: usize) = (word_of_nat n :: u32)"
proof -
  have "n mod 2 ^ 64 mod 2 ^ 32 = n mod (2 ^ 32 :: nat)"
    by (rule mod_mod_cancel) (simp add: le_imp_power_dvd)
  then have "(word_of_nat (n mod 2 ^ 64) :: u32) = word_of_nat n"
    by (simp add: word_of_nat_eq_iff take_bit_eq_mod)
  moreover have "unat (word_of_nat n :: usize) = n mod 2 ^ 64"
    by (simp add: unat_of_nat)
  ultimately show ?thesis
    by (metis of_nat_unat)
qed

text \<open>One read of a varint in a chain of reads, and one that depends on a status bit.\<close>

lemma bind_varint:
  assumes "cursor_rest c = varint_bytes n @ bs"
    and "\<And>c'. cursor_rest c' = bs \<Longrightarrow> f (word_of_nat n, c') = R"
  shows "bind_result (read_varint cursor_exact c) f = R"
  using cur.exactly.read_varint_bytes [OF TrueI assms(1)] assms(2) by auto

lemma bind_varint_if:
  assumes "cursor_rest c = (if b then varint_bytes n else []) @ bs"
    and "\<And>c'. cursor_rest c' = bs \<Longrightarrow> f (if b then word_of_nat n else d, c') = R"
  shows "bind_result (if b then result_map (\<lambda>(n, c). (ucast n :: u32, c)) (read_varint cursor_exact c)
                      else Ok (d, c)) f = R"
proof (cases b)
  case True
  with assms(1) obtain c' where "read_varint cursor_exact c = Ok (word_of_nat n, c')" "cursor_rest c' = bs"
    using cur.exactly.read_varint_bytes [OF TrueI] by force
  with True assms(2) show ?thesis by (simp add: ucast_of_nat_u64)
next
  case False
  with assms show ?thesis by simp
qed

lemma index_decode_fields:
  assumes "decode_header L hdr_bytes = Inr (hdr, left)"
    and "have_file \<longleftrightarrow> 0 < (word_of_nat status :: u32) AND 24"
    and "have_data \<longleftrightarrow> 0 < (word_of_nat status :: u32) AND 8"
    and "have_undo \<longleftrightarrow> 0 < (word_of_nat status :: u32) AND 16"
  shows "index_decode L
     (varint_bytes version @ varint_bytes height @ varint_bytes status @ varint_bytes txs
      @ (if have_file then varint_bytes fileno else []) @ (if have_data then varint_bytes data_pos else [])
      @ (if have_undo then varint_bytes undo_pos else []) @ hdr_bytes)
   = Ok \<lparr>n_version = word_of_nat version, n_height = word_of_nat height, n_status = word_of_nat status,
         n_tx = word_of_nat txs, n_file = (if have_file then word_of_nat fileno else -1),
         n_data_pos = (if have_data then word_of_nat data_pos else 0xFFFFFFFF),
         n_undo_pos = (if have_undo then word_of_nat undo_pos else 0xFFFFFFFF), block_header = hdr\<rparr>"
  unfolding index_decode_def
  apply (rule bind_varint, simp, simp only: prod.case)
  apply (rule bind_varint, assumption, simp only: prod.case)
  apply (rule bind_varint, assumption, simp only: prod.case Let_def ucast_of_nat_u64)
  apply (rule bind_varint, assumption, simp only: prod.case)
  apply (rule bind_varint_if, simp add: assms(2) block_status_defs, simp only: prod.case)
  apply (rule bind_varint_if, simp add: assms(3) block_status_defs, simp only: prod.case)
  apply (rule bind_varint_if, simp add: assms(4) block_status_defs, simp only: prod.case)
  apply (simp add: read_decodable_def cursor_decode_def assms block_status_defs ucast_of_nat_u64)
  done

text \<open>
  C33. A block index record is read back field by field. On the layout Bitcoin Core writes (the
  varints of version, height, status and transaction count, then file number, data position and
  undo position as the status bits say, then the header) \<open>decode\<close> returns exactly those values,
  truncated to 32 bits, with \<open>-1\<close> and \<open>u32::MAX\<close> for the absent fields.
\<close>

theorem index_decode_layout:
  assumes "decode_header L hdr_bytes = Inr (hdr, left)"
    and "have_file \<longleftrightarrow> 0 < (word_of_nat status :: u32) AND 24"
    and "have_data \<longleftrightarrow> 0 < (word_of_nat status :: u32) AND 8"
    and "have_undo \<longleftrightarrow> 0 < (word_of_nat status :: u32) AND 16"
  shows "index_decode L
     (varint_bytes version @ varint_bytes height @ varint_bytes status @ varint_bytes txs
      @ (if have_file then varint_bytes fileno else []) @ (if have_data then varint_bytes data_pos else [])
      @ (if have_undo then varint_bytes undo_pos else []) @ hdr_bytes)
   = Ok \<lparr>n_version = word_of_nat version, n_height = word_of_nat height, n_status = word_of_nat status,
         n_tx = word_of_nat txs, n_file = (if have_file then word_of_nat fileno else -1),
         n_data_pos = (if have_data then word_of_nat data_pos else 0xFFFFFFFF),
         n_undo_pos = (if have_undo then word_of_nat undo_pos else 0xFFFFFFFF), block_header = hdr\<rparr>"
  using assms by (rule index_decode_fields)

theorem index_decode_layout_witness:
  "index_decode sample_lib [1, 7, 13, 2, 3, 129, 0, 42, 41]
   = Ok \<lparr>n_version = 1, n_height = 7, n_status = 13, n_tx = 2, n_file = 3, n_data_pos = 256,
         n_undo_pos = 0xFFFFFFFF, block_header = sample_header 42 41\<rparr>"
proof -
  have h: "decode_header sample_lib [42, 41] = Inr (sample_header 42 41, [])"
    by (simp add: sample_lib_def)
  have "varint_bytes 256 = [129, 0]"
    by (simp add: varint_bytes_def varint_more.simps)
  with index_decode_layout [OF h, of True 13 True False 1 7 2 3 256 0] show ?thesis
    by (simp add: varint_bytes_def)
qed

lemma returns_varint_field: "returns (if b then result_map f (read_varint cursor_exact c) else Ok d)"
  using cur.exactly.read_varint_returns [of c] by simp

lemma index_decode_returns: "returns (index_decode L v)"
  unfolding index_decode_def Let_def
  by (intro returns_bind cur.exactly.read_varint_returns TrueI, simp only: split_beta)
     (auto simp: split_beta read_decodable_def Let_def
        intro!: returns_bind cur.exactly.read_varint_returns returns_varint_field)

section \<open>Scanning, specified\<close>

text \<open>The valid records of the database, in the order of its iterator.\<close>

definition valid_record :: "bitcoin_lib \<Rightarrow> byte list \<times> byte list \<Rightarrow> block_index_record option" where
  "valid_record L = (\<lambda>(k, v).
     if is_block_index_record k
     then (case index_decode L v of Ok r \<Rightarrow> if is_valid r then Some r else None | _ \<Rightarrow> None)
     else None)"

definition valid_records :: "bitcoin_lib \<Rightarrow> (byte list \<times> byte list) list \<Rightarrow> block_index_record list" where
  "valid_records L entries = List.map_filter (valid_record L) entries"

definition record_hash :: "bitcoin_lib \<Rightarrow> block_index_record \<Rightarrow> hash256" where
  "record_hash L r = block_hash L (block_header r)"

definition entries_decode :: "bitcoin_lib \<Rightarrow> (byte list \<times> byte list) list \<Rightarrow> bool" where
  "entries_decode L entries \<longleftrightarrow> (\<forall>(k, v) \<in> set entries. is_block_index_record k \<longrightarrow> is_ok (index_decode L v))"

definition index_of :: "bitcoin_lib \<Rightarrow> index_map \<Rightarrow> block_index_record list \<Rightarrow> index_map" where
  "index_of L = foldl (\<lambda>m r. m(record_hash L r \<mapsto> r))"

definition max_of :: "bitcoin_lib \<Rightarrow> (hash256 \<times> i32) option \<Rightarrow> block_index_record list \<Rightarrow> (hash256 \<times> i32) option" where
  "max_of L = foldl (\<lambda>mx r. update_max (record_hash L r) (n_height r) mx)"

lemma scan_index_eq:
  "entries_decode L entries \<Longrightarrow>
     scan_index L entries m mx =
       Ok (index_of L m (valid_records L entries), max_of L mx (valid_records L entries))"
proof (induction entries arbitrary: m mx)
  case (Cons e entries)
  obtain k v where "e = (k, v)" by (cases e)
  with Cons show ?case
    by (auto simp: entries_decode_def valid_records_def valid_record_def List.map_filter_def index_of_def
        max_of_def record_hash_def result_simps Let_def)
qed (simp add: valid_records_def List.map_filter_def index_of_def max_of_def)

lemma scan_index_Ok: "scan_index L entries m mx = Ok r \<Longrightarrow> entries_decode L entries"
proof (induction entries arbitrary: m mx)
  case (Cons e entries)
  obtain k v where e: "e = (k, v)" by (cases e)
  show ?case
  proof (cases "is_block_index_record k")
    case True
    with Cons.prems e obtain rec where "index_decode L v = Ok rec"
      by (auto simp: result_simps)
    moreover from this True Cons e have "entries_decode L entries"
      by (auto simp: Let_def split: if_splits)
    ultimately show ?thesis using e by (auto simp: entries_decode_def result_simps)
  next
    case False
    with Cons e have "entries_decode L entries" by auto
    with False e show ?thesis by (auto simp: entries_decode_def)
  qed
qed (simp add: entries_decode_def)

lemma scan_index_returns: "returns (scan_index L entries m mx)"
proof (induction entries arbitrary: m mx)
  case (Cons e entries)
  obtain k v where "e = (k, v)" by (cases e)
  with Cons show ?case
    by (auto simp: Let_def intro!: returns_bind index_decode_returns)
qed simp

lemma valid_records_valid: "r \<in> set (valid_records L entries) \<Longrightarrow> is_valid r"
  by (auto simp: valid_records_def List.map_filter_def valid_record_def split: if_splits result.splits)

lemma index_of_SomeD:
  "index_of L m rs h = Some r \<Longrightarrow> (m h = Some r \<or> r \<in> set rs \<and> record_hash L r = h)"
  by (induction rs rule: rev_induct) (auto simp: index_of_def split: if_splits)

lemma index_of_distinct:
  assumes "distinct (map (record_hash L) rs)" and "r \<in> set rs"
  shows "index_of L m rs (record_hash L r) = Some r"
  using assms
proof (induction rs rule: rev_induct)
  case (snoc x xs)
  then show ?case by (auto simp: index_of_def rev_image_eqI)
qed simp

lemma max_of_bound:
  "max_of L mx rs = Some (h, k) \<Longrightarrow>
     (\<forall>r \<in> set rs. sint (n_height r) \<le> sint k) \<and> (\<forall>h' k'. mx = Some (h', k') \<longrightarrow> sint k' \<le> sint k)"
proof (induction rs arbitrary: mx)
  case (Cons r rs)
  then have "max_of L (update_max (record_hash L r) (n_height r) mx) rs = Some (h, k)"
    by (simp add: max_of_def)
  from Cons.IH [OF this] show ?case
    by (cases mx) (auto simp: update_max_def split: if_splits)
qed (simp add: max_of_def)

lemma max_of_attained:
  "max_of L mx rs = Some (h, k) \<Longrightarrow>
     mx = Some (h, k) \<or> (\<exists>r \<in> set rs. record_hash L r = h \<and> n_height r = k)"
proof (induction rs arbitrary: mx)
  case (Cons r rs)
  then have "max_of L (update_max (record_hash L r) (n_height r) mx) rs = Some (h, k)"
    by (simp add: max_of_def)
  from Cons.IH [OF this] show ?case
    by (cases mx) (auto simp: update_max_def split: if_splits)
qed (simp add: max_of_def)

lemma max_of_None: "max_of L mx rs = None \<longleftrightarrow> mx = None \<and> rs = []"
proof (induction rs arbitrary: mx)
  case (Cons r rs)
  have "max_of L mx (r # rs) = max_of L (update_max (record_hash L r) (n_height r) mx) rs"
    by (simp add: max_of_def)
  then show ?case
    by (auto simp: Cons.IH update_max_def split: option.splits if_splits)
qed (simp add: max_of_def)

section \<open>Chains\<close>

text \<open>
  Records in order of height from 0, each the child of the one before. \<open>down_chain\<close> is the order in
  which the walk meets them, from height \<open>h\<close> down.
\<close>

definition is_chain :: "bitcoin_lib \<Rightarrow> block_index_record list \<Rightarrow> bool" where
  "is_chain L rs \<longleftrightarrow>
     (\<forall>i < length rs. sint (n_height (rs ! i)) = int i)
     \<and> (\<forall>i. Suc i < length rs \<longrightarrow> prev_blockhash (block_header (rs ! Suc i)) = record_hash L (rs ! i))
     \<and> distinct (map (record_hash L) rs)"

fun down_chain :: "bitcoin_lib \<Rightarrow> hash256 \<Rightarrow> int \<Rightarrow> block_index_record list \<Rightarrow> bool" where
  "down_chain L hash h [] = (h = -1)"
| "down_chain L hash h (r # rs) =
     (0 \<le> h \<and> record_hash L r = hash \<and> sint (n_height r) = h
      \<and> down_chain L (prev_blockhash (block_header r)) (h - 1) rs)"

lemma build_chain_end: "h < 0 \<Longrightarrow> build_chain m hash h acc = Ok acc"
  by (simp add: build_chain.simps [of m])

lemma build_chain_step:
  "m hash = Some r \<Longrightarrow> sint (n_height r) = h \<Longrightarrow> 0 \<le> h \<Longrightarrow>
     build_chain m hash h acc
       = build_chain (m(hash := None)) (prev_blockhash (block_header r)) (h - 1) (acc @ [r])"
  by (simp add: build_chain.simps [of m])

lemma build_chain_stepE:
  assumes "build_chain m hash h acc = Ok out" and "0 \<le> h"
  obtains r where "m hash = Some r" and "sint (n_height r) = h"
    and "build_chain (m(hash := None)) (prev_blockhash (block_header r)) (h - 1) (acc @ [r]) = Ok out"
  using assms by (auto simp: build_chain.simps [of m] split: option.splits if_splits)

lemma build_chain_Ok:
  assumes "build_chain m hash h acc = Ok out" and "-1 \<le> h"
    and "\<And>k r. m k = Some r \<Longrightarrow> record_hash L r = k"
  shows "\<exists>rs. out = acc @ rs \<and> down_chain L hash h rs \<and> set rs \<subseteq> ran m
           \<and> distinct (map (record_hash L) rs)"
  using assms
proof (induction "nat (h + 1)" arbitrary: m hash h acc)
  case 0
  then show ?case by (intro exI [of _ "[]"]) (auto simp: build_chain_end)
next
  case (Suc n)
  then have "0 \<le> h" by linarith
  with Suc.prems(1) obtain r where r: "m hash = Some r" "sint (n_height r) = h"
    and rec: "build_chain (m(hash := None)) (prev_blockhash (block_header r)) (h - 1) (acc @ [r]) = Ok out"
    by (rule build_chain_stepE)
  have keys: "record_hash L r' = k" if "(m(hash := None)) k = Some r'" for k r'
    using that Suc.prems(3) by (auto split: if_splits)
  have "n = nat (h - 1 + 1)" "-1 \<le> h - 1" using Suc.hyps(2) \<open>0 \<le> h\<close> by linarith+
  from Suc.hyps(1) [OF this(1) rec this(2) keys] obtain rs where
      rs: "out = (acc @ [r]) @ rs" "down_chain L (prev_blockhash (block_header r)) (h - 1) rs"
        "distinct (map (record_hash L) rs)"
    and sub: "set rs \<subseteq> ran (m(hash := None))" by blast
  have "r' \<in> ran m \<and> record_hash L r' \<noteq> hash" if r': "r' \<in> set rs" for r'
  proof -
    from r' sub obtain k where k: "(m(hash := None)) k = Some r'"
      by (auto simp: ran_def)
    then have "k \<noteq> hash" and "m k = Some r'" by (auto split: if_splits)
    with keys [OF k] show ?thesis by (auto intro: ranI)
  qed
  moreover have "r \<in> ran m" and "record_hash L r = hash"
    using r(1) Suc.prems(3) by (auto intro: ranI)
  ultimately have "record_hash L r \<notin> record_hash L ` set rs" "set (r # rs) \<subseteq> ran m" "record_hash L r = hash"
    by force+
  with rs r(2) \<open>0 \<le> h\<close> show ?case by (intro exI [of _ "r # rs"]) auto
qed

lemma down_chain_nth:
  assumes "down_chain L hash h rs"
  shows "int (length rs) = h + 1"
    and "i < length rs \<Longrightarrow> sint (n_height (rs ! i)) = h - int i"
    and "Suc i < length rs \<Longrightarrow> prev_blockhash (block_header (rs ! i)) = record_hash L (rs ! Suc i)"
  using assms
proof (induction L hash h rs arbitrary: i rule: down_chain.induct)
  case (2 L hash h r rs)
  {
    case 1
    then show ?case using "2.IH"(1) by simp
  next
    case 2
    then show ?case using "2.IH"(2) [of "i - 1"] by (cases i) auto
  next
    case 3
    then show ?case using "2.IH"(3) [of "i - 1"] by (cases i; cases rs) auto
  }
qed auto

lemma down_chain_is_chain:
  assumes "down_chain L hash h rs" and "distinct (map (record_hash L) rs)"
  shows "is_chain L (rev rs)"
  unfolding is_chain_def
proof (intro conjI allI impI)
  fix i assume i: "i < length (rev rs)"
  with down_chain_nth(2) [OF assms(1), of "length rs - 1 - i"] down_chain_nth(1) [OF assms(1)]
  show "sint (n_height (rev rs ! i)) = int i"
    by (simp add: rev_nth)
next
  fix i assume i: "Suc i < length (rev rs)"
  then have "Suc (length rs - Suc (Suc i)) = length rs - Suc i" by simp
  with i down_chain_nth(3) [OF assms(1), of "length rs - Suc (Suc i)"]
  show "prev_blockhash (block_header (rev rs ! Suc i)) = record_hash L (rev rs ! i)"
    by (simp add: rev_nth)
qed (use assms(2) in \<open>simp add: rev_map [symmetric]\<close>)

section \<open>What a loaded index is\<close>

lemma load_block_index_Ok:
  assumes "load_block_index L (Inr db) = Ok rs"
  shows "is_chain L rs \<and> set rs \<subseteq> set (valid_records L (ldb_entries db))
    \<and> (\<forall>r \<in> set (valid_records L (ldb_entries db)). sint (n_height r) < int (length rs))"
proof -
  let ?V = "valid_records L (ldb_entries db)" and ?m = "index_of L Map.empty (valid_records L (ldb_entries db))"
  from assms obtain m mx where scan: "scan_index L (ldb_entries db) Map.empty None = Ok (m, mx)"
    by (auto simp: load_block_index_def result_simps)
  from scan_index_eq [OF scan_index_Ok [OF scan]] scan
  have m: "m = ?m" and mx: "mx = max_of L None ?V" by simp_all
  show ?thesis
  proof (cases mx)
    case None
    with mx max_of_None [of L None ?V] have "?V = []" by simp
    moreover from None assms scan have "rs = []" by (simp add: load_block_index_def)
    ultimately show ?thesis by (simp add: is_chain_def)
  next
    case (Some p)
    then obtain hash height where p: "mx = Some (hash, height)" by (cases p) auto
    with assms scan obtain out where "-1 \<le> sint height" and out: "build_chain m hash (sint height) [] = Ok out"
      and rs: "rs = rev out"
      by (auto simp: load_block_index_def result_simps split: if_splits)
    have keys: "record_hash L r = k" if "m k = Some r" for k r
      using index_of_SomeD [of L Map.empty ?V k r] that m by auto
    from build_chain_Ok [OF out \<open>-1 \<le> sint height\<close> keys]
    have dc: "down_chain L hash (sint height) out" and sub: "set out \<subseteq> ran m"
      and dist: "distinct (map (record_hash L) out)" by auto
    from sub m have "set out \<subseteq> set ?V"
      using index_of_SomeD [of L Map.empty ?V] by (fastforce simp: ran_def)
    moreover have "int (length out) = sint height + 1"
      by (rule down_chain_nth(1) [OF dc])
    moreover have "\<forall>r \<in> set ?V. sint (n_height r) \<le> sint height"
      using max_of_bound [of L None ?V hash height] mx p by simp
    ultimately show ?thesis
      using down_chain_is_chain [OF dc dist] rs by auto
  qed
qed

text \<open>
  C9. A loaded block index is the longest chain. When \<open>load_block_index\<close> returns, record \<open>i\<close> has
  height \<open>i\<close>, is valid, comes from the database and, above height 0, names the hash of record
  \<open>i - 1\<close> as its parent; the hashes are distinct; and no valid record of the database is higher than
  the last one.
\<close>

theorem load_block_index_longest_chain:
  assumes "load_block_index L (Inr db) = Ok rs"
  shows "is_chain L rs \<and> (\<forall>r \<in> set rs. is_valid r \<and> r \<in> set (valid_records L (ldb_entries db)))
    \<and> (\<forall>r \<in> set (valid_records L (ldb_entries db)). sint (n_height r) < int (length rs))"
  using load_block_index_Ok [OF assms] valid_records_valid by blast

text \<open>
  The condition under which loading succeeds: the hashes of the valid records differ, no height is
  negative, and the parent of every valid record above height 0 is a valid record one below.
\<close>

definition parents_present :: "bitcoin_lib \<Rightarrow> block_index_record list \<Rightarrow> bool" where
  "parents_present L rs \<longleftrightarrow>
     distinct (map (record_hash L) rs)
     \<and> (\<forall>r \<in> set rs. 0 \<le> sint (n_height r))
     \<and> (\<forall>r \<in> set rs. 0 < sint (n_height r) \<longrightarrow>
          (\<exists>p \<in> set rs. record_hash L p = prev_blockhash (block_header r)
             \<and> sint (n_height p) = sint (n_height r) - 1))"

lemma build_chain_succeeds:
  assumes "parents_present L rs" and "r \<in> set rs" and "sint (n_height r) = h"
    and "\<And>q. q \<in> set rs \<Longrightarrow> sint (n_height q) \<le> h \<Longrightarrow> m (record_hash L q) = Some q"
  shows "\<exists>out. build_chain m (record_hash L r) h acc = Ok out"
  using assms(2-)
proof (induction "nat h" arbitrary: m r h acc)
  case 0
  then have "h = 0" using assms(1) by (auto simp: parents_present_def)
  with "0.prems" show ?case
    by (subst build_chain_step) (auto simp: build_chain_end)
next
  case (Suc n)
  then have "0 < h" by linarith
  with Suc.prems assms(1) obtain p where p: "p \<in> set rs" "record_hash L p = prev_blockhash (block_header r)"
      "sint (n_height p) = h - 1"
    by (auto simp: parents_present_def)
  let ?m = "m(record_hash L r := None)"
  have m: "?m (record_hash L q) = Some q" if "q \<in> set rs" "sint (n_height q) \<le> h - 1" for q
  proof -
    from that Suc.prems(2) have "q \<noteq> r" by auto
    with that(1) Suc.prems(1) assms(1) have "record_hash L q \<noteq> record_hash L r"
      unfolding parents_present_def distinct_map by (metis inj_onD)
    with that Suc.prems(3) show ?thesis by simp
  qed
  have "n = nat (h - 1)" using Suc.hyps(2) by linarith
  from Suc.hyps(1) [OF this p(1,3) m, of "acc @ [r]"] show ?case
    unfolding p(2) using Suc.prems \<open>0 < h\<close> build_chain_step [of m "record_hash L r" r h acc]
    by (simp del: fun_upd_apply)
qed

lemma load_block_index_succeeds:
  assumes "entries_decode L (ldb_entries db)" and "parents_present L (valid_records L (ldb_entries db))"
  shows "\<exists>rs. load_block_index L (Inr db) = Ok rs"
proof -
  let ?V = "valid_records L (ldb_entries db)" and ?m = "index_of L Map.empty (valid_records L (ldb_entries db))"
  have scan: "scan_index L (ldb_entries db) Map.empty None = Ok (?m, max_of L None ?V)"
    by (rule scan_index_eq) (rule assms(1))
  show ?thesis
  proof (cases "max_of L None ?V")
    case None
    with scan show ?thesis by (simp add: load_block_index_def)
  next
    case (Some p)
    then obtain hash height where p: "max_of L None ?V = Some (hash, height)" by (cases p) auto
    from max_of_attained [OF p] obtain r where r: "r \<in> set ?V" "record_hash L r = hash" "n_height r = height"
      by auto
    have "?m (record_hash L q) = Some q" if "q \<in> set ?V" for q
      using index_of_distinct that assms(2) unfolding parents_present_def by blast
    with build_chain_succeeds [OF assms(2) r(1), of "sint height" ?m "[]"] r(2,3)
    obtain out where "build_chain ?m hash (sint height) [] = Ok out" by auto
    moreover have "0 \<le> sint height"
      using assms(2) r by (auto simp: parents_present_def)
    ultimately show ?thesis using scan p by (simp add: load_block_index_def)
  qed
qed

text \<open>
  Loading succeeds on a consistent database. If every block index entry decodes and the parent
  of each valid record is present one height below, the walk meets neither a missing hash nor a
  wrong height: no assertion fails and the chain is returned.
\<close>

theorem load_block_index_no_panic:
  assumes "entries_decode L (ldb_entries db)" and "parents_present L (valid_records L (ldb_entries db))"
  shows "\<exists>rs. load_block_index L (Inr db) = Ok rs
    \<and> (valid_records L (ldb_entries db) \<noteq> [] \<longrightarrow> rs \<noteq> [])"
proof -
  obtain rs where rs: "load_block_index L (Inr db) = Ok rs"
    using load_block_index_succeeds [OF assms] by blast
  from load_block_index_Ok [OF this] have
    "\<forall>r \<in> set (valid_records L (ldb_entries db)). sint (n_height r) < int (length rs)" by blast
  moreover have "\<forall>r \<in> set (valid_records L (ldb_entries db)). 0 \<le> sint (n_height r)"
    using assms(2) by (simp add: parents_present_def)
  ultimately have "valid_records L (ldb_entries db) \<noteq> [] \<longrightarrow> rs \<noteq> []"
    by (cases "valid_records L (ldb_entries db)") auto
  with rs show ?thesis by blast
qed

text \<open>
  Loading never runs forever, whatever the database holds; it returns the chain, returns an
  error, or panics (on a database whose chain is broken).
\<close>

theorem load_block_index_terminates: "load_block_index L opened \<noteq> Diverge"
proof -
  have bc: "build_chain m hash h acc \<noteq> Diverge" for m hash h acc
    by (induction m hash h acc rule: build_chain.induct)
       (subst build_chain.simps, auto split: option.split simp del: fun_upd_apply)
  have "scan_index L entries m mx \<noteq> Diverge" for entries m mx
    using scan_index_returns [of L entries m mx] by auto
  then show ?thesis
    by (auto simp: load_block_index_def result_simps bc split: option.splits if_splits)
qed

section \<open>The reverse index\<close>

lemma foldl_heights:
  "foldl (\<lambda>m b. m(record_hash L b \<mapsto> n_height b)) m rs
     = m ++ map_of (rev (map (\<lambda>b. (record_hash L b, n_height b)) rs))"
  by (induction rs arbitrary: m) (auto simp: map_add_upd)

lemma block_index_new_Ok:
  assumes "block_index_new L (Inr db) = Ok bi"
  shows "is_chain L (bi_records bi)"
    and "i < length (bi_records bi) \<Longrightarrow>
      bi_hash_to_height bi (record_hash L (bi_records bi ! i)) = Some (n_height (bi_records bi ! i))"
    and "bi_hash_to_height bi hash = Some h \<Longrightarrow>
      \<exists>i < length (bi_records bi). record_hash L (bi_records bi ! i) = hash \<and> n_height (bi_records bi ! i) = h"
proof -
  from assms obtain rs where ld: "load_block_index L (Inr db) = Ok rs" and rs: "bi_records bi = rs"
    and hh: "bi_hash_to_height bi = map_of (rev (map (\<lambda>b. (record_hash L b, n_height b)) rs))"
    using foldl_heights [of L Map.empty] by (auto simp: block_index_new_def result_simps record_hash_def)
  show ch: "is_chain L (bi_records bi)"
    using load_block_index_Ok [OF ld] rs by blast
  let ?ps = "rev (map (\<lambda>b. (record_hash L b, n_height b)) rs)"
  have "map fst ?ps = rev (map (record_hash L) rs)"
    by (simp add: rev_map comp_def)
  with ch rs have dist: "distinct (map fst ?ps)"
    by (simp add: is_chain_def)
  show "bi_hash_to_height bi (record_hash L (bi_records bi ! i)) = Some (n_height (bi_records bi ! i))"
    if "i < length (bi_records bi)"
    unfolding hh using that rs by (intro map_of_is_SomeI [OF dist]) auto
  show "\<exists>i < length (bi_records bi). record_hash L (bi_records bi ! i) = hash \<and> n_height (bi_records bi ! i) = h"
    if "bi_hash_to_height bi hash = Some h"
    using map_of_SomeD [OF that [unfolded hh]] rs by (auto simp: in_set_conv_nth)
qed

section \<open>A sample database\<close>

definition sample_record :: "u32 \<Rightarrow> u32 \<Rightarrow> i32 \<Rightarrow> u32 \<Rightarrow> block_index_record" where
  "sample_record nonce parent height pos =
     \<lparr>n_version = 1, n_height = height, n_status = 13, n_tx = 1, n_file = 0, n_data_pos = pos,
      n_undo_pos = 0xFFFFFFFF, block_header = sample_header nonce parent\<rparr>"

text \<open>The entries are not in the order of the chain, and one of them is not a block index record.\<close>

definition sample_db :: leveldb where
  "sample_db = \<lparr>ldb_entries = [([0x62, 2], [1, 1, 13, 1, 0, 50, 2, 1]), ([0x66], [0]),
       ([0x62, 1], [1, 0, 13, 1, 0, 8, 1, 0])],
     ldb_get = (\<lambda>key. if length key = 33 then Inr (Some [0, 8, 5]) else Inr None)\<rparr>"

lemma sample_record_decode:
  assumes "h < 128" and "p < 128"
  shows "index_decode sample_lib [1, word_of_nat h, 13, 1, 0, word_of_nat p, b, c]
    = Ok (sample_record (ucast b) (ucast c) (word_of_nat h) (word_of_nat p))"
proof -
  have hd: "decode_header sample_lib [b, c] = Inr (sample_header (ucast b) (ucast c), [])"
    by (simp add: sample_lib_def)
  have small: "varint_bytes n = [word_of_nat n]" if "n < 128" for n
    using that by (simp add: varint_bytes_def)
  show ?thesis
    using index_decode_fields [OF hd, of True 13 True False 1 h 1 0 p 0] assms
    by (simp add: small sample_record_def)
qed

lemma sample_valid_records:
  "valid_records sample_lib (ldb_entries sample_db) = [sample_record 2 1 1 50, sample_record 1 0 0 8]"
  "entries_decode sample_lib (ldb_entries sample_db)"
  using sample_record_decode [of 1 50 2 1] sample_record_decode [of 0 8 1 0]
  by (simp_all add: valid_records_def valid_record_def List.map_filter_def sample_db_def entries_decode_def
      is_block_index_record_def is_valid_def sample_record_def block_status_defs result_simps)

lemma sample_record_simps [simp]:
  "n_height (sample_record a b h p) = h" "record_hash sample_lib (sample_record a b h p) = sample_hash a"
  "prev_blockhash (block_header (sample_record a b h p)) = sample_hash b"
  "n_file (sample_record a b h p) = 0" "n_data_pos (sample_record a b h p) = p" "n_tx (sample_record a b h p) = 1"
  by (simp_all add: sample_record_def record_hash_def sample_lib_def sample_header_def)

lemma sample_load: "load_block_index sample_lib (Inr sample_db) = Ok [sample_record 1 0 0 8, sample_record 2 1 1 50]"
  by (simp add: load_block_index_def scan_index_eq sample_valid_records index_of_def max_of_def update_max_def
      build_chain.simps)

lemma sample_parents: "parents_present sample_lib (valid_records sample_lib (ldb_entries sample_db))"
  by (simp add: parents_present_def sample_valid_records)

theorem load_block_index_longest_chain_witness:
  "is_chain sample_lib [sample_record 1 0 0 8, sample_record 2 1 1 50]"
  using load_block_index_longest_chain [OF sample_load] by simp

theorem load_block_index_no_panic_witness:
  "\<exists>rs. load_block_index sample_lib (Inr sample_db) = Ok rs \<and> rs \<noteq> []"
  using load_block_index_no_panic [OF sample_valid_records(2) sample_parents]
  by (auto simp: sample_valid_records)

end
