(* ===== verification/Tx_Index.thy ===== *)
theory Tx_Index
  imports Block_Index
begin

text \<open>
  \<open>parser/tx_index.rs\<close>: the transaction index (LevelDB), which gives the disk position of a
  transaction from its txid, and through the positions of the blocks also the height of the block
  that holds it.
\<close>

definition GENESIS_TXID :: string where
  "GENESIS_TXID = ''4a5e1e4baab89f3a32518a88c31bc87f618f76673e2cc77ab2127b7afdeda33b''"

text \<open>\<open>TxKey\<close>, the key type LevelDB is asked with.\<close>

record tx_key =
  tk_key :: "byte list"

definition tx_key_from_u8 :: "byte list \<Rightarrow> tx_key" where
  "tx_key_from_u8 key = \<lparr>tk_key = key\<rparr>"

definition tx_key_as_slice :: "(byte list \<Rightarrow> 't) \<Rightarrow> tx_key \<Rightarrow> 't" where
  "tx_key_as_slice f k = f (tk_key k)"

lemma tx_key_slice [simp]: "tx_key_as_slice f (tx_key_from_u8 key) = f key"
  by (simp add: tx_key_as_slice_def tx_key_from_u8_def)

record transaction_position =
  tp_txid :: hash256
  tp_n_file :: i32
  tp_n_data_pos :: u32
  tp_n_tx_offset :: u32

record tx_db =
  td_db :: leveldb
  td_file_pos_to_height :: "i32 \<times> u32 \<rightharpoonup> i32"
  td_genesis_txid :: hash256

text \<open>
  \<open>TxDB::open\<close>: \<open>None\<close> when the directory does not exist or the database does not open. The parser
  \<open>Txid::from_str\<close> of the \<open>bitcoin\<close> crate is the argument \<open>from_str\<close>, and its \<open>expect\<close> a panic. A key
  that occurs twice keeps its last value, as collecting into a \<open>BTreeMap\<close> does.
\<close>

definition file_positions :: "block_index_record list \<Rightarrow> (i32 \<times> u32 \<rightharpoonup> i32)" where
  "file_positions rs = foldl (\<lambda>m b. m((n_file b, n_data_pos b) \<mapsto> n_height b)) Map.empty rs"

definition tx_db_open ::
  "(string \<Rightarrow> string + hash256) \<Rightarrow> bool \<Rightarrow> (string + leveldb) \<Rightarrow> block_index \<Rightarrow> tx_db option result" where
  "tx_db_open from_str path_exists opened blk_index =
     (if \<not> path_exists then Ok None
      else case opened of
             Inl e \<Rightarrow> Ok None
           | Inr db \<Rightarrow>
               (case from_str GENESIS_TXID of
                  Inl e \<Rightarrow> Panic
                | Inr txid \<Rightarrow>
                    Ok (Some \<lparr>td_db = db, td_file_pos_to_height = file_positions (bi_records blk_index),
                              td_genesis_txid = txid\<rparr>)))"

definition is_genesis_tx :: "tx_db \<Rightarrow> hash256 \<Rightarrow> bool" where
  "is_genesis_tx td txid \<longleftrightarrow> txid = td_genesis_txid td"

definition get_tx_position :: "tx_db \<Rightarrow> hash256 \<Rightarrow> transaction_position result" where
  "get_tx_position td txid =
     (let key = 0x74 # txid
      in bind_result (lift_err Leveldb (ldb_get (td_db td) key)) (\<lambda>value.
         case value of
           None \<Rightarrow> Err (TransactionRecordNotFound txid)
         | Some value \<Rightarrow>
             bind_result (read_varint cursor_exact (cursor_new value)) (\<lambda>(fileno, c).
             bind_result (read_varint cursor_exact c) (\<lambda>(data_pos, c).
             bind_result (read_varint cursor_exact c) (\<lambda>(tx_offset, c).
               Ok \<lparr>tp_txid = txid, tp_n_file = ucast fileno, tp_n_data_pos = ucast data_pos,
                   tp_n_tx_offset = ucast tx_offset\<rparr>)))))"

text \<open>\<open>*height as usize\<close> sign-extends.\<close>

definition i32_as_usize :: "i32 \<Rightarrow> nat" where
  "i32_as_usize h = unat (scast h :: usize)"

definition tx_block_height :: "tx_db \<Rightarrow> hash256 \<Rightarrow> nat result" where
  "tx_block_height td txid =
     (if is_genesis_tx td txid then Ok 0
      else bind_result (get_tx_position td txid) (\<lambda>tx_pos.
             case td_file_pos_to_height td (tp_n_file tx_pos, tp_n_data_pos tx_pos) of
               Some height \<Rightarrow> Ok (i32_as_usize height)
             | None \<Rightarrow> Err (CannotFindHeightForTransaction txid)))"

section \<open>Positions\<close>

lemma get_tx_position_bytes:
  assumes "ldb_get (td_db td) (0x74 # txid)
    = Inr (Some (varint_bytes fileno @ varint_bytes data_pos @ varint_bytes tx_offset @ bs))"
  shows "get_tx_position td txid =
    Ok \<lparr>tp_txid = txid, tp_n_file = word_of_nat fileno, tp_n_data_pos = word_of_nat data_pos,
        tp_n_tx_offset = word_of_nat tx_offset\<rparr>"
  unfolding get_tx_position_def Let_def assms
  apply (simp only: lift_err.simps bind_result.simps option.case)
  apply (rule bind_varint, simp, simp only: prod.case)
  apply (rule bind_varint, assumption, simp only: prod.case)
  apply (rule bind_varint, assumption, simp only: prod.case ucast_of_nat_u64)
  done

lemma get_tx_position_returns: "returns (get_tx_position td txid)"
  unfolding get_tx_position_def Let_def
  by (auto simp: split_beta split: option.split intro!: returns_bind cur.exactly.read_varint_returns)

text \<open>
  Looking a transaction up: the key is the byte \<open>t\<close> and the txid, and on the three varints Bitcoin
  Core stores there the position returned is exactly the file, block position and offset; a txid that
  is not stored is reported as \<open>TransactionRecordNotFound\<close>, a database failure as an error, and no
  lookup panics or loops whatever bytes are stored.
\<close>

theorem get_tx_position_lookup:
  "(case ldb_get (td_db td) (0x74 # txid) of
      Inl e \<Rightarrow> get_tx_position td txid = Err (Leveldb e)
    | Inr None \<Rightarrow> get_tx_position td txid = Err (TransactionRecordNotFound txid)
    | Inr (Some bytes) \<Rightarrow>
        returns (get_tx_position td txid)
        \<and> (\<forall>fileno data_pos tx_offset bs.
             bytes = varint_bytes fileno @ varint_bytes data_pos @ varint_bytes tx_offset @ bs \<longrightarrow>
             get_tx_position td txid =
               Ok \<lparr>tp_txid = txid, tp_n_file = word_of_nat fileno, tp_n_data_pos = word_of_nat data_pos,
                   tp_n_tx_offset = word_of_nat tx_offset\<rparr>))"
proof (cases "ldb_get (td_db td) (0x74 # txid)")
  case (Inl e)
  then show ?thesis by (simp add: get_tx_position_def)
next
  case (Inr v)
  then show ?thesis
    using get_tx_position_bytes [of td txid] get_tx_position_returns [of td txid]
    by (cases v) (auto simp: get_tx_position_def)
qed

theorem get_tx_position_lookup_witness:
  "get_tx_position \<lparr>td_db = sample_db, td_file_pos_to_height = Map.empty, td_genesis_txid = sample_hash 0\<rparr> (sample_hash 9)
     = Ok \<lparr>tp_txid = sample_hash 9, tp_n_file = 0, tp_n_data_pos = 8, tp_n_tx_offset = 5\<rparr>"
proof -
  let ?td = "\<lparr>td_db = sample_db, td_file_pos_to_height = Map.empty, td_genesis_txid = sample_hash 0\<rparr>"
  have found: "ldb_get (td_db ?td) (0x74 # sample_hash 9) = Inr (Some [0, 8, 5])"
    by (simp add: sample_db_def)
  have "[0, 8, 5] = varint_bytes 0 @ varint_bytes 8 @ varint_bytes 5 @ []"
    by (simp add: varint_bytes_def)
  then have "get_tx_position ?td (sample_hash 9)
      = Ok \<lparr>tp_txid = sample_hash 9, tp_n_file = word_of_nat 0, tp_n_data_pos = word_of_nat 8, tp_n_tx_offset = word_of_nat 5\<rparr>"
    using get_tx_position_lookup [of ?td "sample_hash 9", unfolded found sum.case option.case] by blast
  then show ?thesis by simp
qed

section \<open>Heights\<close>

lemma i32_as_usize_nonneg: "0 \<le> sint h \<Longrightarrow> int (i32_as_usize h) = sint h"
proof -
  assume pos: "0 \<le> sint h"
  have "sint h < 2 ^ 31" using sint_lt [of h] by simp
  moreover have "(scast h :: usize) = word_of_int (sint h)" by simp
  ultimately show ?thesis
    using pos by (simp add: i32_as_usize_def unsigned_of_int take_bit_eq_mod del: of_int_sint)
qed

lemma foldl_positions:
  "foldl (\<lambda>m b. m((n_file b, n_data_pos b) \<mapsto> n_height b)) m rs
     = m ++ map_of (rev (map (\<lambda>b. ((n_file b, n_data_pos b), n_height b)) rs))"
  by (induction rs arbitrary: m) auto

lemma file_positions_SomeD:
  assumes "file_positions rs p = Some h"
  shows "\<exists>r \<in> set rs. (n_file r, n_data_pos r) = p \<and> n_height r = h"
  using assms map_of_SomeD [of "rev (map (\<lambda>b. ((n_file b, n_data_pos b), n_height b)) rs)" p h]
  by (auto simp: file_positions_def foldl_positions)

lemma file_positions_distinct:
  assumes "distinct (map (\<lambda>r. (n_file r, n_data_pos r)) rs)" and "r \<in> set rs"
  shows "file_positions rs (n_file r, n_data_pos r) = Some (n_height r)"
proof -
  let ?ps = "rev (map (\<lambda>b. ((n_file b, n_data_pos b), n_height b)) rs)"
  have "map fst ?ps = rev (map (\<lambda>r. (n_file r, n_data_pos r)) rs)"
    by (simp add: rev_map comp_def)
  with assms(1) have "distinct (map fst ?ps)" by simp
  then have "map_of ?ps (n_file r, n_data_pos r) = Some (n_height r)"
    using assms(2) by (intro map_of_is_SomeI) auto
  then show ?thesis by (simp add: file_positions_def foldl_positions)
qed

lemma tx_db_open_Ok:
  "tx_db_open from_str ex opened bi = Ok (Some td) \<Longrightarrow>
     td_file_pos_to_height td = file_positions (bi_records bi)"
  by (auto simp: tx_db_open_def split: if_splits sum.splits)

text \<open>
  The height of a transaction is that of the block at its position. On an index opened over a
  loaded chain, a height that is found is 0 for the genesis transaction and otherwise the index of a
  record whose file and position are those of the transaction; and when blocks have distinct
  positions, a transaction stored in the block of record \<open>i\<close> has height \<open>i\<close>.
\<close>

theorem tx_block_height_correct:
  assumes "is_chain L (bi_records bi)" and "tx_db_open from_str ex opened bi = Ok (Some td)"
    and "\<not> is_genesis_tx td txid" and "get_tx_position td txid = Ok pos"
  shows "(tx_block_height td txid = Ok h \<longrightarrow>
      h < length (bi_records bi) \<and> n_file (bi_records bi ! h) = tp_n_file pos
      \<and> n_data_pos (bi_records bi ! h) = tp_n_data_pos pos)
    \<and> (distinct (map (\<lambda>r. (n_file r, n_data_pos r)) (bi_records bi)) \<longrightarrow>
       (\<forall>i < length (bi_records bi). n_file (bi_records bi ! i) = tp_n_file pos
          \<and> n_data_pos (bi_records bi ! i) = tp_n_data_pos pos \<longrightarrow> tx_block_height td txid = Ok i))"
proof (intro conjI impI allI)
  let ?rs = "bi_records bi"
  note tbl = tx_db_open_Ok [OF assms(2)]
  have height: "i32_as_usize (n_height (?rs ! i)) = i" if "i < length ?rs" for i
    using assms(1) that i32_as_usize_nonneg [of "n_height (?rs ! i)"] by (simp add: is_chain_def)
  {
    assume "tx_block_height td txid = Ok h"
    with assms(3,4) obtain k where "file_positions ?rs (tp_n_file pos, tp_n_data_pos pos) = Some k"
        "h = i32_as_usize k"
      by (auto simp: tx_block_height_def tbl split: option.splits)
    with file_positions_SomeD obtain i where i: "i < length ?rs" "n_file (?rs ! i) = tp_n_file pos"
        "n_data_pos (?rs ! i) = tp_n_data_pos pos" "h = i32_as_usize (n_height (?rs ! i))"
      by (fastforce simp: in_set_conv_nth)
    with height [OF i(1)] show "h < length ?rs" and "n_file (?rs ! h) = tp_n_file pos"
      and "n_data_pos (?rs ! h) = tp_n_data_pos pos" by simp_all
  }
  fix i
  assume "distinct (map (\<lambda>r. (n_file r, n_data_pos r)) ?rs)" and i: "i < length ?rs"
    and "n_file (?rs ! i) = tp_n_file pos \<and> n_data_pos (?rs ! i) = tp_n_data_pos pos"
  with file_positions_distinct [of ?rs "?rs ! i"] height [OF i] assms(3,4)
  show "tx_block_height td txid = Ok i"
    by (simp add: tx_block_height_def tbl)
qed

theorem tx_block_height_correct_witness:
  "\<exists>td. tx_db_open (\<lambda>_. Inr (sample_hash 0)) True (Inr sample_db)
      \<lparr>bi_records = [sample_record 1 0 0 8, sample_record 2 1 1 50], bi_hash_to_height = Map.empty\<rparr> = Ok (Some td)
     \<and> tx_block_height td (sample_hash 9) = Ok 0"
proof -
  let ?bi = "\<lparr>bi_records = [sample_record 1 0 0 8, sample_record 2 1 1 50], bi_hash_to_height = Map.empty\<rparr>"
  let ?td = "\<lparr>td_db = sample_db, td_file_pos_to_height = file_positions (bi_records ?bi),
              td_genesis_txid = sample_hash 0\<rparr>"
  have opened: "tx_db_open (\<lambda>_. Inr (sample_hash 0)) True (Inr sample_db) ?bi = Ok (Some ?td)"
    by (simp add: tx_db_open_def)
  have chain: "is_chain sample_lib (bi_records ?bi)"
    by (auto simp: is_chain_def less_Suc_eq)
  have not_genesis: "\<not> is_genesis_tx ?td (sample_hash 9)"
    by (simp add: is_genesis_tx_def)
  have "get_tx_position ?td (sample_hash 9) = Ok \<lparr>tp_txid = sample_hash 9, tp_n_file = word_of_nat 0,
      tp_n_data_pos = word_of_nat 8, tp_n_tx_offset = word_of_nat 5\<rparr>"
    by (rule get_tx_position_bytes [where bs = "[]"]) (simp add: sample_db_def varint_bytes_def)
  from tx_block_height_correct [OF chain opened not_genesis this, of 0] opened show ?thesis
    by auto
qed

end
