(* ===== verification/Connected_Block.thy ===== *)
theory Connected_Block
  imports Block_Types Blk_File Tx_Index
begin

text \<open>
  \<open>parser/block_types/connected_block.rs\<close>: transactions and blocks whose inputs are replaced by the
  outputs they spend, found through the transaction index. The traits \<open>ConnectedTx\<close> and
  \<open>ConnectedBlock\<close> are records of their functions, with one instance for each implementor; the
  locale \<open>connected_tx\<close> states what the generic code relies on, and both implementors are
  interpretations of it. A block is connected in one parallel batch over the inputs of all its
  transactions; the main lemma is that the batch gives what connecting each transaction gives.
\<close>

section \<open>Types and traits\<close>

record 'addr compact_connected_transaction =
  cct_txid :: hash256
  cct_input :: "'addr compact_txout list"
  cct_output :: "'addr compact_txout list"

record 'addr compact_connected_block =
  ccb_header :: compact_block_header
  ccb_txdata :: "'addr compact_connected_transaction list"

record 'addr full_connected_transaction =
  fct_version :: i32
  fct_lock_time :: u32
  fct_txid :: hash256
  fct_input :: "'addr full_txout list"
  fct_output :: "'addr full_txout list"

record 'addr full_connected_block =
  fcb_header :: full_block_header
  fcb_txdata :: "'addr full_connected_transaction list"

text \<open>The functions of \<open>trait ConnectedTx\<close>; \<open>ctx_out\<close> is \<open>From<TxOut>\<close> of the associated type.\<close>

record ('tx, 'out) connected_tx_impl =
  ctx_from :: "transaction \<Rightarrow> 'tx result"
  ctx_add_input :: "'out \<Rightarrow> 'tx \<Rightarrow> 'tx"
  ctx_out :: "txout \<Rightarrow> 'out result"

text \<open>The functions of \<open>trait ConnectedBlock\<close>.\<close>

record ('blk, 'tx) connected_block_impl =
  cbk_from :: "header \<Rightarrow> hash256 \<Rightarrow> 'blk"
  cbk_add_tx :: "'tx \<Rightarrow> 'blk \<Rightarrow> 'blk"

definition full_connected_tx_from ::
  "bitcoin_lib \<Rightarrow> ('pk, 'addr) script_lib \<Rightarrow> transaction \<Rightarrow> 'addr full_connected_transaction result" where
  "full_connected_tx_from L S tx =
     bind_result (mapM_result (full_txout_from S) (tx_output tx)) (\<lambda>output.
       Ok \<lparr>fct_version = tx_version tx, fct_lock_time = tx_lock_time tx, fct_txid = compute_txid L tx,
           fct_input = [], fct_output = output\<rparr>)"

definition full_connected_tx_add_input ::
  "'addr full_txout \<Rightarrow> 'addr full_connected_transaction \<Rightarrow> 'addr full_connected_transaction" where
  "full_connected_tx_add_input input tx = tx\<lparr>fct_input := fct_input tx @ [input]\<rparr>"

definition full_tx_impl ::
  "bitcoin_lib \<Rightarrow> ('pk, 'addr) script_lib \<Rightarrow> ('addr full_connected_transaction, 'addr full_txout) connected_tx_impl" where
  "full_tx_impl L S = \<lparr>ctx_from = full_connected_tx_from L S, ctx_add_input = full_connected_tx_add_input,
     ctx_out = full_txout_from S\<rparr>"

definition compact_connected_tx_from ::
  "bitcoin_lib \<Rightarrow> ('pk, 'addr) script_lib \<Rightarrow> transaction \<Rightarrow> 'addr compact_connected_transaction result" where
  "compact_connected_tx_from L S tx =
     bind_result (mapM_result (compact_txout_from S) (tx_output tx)) (\<lambda>output.
       Ok \<lparr>cct_txid = compute_txid L tx, cct_input = [], cct_output = output\<rparr>)"

definition compact_connected_tx_add_input ::
  "'addr compact_txout \<Rightarrow> 'addr compact_connected_transaction \<Rightarrow> 'addr compact_connected_transaction" where
  "compact_connected_tx_add_input input tx = tx\<lparr>cct_input := cct_input tx @ [input]\<rparr>"

definition compact_tx_impl ::
  "bitcoin_lib \<Rightarrow> ('pk, 'addr) script_lib \<Rightarrow> ('addr compact_connected_transaction, 'addr compact_txout) connected_tx_impl" where
  "compact_tx_impl L S = \<lparr>ctx_from = compact_connected_tx_from L S,
     ctx_add_input = compact_connected_tx_add_input, ctx_out = compact_txout_from S\<rparr>"

definition full_connected_block_from :: "header \<Rightarrow> hash256 \<Rightarrow> 'addr full_connected_block" where
  "full_connected_block_from hdr hash =
     \<lparr>fcb_header = full_block_header_parse hdr hash, fcb_txdata = []\<rparr>"

definition full_connected_block_add_tx ::
  "'addr full_connected_transaction \<Rightarrow> 'addr full_connected_block \<Rightarrow> 'addr full_connected_block" where
  "full_connected_block_add_tx tx b = b\<lparr>fcb_txdata := fcb_txdata b @ [tx]\<rparr>"

definition full_block_impl ::
  "('addr full_connected_block, 'addr full_connected_transaction) connected_block_impl" where
  "full_block_impl = \<lparr>cbk_from = full_connected_block_from, cbk_add_tx = full_connected_block_add_tx\<rparr>"

definition compact_connected_block_from :: "header \<Rightarrow> hash256 \<Rightarrow> 'addr compact_connected_block" where
  "compact_connected_block_from hdr hash =
     \<lparr>ccb_header = compact_block_header_new hdr hash, ccb_txdata = []\<rparr>"

definition compact_connected_block_add_tx ::
  "'addr compact_connected_transaction \<Rightarrow> 'addr compact_connected_block \<Rightarrow> 'addr compact_connected_block" where
  "compact_connected_block_add_tx tx b = b\<lparr>ccb_txdata := ccb_txdata b @ [tx]\<rparr>"

definition compact_block_impl ::
  "('addr compact_connected_block, 'addr compact_connected_transaction) connected_block_impl" where
  "compact_block_impl = \<lparr>cbk_from = compact_connected_block_from, cbk_add_tx = compact_connected_block_add_tx\<rparr>"

section \<open>Connecting through the transaction index\<close>

text \<open>
  The parallel iterators of \<open>rayon\<close> are a parameter: \<open>par_iter().map(f).collect()\<close> and
  \<open>par_iter().filter_map(f).collect()\<close>. They are documented to keep the order of the items.
\<close>

record rayon =
  par_map_collect :: "(txin \<Rightarrow> txout option result) \<Rightarrow> txin list \<Rightarrow> txout option list result"
  par_filter_map_collect :: "(txin \<Rightarrow> txout option result) \<Rightarrow> txin list \<Rightarrow> txout list result"

definition rayon_doc :: "rayon \<Rightarrow> bool" where
  "rayon_doc R \<longleftrightarrow>
     (\<forall>ci f xs. (\<forall>x \<in> set xs. ci x = Ok (f x)) \<longrightarrow>
        par_map_collect R ci xs = Ok (map f xs) \<and> par_filter_map_collect R ci xs = Ok (List.map_filter f xs))"

text \<open>\<open>Vec::swap_remove\<close>, of which only the removed item is used: a panic out of range.\<close>

definition swap_remove :: "'a list \<Rightarrow> nat \<Rightarrow> 'a result" where
  "swap_remove xs i = (if i < length xs then Ok (xs ! i) else Panic)"

definition is_coin_base :: "bitcoin_lib \<Rightarrow> txin \<Rightarrow> bool" where
  "is_coin_base L tx_in \<longleftrightarrow> is_null L (previous_output tx_in)"

text \<open>\<open>n >= len as u32\<close> compares 32-bit numbers; an error of a lookup or of a read gives \<open>None\<close>.\<close>

definition connect_input ::
  "filesystem \<Rightarrow> bitcoin_lib \<Rightarrow> tx_db \<Rightarrow> block_index \<Rightarrow> blk_file \<Rightarrow> txin \<Rightarrow> txout option result" where
  "connect_input fs L td blk_index bf tx_in =
     (if is_coin_base L tx_in then Ok None
      else
        (let outpoint = previous_output tx_in;
             tx_id = op_txid outpoint
         in if is_genesis_tx td tx_id then
              (case bi_records blk_index of
                 [] \<Rightarrow> Ok None
               | pos # _ \<Rightarrow>
                   (case read_block fs L bf (n_file pos) (n_data_pos pos) of
                      Ok blk \<Rightarrow>
                        bind_result (swap_remove (txdata blk) 0) (\<lambda>tx.
                        bind_result (swap_remove (tx_output tx) 0) (\<lambda>out. Ok (Some out)))
                    | Err _ \<Rightarrow> Ok None
                    | Panic \<Rightarrow> Panic
                    | Diverge \<Rightarrow> Diverge))
            else
              (let n = op_vout outpoint
               in case get_tx_position td tx_id of
                    Ok tx_pos \<Rightarrow>
                      (case read_transaction fs L bf (tp_n_file tx_pos) (tp_n_data_pos tx_pos) (tp_n_tx_offset tx_pos) of
                         Ok tx \<Rightarrow>
                           (if (word_of_nat (length (tx_output tx)) :: u32) \<le> n then Ok None
                            else bind_result (swap_remove (tx_output tx) (unat n)) (\<lambda>out. Ok (Some out)))
                       | Err _ \<Rightarrow> Ok None
                       | Panic \<Rightarrow> Panic
                       | Diverge \<Rightarrow> Diverge)
                  | Err _ \<Rightarrow> Ok None
                  | Panic \<Rightarrow> Panic
                  | Diverge \<Rightarrow> Diverge)))"

definition connect_tx_inputs ::
  "rayon \<Rightarrow> filesystem \<Rightarrow> bitcoin_lib \<Rightarrow> txin list \<Rightarrow> bool \<Rightarrow> tx_db \<Rightarrow> block_index \<Rightarrow> blk_file \<Rightarrow> txout list result" where
  "connect_tx_inputs R fs L tx_in coinbase td blk_index bf =
     bind_result (par_filter_map_collect R (connect_input fs L td blk_index bf) tx_in) (\<lambda>connected_outputs.
       (let outpoints_count = (if coinbase then 0 else length tx_in);
            received = length connected_outputs
        in if received \<noteq> outpoints_count then Err (MissingOutputs outpoints_count received)
           else Ok connected_outputs))"

text \<open>The \<open>for\<close> loop over the inputs of a transaction: one \<open>pop_front().unwrap()\<close> for each.\<close>

fun pop_outputs :: "txin list \<Rightarrow> txout option list \<Rightarrow> txout list \<Rightarrow> (txout list \<times> txout option list) result" where
  "pop_outputs [] connected_outputs outputs = Ok (outputs, connected_outputs)"
| "pop_outputs (_ # ins) [] outputs = Panic"
| "pop_outputs (_ # ins) (connected_out # connected_outputs) outputs =
     pop_outputs ins connected_outputs
       (case connected_out of Some out \<Rightarrow> outputs @ [out] | None \<Rightarrow> outputs)"

text \<open>\<open>for output in outputs { tx.add_input(output.into()) }\<close>\<close>

primrec add_inputs :: "('tx, 'out) connected_tx_impl \<Rightarrow> txout list \<Rightarrow> 'tx \<Rightarrow> 'tx result" where
  "add_inputs T [] tx = Ok tx"
| "add_inputs T (output # outputs) tx =
     bind_result (ctx_out T output) (\<lambda>input. add_inputs T outputs (ctx_add_input T input tx))"

fun reconstruct_block ::
  "('tx, 'out) connected_tx_impl \<Rightarrow> bitcoin_lib \<Rightarrow> transaction list \<Rightarrow> txout option list \<Rightarrow> 'tx list \<Rightarrow> 'tx list result" where
  "reconstruct_block T L [] connected_outputs connected_tx = Ok connected_tx"
| "reconstruct_block T L (tx # transactions) connected_outputs connected_tx =
     (let outpoints_count = (if is_coinbase L tx then 0 else length (tx_input tx))
      in bind_result (pop_outputs (tx_input tx) connected_outputs []) (\<lambda>(outputs, connected_outputs).
           if length outputs \<noteq> outpoints_count then Err (MissingOutputs outpoints_count (length outputs))
           else bind_result (ctx_from T tx) (\<lambda>ctx.
                bind_result (add_inputs T outputs ctx) (\<lambda>ctx.
                  reconstruct_block T L transactions connected_outputs (connected_tx @ [ctx])))))"

definition connect_block_inputs ::
  "rayon \<Rightarrow> ('tx, 'out) connected_tx_impl \<Rightarrow> filesystem \<Rightarrow> bitcoin_lib \<Rightarrow> transaction list \<Rightarrow> tx_db \<Rightarrow> block_index \<Rightarrow> blk_file \<Rightarrow> 'tx list result" where
  "connect_block_inputs R T fs L transactions td blk_index bf =
     (let all_tx_in = concat (map tx_input transactions)
      in bind_result (par_map_collect R (connect_input fs L td blk_index bf) all_tx_in) (\<lambda>connected_outputs.
           reconstruct_block T L transactions connected_outputs []))"

definition full_connected_tx_connect ::
  "rayon \<Rightarrow> filesystem \<Rightarrow> bitcoin_lib \<Rightarrow> ('pk, 'addr) script_lib \<Rightarrow> transaction \<Rightarrow> tx_db \<Rightarrow> block_index \<Rightarrow> blk_file \<Rightarrow> 'addr full_connected_transaction result" where
  "full_connected_tx_connect R fs L S tx td blk_index bf =
     (let coinbase = is_coinbase L tx
      in bind_result (connect_tx_inputs R fs L (tx_input tx) coinbase td blk_index bf) (\<lambda>outs.
         bind_result (mapM_result (full_txout_from S) outs) (\<lambda>input.
         bind_result (mapM_result (full_txout_from S) (tx_output tx)) (\<lambda>output.
           Ok \<lparr>fct_version = tx_version tx, fct_lock_time = tx_lock_time tx, fct_txid = compute_txid L tx,
               fct_input = input, fct_output = output\<rparr>))))"

definition compact_connected_tx_connect ::
  "rayon \<Rightarrow> filesystem \<Rightarrow> bitcoin_lib \<Rightarrow> ('pk, 'addr) script_lib \<Rightarrow> transaction \<Rightarrow> tx_db \<Rightarrow> block_index \<Rightarrow> blk_file \<Rightarrow> 'addr compact_connected_transaction result" where
  "compact_connected_tx_connect R fs L S tx td blk_index bf =
     (let coinbase = is_coinbase L tx
      in bind_result (connect_tx_inputs R fs L (tx_input tx) coinbase td blk_index bf) (\<lambda>outs.
         bind_result (mapM_result (compact_txout_from S) outs) (\<lambda>input.
         bind_result (mapM_result (compact_txout_from S) (tx_output tx)) (\<lambda>output.
           Ok \<lparr>cct_txid = compute_txid L tx, cct_input = input, cct_output = output\<rparr>))))"

definition full_connected_block_connect ::
  "rayon \<Rightarrow> filesystem \<Rightarrow> bitcoin_lib \<Rightarrow> ('pk, 'addr) script_lib \<Rightarrow> block \<Rightarrow> tx_db \<Rightarrow> block_index \<Rightarrow> blk_file \<Rightarrow> 'addr full_connected_block result" where
  "full_connected_block_connect R fs L S blk td blk_index bf =
     (let hash = block_hash L (blk_header blk)
      in bind_result (connect_block_inputs R (full_tx_impl L S) fs L (txdata blk) td blk_index bf) (\<lambda>txs.
           Ok \<lparr>fcb_header = full_block_header_parse (blk_header blk) hash, fcb_txdata = txs\<rparr>))"

definition compact_connected_block_connect ::
  "rayon \<Rightarrow> filesystem \<Rightarrow> bitcoin_lib \<Rightarrow> ('pk, 'addr) script_lib \<Rightarrow> block \<Rightarrow> tx_db \<Rightarrow> block_index \<Rightarrow> blk_file \<Rightarrow> 'addr compact_connected_block result" where
  "compact_connected_block_connect R fs L S blk td blk_index bf =
     (let hash = block_hash L (blk_header blk)
      in bind_result (connect_block_inputs R (compact_tx_impl L S) fs L (txdata blk) td blk_index bf) (\<lambda>txs.
           Ok \<lparr>ccb_header = compact_block_header_new (blk_header blk) hash, ccb_txdata = txs\<rparr>))"

section \<open>The contract of the trait\<close>

text \<open>
  What the generic code relies on: \<open>from\<close> starts with no inputs, \<open>add_input\<close> appends one, and
  \<open>connect\<close> is the transaction with all its connected inputs. \<open>build tx is\<close> is the connected
  transaction with inputs \<open>is\<close>; \<open>good\<close> is what makes conversions total.
\<close>

locale connected_tx =
  fixes good :: bool
    and L :: bitcoin_lib
    and T :: "('tx, 'out) connected_tx_impl"
    and conv :: "txout \<Rightarrow> 'out"
    and build :: "transaction \<Rightarrow> 'out list \<Rightarrow> 'tx"
    and connect :: "rayon \<Rightarrow> filesystem \<Rightarrow> transaction \<Rightarrow> tx_db \<Rightarrow> block_index \<Rightarrow> blk_file \<Rightarrow> 'tx result"
  assumes out_ok: "good \<Longrightarrow> ctx_out T out = Ok (conv out)"
    and from_ok: "good \<Longrightarrow> ctx_from T tx = Ok (build tx [])"
    and add_input: "ctx_add_input T i (build tx is) = build tx (is @ [i])"
    and connect_ok: "good \<Longrightarrow> connect R fs tx td bi bf =
      bind_result (connect_tx_inputs R fs L (tx_input tx) (is_coinbase L tx) td bi bf)
        (\<lambda>outs. Ok (build tx (map conv outs)))"
begin

lemma add_inputs_build: "good \<Longrightarrow> add_inputs T outs (build tx is) = Ok (build tx (is @ map conv outs))"
  by (induction outs arbitrary: "is") (simp_all add: out_ok add_input)

end

definition full_connected_of ::
  "bitcoin_lib \<Rightarrow> ('pk, 'addr) script_lib \<Rightarrow> transaction \<Rightarrow> 'addr full_txout list \<Rightarrow> 'addr full_connected_transaction" where
  "full_connected_of L S tx is = \<lparr>fct_version = tx_version tx, fct_lock_time = tx_lock_time tx,
     fct_txid = compute_txid L tx, fct_input = is, fct_output = map (full_txout_of S) (tx_output tx)\<rparr>"

definition compact_connected_of ::
  "bitcoin_lib \<Rightarrow> ('pk, 'addr) script_lib \<Rightarrow> transaction \<Rightarrow> 'addr compact_txout list \<Rightarrow> 'addr compact_connected_transaction" where
  "compact_connected_of L S tx is = \<lparr>cct_txid = compute_txid L tx, cct_input = is,
     cct_output = map (compact_txout_of S) (tx_output tx)\<rparr>"

interpretation full_tx: connected_tx "p2pk_doc S" L "full_tx_impl L S" "full_txout_of S"
  "full_connected_of L S" "\<lambda>R fs. full_connected_tx_connect R fs L S" for S L
  by unfold_locales
    (simp_all add: full_tx_impl_def full_connected_tx_from_def full_connected_tx_add_input_def
      full_connected_tx_connect_def full_connected_of_def full_txout_from_ok full_txouts_ok)

interpretation compact_tx: connected_tx "p2pk_doc S" L "compact_tx_impl L S" "compact_txout_of S"
  "compact_connected_of L S" "\<lambda>R fs. compact_connected_tx_connect R fs L S" for S L
  by unfold_locales
    (simp_all add: compact_tx_impl_def compact_connected_tx_from_def compact_connected_tx_add_input_def
      compact_connected_tx_connect_def compact_connected_of_def compact_txout_from_ok compact_txouts_ok)

section \<open>Connecting one input\<close>

lemma read_raw_block_returns: "mask_ok (bf_xor_mask bf) \<Longrightarrow> returns (read_raw_block fs bf n off)"
proof -
  assume mask: "mask_ok (bf_xor_mask bf)"
  show ?thesis
  proof (cases "blk_view fs bf n")
    case None
    then show ?thesis
      by (auto simp: blk_view_def read_raw_block_def open_at_def split: option.splits sum.splits)
  next
    case (Some v)
    show ?thesis
      unfolding read_raw_block_eq [OF mask Some] by (auto simp: raw_block_spec_def Let_def)
  qed
qed

lemma read_block_returns: "mask_ok (bf_xor_mask bf) \<Longrightarrow> returns (read_block fs L bf n off)"
  using read_raw_block_returns [of bf fs n off]
  by (auto simp: read_block_def read_decodable_def cursor_decode_def split: sum.splits prod.splits)

lemma read_transaction_returns: "mask_ok (bf_xor_mask bf) \<Longrightarrow> returns (read_transaction fs L bf n pos off)"
proof -
  assume mask: "mask_ok (bf_xor_mask bf)"
  show ?thesis
  proof (cases "blk_view fs bf n")
    case None
    then show ?thesis
      by (auto simp: blk_view_def read_transaction_def open_at_def split: option.splits sum.splits)
  next
    case (Some v)
    show ?thesis
      unfolding read_transaction_eq [OF mask Some] by (auto split: sum.splits)
  qed
qed

text \<open>The genesis block, when it is read at all, has a transaction with an output.\<close>

definition genesis_readable :: "filesystem \<Rightarrow> bitcoin_lib \<Rightarrow> block_index \<Rightarrow> blk_file \<Rightarrow> bool" where
  "genesis_readable fs L bi bf \<longleftrightarrow>
     (case bi_records bi of
        [] \<Rightarrow> True
      | pos # _ \<Rightarrow> (case read_block fs L bf (n_file pos) (n_data_pos pos) of
          Ok blk \<Rightarrow> txdata blk \<noteq> [] \<and> tx_output (hd (txdata blk)) \<noteq> []
        | _ \<Rightarrow> True))"

lemma word_of_nat_le_u32: "\<not> (word_of_nat k :: u32) \<le> n \<Longrightarrow> unat n < k"
proof -
  assume "\<not> (word_of_nat k :: u32) \<le> n"
  then have "unat n < unat (word_of_nat k :: u32)" by (simp add: word_less_nat_alt not_le)
  also have "\<dots> \<le> k" by (simp add: unat_of_nat)
  finally show ?thesis .
qed

lemma connect_input_ok:
  assumes "mask_ok (bf_xor_mask bf)" and "genesis_readable fs L bi bf"
  shows "\<exists>r. connect_input fs L td bi bf i = Ok r"
proof -
  have genesis: "\<exists>r. (case bi_records bi of [] \<Rightarrow> Ok None | pos # _ \<Rightarrow>
      (case read_block fs L bf (n_file pos) (n_data_pos pos) of
         Ok blk \<Rightarrow> bind_result (swap_remove (txdata blk) 0) (\<lambda>tx.
           bind_result (swap_remove (tx_output tx) 0) (\<lambda>out. Ok (Some out)))
       | Err _ \<Rightarrow> Ok None | Panic \<Rightarrow> Panic | Diverge \<Rightarrow> Diverge)) = Ok r"
    using assms(2) read_block_returns [OF assms(1), of fs L]
    by (force simp: genesis_readable_def swap_remove_def hd_conv_nth returns_def
        split: list.splits result.splits)
  have indexed: "\<exists>r. (case get_tx_position td t of
      Ok p \<Rightarrow> (case read_transaction fs L bf (tp_n_file p) (tp_n_data_pos p) (tp_n_tx_offset p) of
         Ok tx \<Rightarrow> (if (word_of_nat (length (tx_output tx)) :: u32) \<le> n then Ok None
            else bind_result (swap_remove (tx_output tx) (unat n)) (\<lambda>out. Ok (Some out)))
       | Err _ \<Rightarrow> Ok None | Panic \<Rightarrow> Panic | Diverge \<Rightarrow> Diverge)
     | Err _ \<Rightarrow> Ok None | Panic \<Rightarrow> Panic | Diverge \<Rightarrow> Diverge) = Ok r" for t n
    using get_tx_position_returns [of td t] read_transaction_returns [OF assms(1), of fs L]
    by (auto simp: swap_remove_def returns_iff word_of_nat_le_u32 split: result.splits)
  from genesis indexed show ?thesis
    by (simp only: connect_input_def Let_def split: if_split) blast
qed

text \<open>The output an input is connected to, when \<open>connect_input\<close> returns one.\<close>

definition resolved :: "filesystem \<Rightarrow> bitcoin_lib \<Rightarrow> tx_db \<Rightarrow> block_index \<Rightarrow> blk_file \<Rightarrow> txin \<Rightarrow> txout option" where
  "resolved fs L td bi bf i = result_value (connect_input fs L td bi bf i)"

lemma connect_input_resolved:
  assumes "mask_ok (bf_xor_mask bf)" and "genesis_readable fs L bi bf"
  shows "connect_input fs L td bi bf i = Ok (resolved fs L td bi bf i)"
  using connect_input_ok [OF assms, of td i] by (auto simp: resolved_def)

lemma rayon_filter_map:
  "rayon_doc R \<Longrightarrow> (\<And>x. ci x = Ok (f x)) \<Longrightarrow> par_filter_map_collect R ci xs = Ok (List.map_filter f xs)"
  by (simp add: rayon_doc_def)

lemma rayon_map:
  "rayon_doc R \<Longrightarrow> (\<And>x. ci x = Ok (f x)) \<Longrightarrow> par_map_collect R ci xs = Ok (map f xs)"
  by (simp add: rayon_doc_def)

lemma connect_tx_inputs_resolved:
  assumes "mask_ok (bf_xor_mask bf)" and "genesis_readable fs L bi bf" and "rayon_doc R"
  shows "connect_tx_inputs R fs L ins coinbase td bi bf =
    (let outs = List.map_filter (resolved fs L td bi bf) ins; n = (if coinbase then 0 else length ins)
     in if length outs \<noteq> n then Err (MissingOutputs n (length outs)) else Ok outs)"
  by (simp add: connect_tx_inputs_def Let_def
      rayon_filter_map [OF assms(3) connect_input_resolved [OF assms(1,2)]])

lemma pop_outputs_map: "pop_outputs ins (map f ins @ q) outs = Ok (outs @ List.map_filter f ins, q)"
  by (induction ins arbitrary: outs) (auto simp: List.map_filter_def split: option.split)

lemma map_filter_all: "\<forall>x \<in> set xs. \<exists>y. f x = Some y \<Longrightarrow> List.map_filter f xs = map (\<lambda>x. the (f x)) xs"
  by (induction xs) (auto simp: List.map_filter_def)

lemma length_map_filter_le: "length (List.map_filter f xs) \<le> length xs"
  by (simp add: List.map_filter_def)

lemma length_map_filter_all: "length (List.map_filter f xs) = length xs \<longleftrightarrow> (\<forall>x \<in> set xs. \<exists>y. f x = Some y)"
proof (induction xs)
  case (Cons x xs)
  show ?case
  proof (cases "f x")
    case None
    then show ?thesis
      using length_map_filter_le [of f xs] by (simp add: map_filter_simps)
  qed (use Cons.IH in \<open>simp add: map_filter_simps\<close>)
qed (simp add: List.map_filter_def)

context connected_tx
begin

lemma reconstruct_block_per_tx:
  assumes "good" and "mask_ok (bf_xor_mask bf)" and "genesis_readable fs L bi bf" and "rayon_doc R"
  shows "reconstruct_block T L txs (map (resolved fs L td bi bf) (concat (map tx_input txs))) acc =
    bind_result (mapM_result (\<lambda>tx. connect R fs tx td bi bf) txs) (\<lambda>ys. Ok (acc @ ys))"
proof (induction txs arbitrary: acc)
  case (Cons tx txs)
  show ?case
    by (simp add: pop_outputs_map connect_ok [OF assms(1)] connect_tx_inputs_resolved [OF assms(2-4)]
        from_ok [OF assms(1)] add_inputs_build [OF assms(1)] Cons.IH Let_def bind_result_assoc)
qed simp

lemma connect_block_inputs_per_tx:
  assumes "good" and "mask_ok (bf_xor_mask bf)" and "genesis_readable fs L bi bf" and "rayon_doc R"
  shows "connect_block_inputs R T fs L txs td bi bf = mapM_result (\<lambda>tx. connect R fs tx td bi bf) txs"
  unfolding connect_block_inputs_def Let_def
    rayon_map [OF assms(4) connect_input_resolved [OF assms(2,3)]]
  by (simp add: reconstruct_block_per_tx [OF assms])

lemma connect_all_or_error:
  assumes "good" and "mask_ok (bf_xor_mask bf)" and "genesis_readable fs L bi bf" and "rayon_doc R"
    and "coinbase_doc L"
  shows "connect R fs tx td bi bf =
    (let out = resolved fs L td bi bf; ins = tx_input tx
     in if is_coinbase L tx then Ok (build tx [])
        else if \<forall>i \<in> set ins. out i \<noteq> None then Ok (build tx (map (\<lambda>i. conv (the (out i))) ins))
        else Err (MissingOutputs (length ins) (length (List.map_filter out ins))))"
proof -
  let ?out = "resolved fs L td bi bf"
  have spec: "connect R fs tx td bi bf =
      (let outs = List.map_filter ?out (tx_input tx); n = (if is_coinbase L tx then 0 else length (tx_input tx))
       in if length outs \<noteq> n then Err (MissingOutputs n (length outs)) else Ok (build tx (map conv outs)))"
    by (simp add: connect_ok [OF assms(1)] connect_tx_inputs_resolved [OF assms(2-4)] Let_def)
  show ?thesis
  proof (cases "is_coinbase L tx")
    case True
    then obtain i where "tx_input tx = [i]" "is_null L (previous_output i)"
      using coinbase_docD [OF assms(5)] by blast
    moreover have "?out i = None"
      using calculation(2) by (simp add: resolved_def connect_input_def is_coin_base_def)
    ultimately show ?thesis
      using True by (simp add: spec List.map_filter_def)
  next
    case False
    then show ?thesis
      by (simp add: spec Let_def length_map_filter_all map_filter_all comp_def)
  qed
qed

end

section \<open>Connecting never panics\<close>

lemma mapM_result_returns: "(\<And>x. returns (f x)) \<Longrightarrow> returns (mapM_result f xs)"
  by (induction xs) (auto intro!: returns_bind)

context connected_tx
begin

lemma connect_returns:
  assumes "good" and "mask_ok (bf_xor_mask bf)" and "genesis_readable fs L bi bf" and "rayon_doc R"
  shows "returns (connect R fs tx td bi bf)"
  by (simp add: connect_ok [OF assms(1)] connect_tx_inputs_resolved [OF assms(2-4)] Let_def)

end

section \<open>The contract of connected blocks\<close>

text \<open>
  \<open>from\<close> starts a block without transactions, \<open>add_tx\<close> appends one, and \<open>connect\<close> is the block with
  the transactions connected. \<open>mk hdr txs\<close> is the connected block with these transactions.
\<close>

locale connected_block = connected_tx good L T conv build connect
  for good :: bool
    and L :: bitcoin_lib
    and T :: "('tx, 'out) connected_tx_impl"
    and conv :: "txout \<Rightarrow> 'out"
    and build :: "transaction \<Rightarrow> 'out list \<Rightarrow> 'tx"
    and connect :: "rayon \<Rightarrow> filesystem \<Rightarrow> transaction \<Rightarrow> tx_db \<Rightarrow> block_index \<Rightarrow> blk_file \<Rightarrow> 'tx result" +
  fixes B :: "('blk, 'tx) connected_block_impl"
    and mk :: "header \<Rightarrow> 'tx list \<Rightarrow> 'blk"
    and bconnect :: "rayon \<Rightarrow> filesystem \<Rightarrow> block \<Rightarrow> tx_db \<Rightarrow> block_index \<Rightarrow> blk_file \<Rightarrow> 'blk result"
  assumes block_from: "cbk_from B hdr (block_hash L hdr) = mk hdr []"
    and block_add_tx: "cbk_add_tx B t (mk hdr txs) = mk hdr (txs @ [t])"
    and bconnect_eq: "bconnect R fs blk td bi bf =
      bind_result (connect_block_inputs R T fs L (txdata blk) td bi bf) (\<lambda>txs. Ok (mk (blk_header blk) txs))"
begin

lemma bconnect_resolved:
  assumes "good" and "mask_ok (bf_xor_mask bf)" and "genesis_readable fs L bi bf" and "rayon_doc R"
    and "coinbase_doc L"
    and "\<And>tx i. tx \<in> set (txdata blk) \<Longrightarrow> i \<in> set (tx_input tx) \<Longrightarrow> \<not> is_coinbase L tx \<Longrightarrow>
      resolved fs L td bi bf i = Some (out i)"
  shows "bconnect R fs blk td bi bf = Ok (mk (blk_header blk)
    (map (\<lambda>tx. build tx (if is_coinbase L tx then [] else map (\<lambda>i. conv (out i)) (tx_input tx))) (txdata blk)))"
proof -
  have "mapM_result (\<lambda>tx. connect R fs tx td bi bf) (txdata blk)
      = Ok (map (\<lambda>tx. build tx (if is_coinbase L tx then [] else map (\<lambda>i. conv (out i)) (tx_input tx))) (txdata blk))"
  proof (rule mapM_result_Ok)
    fix tx assume "tx \<in> set (txdata blk)"
    with assms(6) [of tx] connect_all_or_error [OF assms(1-5), of tx td]
    show "connect R fs tx td bi bf
        = Ok (build tx (if is_coinbase L tx then [] else map (\<lambda>i. conv (out i)) (tx_input tx)))"
      by (auto simp: Let_def cong: map_cong)
  qed
  then show ?thesis
    by (simp add: bconnect_eq connect_block_inputs_per_tx [OF assms(1-4)])
qed

text \<open>One output that is not found fails the block.\<close>

lemma bconnect_missing:
  assumes "good" and "mask_ok (bf_xor_mask bf)" and "genesis_readable fs L bi bf" and "rayon_doc R"
    and "coinbase_doc L" and "tx \<in> set (txdata blk)" and "\<not> is_coinbase L tx" and "i \<in> set (tx_input tx)"
    and "resolved fs L td bi bf i = None"
  shows "\<exists>e. bconnect R fs blk td bi bf = Err e"
proof -
  note tx = connect_all_or_error [OF assms(1-5)]
  have "\<exists>e. mapM_result (\<lambda>tx. connect R fs tx td bi bf) (txdata blk) = Err e"
  proof (rule mapM_result_Err)
    show "\<exists>e. connect R fs tx td bi bf = Err e"
      using assms(7-9) by (auto simp: tx Let_def)
    show "(\<exists>y. connect R fs t td bi bf = Ok y) \<or> (\<exists>e. connect R fs t td bi bf = Err e)" for t
      by (simp add: tx Let_def)
  qed (fact assms(6))
  then show ?thesis
    by (auto simp: bconnect_eq connect_block_inputs_per_tx [OF assms(1-4)])
qed

lemma bconnect_returns:
  assumes "good" and "mask_ok (bf_xor_mask bf)" and "genesis_readable fs L bi bf" and "rayon_doc R"
  shows "returns (bconnect R fs blk td bi bf)"
  using mapM_result_returns [of "\<lambda>tx. connect R fs tx td bi bf", OF connect_returns [OF assms]]
  by (auto simp: bconnect_eq connect_block_inputs_per_tx [OF assms] intro!: returns_bind)

text \<open>Whatever is connected without an error has the shape of its block.\<close>

lemma bconnect_shape:
  assumes "good" and "mask_ok (bf_xor_mask bf)" and "genesis_readable fs L bi bf" and "rayon_doc R"
    and "coinbase_doc L" and "bconnect R fs blk td bi bf = Ok cb"
  shows "\<exists>txs. cb = mk (blk_header blk) txs \<and>
    list_all2 (\<lambda>tx ct. \<exists>outs. ct = build tx (map conv outs) \<and> length outs = (if is_coinbase L tx then 0 else length (tx_input tx)))
      (txdata blk) txs"
proof -
  from assms(6) obtain txs where txs: "mapM_result (\<lambda>tx. connect R fs tx td bi bf) (txdata blk) = Ok txs"
    and cb: "cb = mk (blk_header blk) txs"
    by (auto simp: bconnect_eq connect_block_inputs_per_tx [OF assms(1-4)] bind_result_eq_Ok)
  from txs have "list_all2 (\<lambda>tx ct. connect R fs tx td bi bf = Ok ct) (txdata blk) txs"
    by (simp add: mapM_result_eq_Ok)
  moreover have "\<exists>outs. ct = build tx (map conv outs) \<and> length outs = (if is_coinbase L tx then 0 else length (tx_input tx))"
    if "connect R fs tx td bi bf = Ok ct" for tx ct
  proof (cases "is_coinbase L tx")
    case True
    with that connect_all_or_error [OF assms(1-5), of tx td] have "ct = build tx (map conv [])" by (simp add: Let_def)
    with True show ?thesis by (intro exI [of _ "[]"]) simp
  next
    case False
    with that connect_all_or_error [OF assms(1-5), of tx td] have
      "ct = build tx (map conv (map (\<lambda>i. the (resolved fs L td bi bf i)) (tx_input tx)))"
      by (auto simp: Let_def comp_def split: if_splits)
    with False show ?thesis by (intro exI [of _ "map (\<lambda>i. the (resolved fs L td bi bf i)) (tx_input tx)"]) simp
  qed
  ultimately have "list_all2 (\<lambda>tx ct. \<exists>outs. ct = build tx (map conv outs)
      \<and> length outs = (if is_coinbase L tx then 0 else length (tx_input tx))) (txdata blk) txs"
    by (rule list_all2_mono)
  with cb show ?thesis by blast
qed

end

definition full_connected_block_of :: "bitcoin_lib \<Rightarrow> header \<Rightarrow> 'addr full_connected_transaction list \<Rightarrow> 'addr full_connected_block" where
  "full_connected_block_of L hdr txs = \<lparr>fcb_header = full_block_header_parse hdr (block_hash L hdr), fcb_txdata = txs\<rparr>"

definition compact_connected_block_of :: "bitcoin_lib \<Rightarrow> header \<Rightarrow> 'addr compact_connected_transaction list \<Rightarrow> 'addr compact_connected_block" where
  "compact_connected_block_of L hdr txs = \<lparr>ccb_header = compact_block_header_new hdr (block_hash L hdr), ccb_txdata = txs\<rparr>"

interpretation full_blk: connected_block "p2pk_doc S" L "full_tx_impl L S" "full_txout_of S"
  "full_connected_of L S" "\<lambda>R fs. full_connected_tx_connect R fs L S" full_block_impl
  "full_connected_block_of L" "\<lambda>R fs. full_connected_block_connect R fs L S" for S L
  by unfold_locales
    (simp_all add: full_block_impl_def full_connected_block_from_def full_connected_block_add_tx_def
      full_connected_block_of_def full_connected_block_connect_def)

interpretation compact_blk: connected_block "p2pk_doc S" L "compact_tx_impl L S" "compact_txout_of S"
  "compact_connected_of L S" "\<lambda>R fs. compact_connected_tx_connect R fs L S" compact_block_impl
  "compact_connected_block_of L" "\<lambda>R fs. compact_connected_block_connect R fs L S" for S L
  by unfold_locales
    (simp_all add: compact_block_impl_def compact_connected_block_from_def compact_connected_block_add_tx_def
      compact_connected_block_of_def compact_connected_block_connect_def)

section \<open>Properties\<close>

text \<open>
  C13. Connecting a block in one parallel batch gives what connecting its transactions one by one
  gives, for both formats: the same connected transactions in the same order, and the same
  \<open>MissingOutputs\<close> error, that of the first transaction with an output that is not found. So the
  queue of outputs never runs out and no output is given to another transaction. The genesis block, if it can be
  read, has a transaction with an output, as \<open>connect_input\<close> indexes both.
\<close>

theorem connect_block_per_transaction:
  assumes "p2pk_doc S" and "rayon_doc R" and "mask_ok (bf_xor_mask bf)" and "genesis_readable fs L bi bf"
  shows "full_connected_block_connect R fs L S blk td bi bf =
      bind_result (mapM_result (\<lambda>tx. full_connected_tx_connect R fs L S tx td bi bf) (txdata blk))
        (\<lambda>txs. Ok \<lparr>fcb_header = full_block_header_parse (blk_header blk) (block_hash L (blk_header blk)),
                   fcb_txdata = txs\<rparr>)
    \<and> compact_connected_block_connect R fs L S blk td bi bf =
      bind_result (mapM_result (\<lambda>tx. compact_connected_tx_connect R fs L S tx td bi bf) (txdata blk))
        (\<lambda>txs. Ok \<lparr>ccb_header = compact_block_header_new (blk_header blk) (block_hash L (blk_header blk)),
                   ccb_txdata = txs\<rparr>)"
  by (simp add: full_connected_block_connect_def compact_connected_block_connect_def
      full_tx.connect_block_inputs_per_tx [OF assms(1,3,4,2)]
      compact_tx.connect_block_inputs_per_tx [OF assms(1,3,4,2)])

text \<open>
  C29. A transaction is connected completely or not at all, in both formats: a coinbase transaction gets no inputs; any
  other gets, in the order of its inputs, the output of each, as long as every one is found, and
  otherwise the error \<open>MissingOutputs\<close> with the number expected and the number found. The outputs
  and the other fields are those of the transaction. The genesis block, if it can be read, has a transaction with an output.
\<close>

theorem connected_tx_complete_or_error:
  assumes "p2pk_doc S" and "rayon_doc R" and "mask_ok (bf_xor_mask bf)" and "genesis_readable fs L bi bf"
    and "coinbase_doc L"
  shows "full_connected_tx_connect R fs L S tx td bi bf =
      (let out = resolved fs L td bi bf; ins = tx_input tx
       in if is_coinbase L tx then Ok (full_connected_of L S tx [])
          else if \<forall>i \<in> set ins. out i \<noteq> None
               then Ok (full_connected_of L S tx (map (\<lambda>i. full_txout_of S (the (out i))) ins))
          else Err (MissingOutputs (length ins) (length (List.map_filter out ins))))
    \<and> compact_connected_tx_connect R fs L S tx td bi bf =
      (let out = resolved fs L td bi bf; ins = tx_input tx
       in if is_coinbase L tx then Ok (compact_connected_of L S tx [])
          else if \<forall>i \<in> set ins. out i \<noteq> None
               then Ok (compact_connected_of L S tx (map (\<lambda>i. compact_txout_of S (the (out i))) ins))
          else Err (MissingOutputs (length ins) (length (List.map_filter out ins))))"
  by (intro conjI full_tx.connect_all_or_error [OF assms(1,3,4,2,5)] compact_tx.connect_all_or_error [OF assms(1,3,4,2,5)])

lemma unat_word_of_nat_u32 [simp]: "k < 2 ^ 32 \<Longrightarrow> unat (word_of_nat k :: u32) = k"
  by (simp add: unat_of_nat)

lemma connect_input_at_position:
  assumes "mask_ok (bf_xor_mask bf)" and "\<not> is_null L (previous_output i)"
    and "\<not> is_genesis_tx td (op_txid (previous_output i))"
    and "ldb_get (td_db td) (0x74 # op_txid (previous_output i))
      = Inr (Some (varint_bytes fileno @ varint_bytes pos @ varint_bytes off @ bs))"
    and "pos < 2 ^ 32" and "off < 2 ^ 32"
    and "blk_view fs bf (word_of_nat fileno) = Some v"
    and "decode_transaction L (drop (pos + off + 80) v) = Inr (tx, rest)" and "length (tx_output tx) < 2 ^ 32"
  shows "connect_input fs L td bi bf i =
    (let n = unat (op_vout (previous_output i))
     in Ok (if n < length (tx_output tx) then Some (tx_output tx ! n) else None))"
proof -
  have "get_tx_position td (op_txid (previous_output i)) =
      Ok \<lparr>tp_txid = op_txid (previous_output i), tp_n_file = word_of_nat fileno,
          tp_n_data_pos = word_of_nat pos, tp_n_tx_offset = word_of_nat off\<rparr>"
    using assms(4) by (rule get_tx_position_bytes)
  moreover have "read_transaction fs L bf (word_of_nat fileno) (word_of_nat pos) (word_of_nat off) = Ok tx"
    using assms(5,6,8) by (simp add: read_transaction_eq [OF assms(1,7)])
  ultimately show ?thesis
    using assms(2,3,9)
    by (simp add: connect_input_def is_coin_base_def Let_def swap_remove_def word_le_nat_alt not_le)
qed

text \<open>
  C14. An input is connected to the output it spends, from LevelDB to the block file: when the index
  holds the three varints of the position of the previous transaction, and the unmasked block file at
  that position (after the header of the block) decodes to a transaction, then the input is connected
  to the output with the number the input names, and to none when there is no such output.
\<close>

theorem connect_input_finds_output:
  assumes "mask_ok (bf_xor_mask bf)" and "\<not> is_null L (previous_output i)"
    and "\<not> is_genesis_tx td (op_txid (previous_output i))"
    and "ldb_get (td_db td) (0x74 # op_txid (previous_output i))
      = Inr (Some (varint_bytes fileno @ varint_bytes pos @ varint_bytes off @ bs))"
    and "pos < 2 ^ 32" and "off < 2 ^ 32"
    and "blk_view fs bf (word_of_nat fileno) = Some v"
    and "decode_transaction L (drop (pos + off + 80) v) = Inr (tx, rest)" and "length (tx_output tx) < 2 ^ 32"
  shows "connect_input fs L td bi bf i =
    (let n = unat (op_vout (previous_output i))
     in Ok (if n < length (tx_output tx) then Some (tx_output tx ! n) else None))"
  by (rule connect_input_at_position [OF assms])

section \<open>A sample environment\<close>

text \<open>A block file of a hundred bytes 5, and sequential iterators.\<close>

definition sample_conn_fs :: filesystem where
  "sample_conn_fs = sample_fs\<lparr>fs_open := \<lambda>_. Inr (replicate 100 5)\<rparr>"

definition sample_blk_file :: blk_file where
  "sample_blk_file = \<lparr>bf_files = [0 \<mapsto> [''blk0.dat'']], bf_xor_mask = None\<rparr>"

definition sample_index :: block_index where
  "sample_index = \<lparr>bi_records = [sample_record 1 0 0 8, sample_record 2 1 1 50], bi_hash_to_height = Map.empty\<rparr>"

definition sample_td :: tx_db where
  "sample_td = \<lparr>td_db = sample_db, td_file_pos_to_height = file_positions (bi_records sample_index),
     td_genesis_txid = sample_hash 0\<rparr>"

definition sample_rayon :: rayon where
  "sample_rayon = \<lparr>par_map_collect = mapM_result,
     par_filter_map_collect = (\<lambda>f xs. result_map (List.map_filter (\<lambda>x. x)) (mapM_result f xs))\<rparr>"

definition sample_in :: "u32 \<Rightarrow> u32 \<Rightarrow> txin" where
  "sample_in t n = \<lparr>previous_output = \<lparr>op_txid = sample_hash t, op_vout = n\<rparr>, script_sig = [],
     tx_sequence = 0, tx_witness = []\<rparr>"

lemma sample_rayon_doc: "rayon_doc sample_rayon"
  by (auto simp: rayon_doc_def sample_rayon_def mapM_result_Ok List.map_filter_def filter_map comp_def)

lemma sample_mask_ok: "mask_ok (bf_xor_mask sample_blk_file)"
  by (simp add: sample_blk_file_def mask_ok_def)

lemma sample_view: "blk_view sample_conn_fs sample_blk_file 0 = Some (replicate 100 5)"
  by (simp add: blk_view_def sample_conn_fs_def sample_blk_file_def unmask_def)

lemma sample_genesis: "genesis_readable sample_conn_fs sample_lib sample_index sample_blk_file"
proof -
  have "read_raw_block sample_conn_fs sample_blk_file 0 8 = raw_block_spec (replicate 100 5) 8"
    using read_raw_block_eq [OF sample_mask_ok sample_view, of 8] by simp
  moreover have "replicate 4 (5 :: byte) = [5, 5, 5, 5]"
    by (simp add: eval_nat_numeral)
  then have "unat (le_u32 (replicate 4 5)) = 0x05050505"
    by (simp add: le_u32_def)
  ultimately have "\<not> is_ok (read_raw_block sample_conn_fs sample_blk_file 0 8)"
    by (simp add: raw_block_spec_def Let_def is_ok_def)
  then show ?thesis
    by (auto simp: genesis_readable_def sample_index_def read_block_def result_simps split: result.split)
qed

lemma sample_lookup:
  "ldb_get (td_db sample_td) (0x74 # sample_hash 9) = Inr (Some (varint_bytes 0 @ varint_bytes 8 @ varint_bytes 5 @ []))"
  by (simp add: sample_td_def sample_db_def varint_bytes_def)

lemma sample_decode: "decode_transaction sample_lib (drop (8 + 5 + 80) (replicate 100 5)) = Inr (sample_tx 5 [], replicate 6 5)"
proof -
  have "drop (8 + 5 + 80) (replicate 100 (5 :: byte)) = 5 # replicate 6 5"
    by (simp add: eval_nat_numeral)
  then show ?thesis by (simp only: sample_lib_simps) simp
qed

lemma sample_in_simps [simp]: "previous_output (sample_in t n) = \<lparr>op_txid = sample_hash t, op_vout = n\<rparr>"
  by (simp add: sample_in_def)

lemma sample_not_genesis: "\<not> is_genesis_tx sample_td (op_txid (previous_output (sample_in 9 0)))"
  by (simp add: is_genesis_tx_def sample_td_def)

lemma sample_connect_input:
  "connect_input sample_conn_fs sample_lib sample_td sample_index sample_blk_file (sample_in 9 0)
     = Ok (Some \<lparr>txo_value = 5, script_pubkey = []\<rparr>)"
  using connect_input_at_position [where bf = sample_blk_file and i = "sample_in 9 0" and td = sample_td and L = sample_lib
      and fileno = 0 and pos = 8 and off = 5 and bs = "[]" and fs = sample_conn_fs and v = "replicate 100 5"
      and bi = sample_index and tx = "sample_tx 5 []" and rest = "replicate 6 5"]
    sample_mask_ok sample_not_genesis sample_lookup sample_decode sample_view
  by simp

theorem connect_input_finds_output_witness:
  "connect_input sample_conn_fs sample_lib sample_td sample_index sample_blk_file (sample_in 9 0)
     = Ok (Some \<lparr>txo_value = 5, script_pubkey = []\<rparr>)"
  using connect_input_finds_output [where bf = sample_blk_file and i = "sample_in 9 0" and td = sample_td and L = sample_lib
      and fileno = 0 and pos = 8 and off = 5 and bs = "[]" and fs = sample_conn_fs and v = "replicate 100 5"
      and bi = sample_index and tx = "sample_tx 5 []" and rest = "replicate 6 5"]
    sample_mask_ok sample_not_genesis sample_lookup sample_decode sample_view
  by simp

lemma sample_resolved:
  "resolved sample_conn_fs sample_lib sample_td sample_index sample_blk_file (sample_in 9 0)
     = Some \<lparr>txo_value = 5, script_pubkey = []\<rparr>"
  by (simp add: resolved_def sample_connect_input)

lemma sample_not_coinbase: "\<not> is_coinbase sample_lib (sample_tx t [sample_in 9 0])"
  using coinbase_docD [OF sample_coinbase_doc, of "sample_tx t [sample_in 9 0]"] by auto

theorem connected_tx_complete_or_error_witness:
  "\<exists>tx. full_connected_tx_connect sample_rayon sample_conn_fs sample_lib sample_script_lib
        (sample_tx 1 [sample_in 9 0]) sample_td sample_index sample_blk_file = Ok tx
      \<and> map fto_value (fct_input tx) = [5] \<and> map fto_value (fct_output tx) = [1]"
  using connected_tx_complete_or_error [OF sample_p2pk_doc sample_rayon_doc sample_mask_ok sample_genesis
      sample_coinbase_doc, of "sample_tx 1 [sample_in 9 0]" sample_td] sample_not_coinbase
  by (simp add: Let_def sample_resolved full_connected_of_def full_txout_of_def)

theorem connect_block_per_transaction_witness:
  "\<exists>b. compact_connected_block_connect sample_rayon sample_conn_fs sample_lib sample_script_lib
        \<lparr>blk_header = sample_header 7 6, txdata = [sample_tx 1 [sample_in 9 0]]\<rparr> sample_td sample_index sample_blk_file
        = Ok b \<and> cbh_block_hash (ccb_header b) = sample_hash 7
      \<and> map (map cto_value \<circ> cct_input) (ccb_txdata b) = [[5]]"
proof -
  have "compact_connected_tx_connect sample_rayon sample_conn_fs sample_lib sample_script_lib
      (sample_tx 1 [sample_in 9 0]) sample_td sample_index sample_blk_file
    = Ok (compact_connected_of sample_lib sample_script_lib (sample_tx 1 [sample_in 9 0])
        [compact_txout_of sample_script_lib \<lparr>txo_value = 5, script_pubkey = []\<rparr>])"
    using compact_tx.connect_all_or_error [OF sample_p2pk_doc sample_mask_ok sample_genesis sample_rayon_doc
      sample_coinbase_doc, of "sample_tx 1 [sample_in 9 0]" sample_td] sample_not_coinbase
    by (simp add: Let_def sample_resolved)
  then show ?thesis
    using connect_block_per_transaction [OF sample_p2pk_doc sample_rayon_doc sample_mask_ok sample_genesis,
        of "\<lparr>blk_header = sample_header 7 6, txdata = [sample_tx 1 [sample_in 9 0]]\<rparr>" sample_td]
    by (simp add: compact_block_header_new_def compact_connected_of_def compact_txout_of_def forget_txout_def
        full_txout_of_def Let_def)
qed

end
