(* ===== verification/Utxo_Cache.thy ===== *)
theory Utxo_Cache
  imports Connected_Block
begin

text \<open>
  What \<open>ConnectedBlockIter\<close> relies on: a cache of unspent outputs into which blocks are inserted and
  from which the inputs of blocks are taken. The locale \<open>utxo_cache\<close> states the contract over the map
  from outpoints to outputs that a cache stands for; both backends of
  \<open>iter/fetch_connected_async.rs\<close> are interpretations of it (\<open>Utxo_Mem\<close>, \<open>Utxo_Disk\<close>).
\<close>

section \<open>Outputs and spends of blocks\<close>

definition tx_outputs :: "bitcoin_lib \<Rightarrow> transaction \<Rightarrow> (outpoint \<times> txout) list" where
  "tx_outputs L tx =
     map (\<lambda>(n, out). (\<lparr>op_txid = compute_txid L tx, op_vout = word_of_nat n\<rparr>, out)) (enumerate 0 (tx_output tx))"

definition block_outputs :: "bitcoin_lib \<Rightarrow> block \<Rightarrow> (outpoint \<times> txout) list" where
  "block_outputs L blk = concat (map (tx_outputs L) (txdata blk))"

definition chain_outputs :: "bitcoin_lib \<Rightarrow> block list \<Rightarrow> outpoint \<rightharpoonup> txout" where
  "chain_outputs L blks = map_of (concat (map (block_outputs L) blks))"

definition tx_spends :: "bitcoin_lib \<Rightarrow> transaction \<Rightarrow> outpoint list" where
  "tx_spends L tx = filter (\<lambda>p. \<not> is_null L p) (map previous_output (tx_input tx))"

definition block_spends :: "bitcoin_lib \<Rightarrow> block \<Rightarrow> outpoint list" where
  "block_spends L blk = concat (map (tx_spends L) (txdata blk))"

text \<open>
  A block whose transactions are not in the cache, or are there with outputs that they have; and one
  whose inputs are all there, once each.
\<close>

definition insertable :: "bitcoin_lib \<Rightarrow> (txout \<Rightarrow> 'out) \<Rightarrow> (outpoint \<rightharpoonup> 'out) \<Rightarrow> block \<Rightarrow> bool" where
  "insertable L conv view blk \<longleftrightarrow>
     distinct (map (compute_txid L) (txdata blk))
     \<and> (\<forall>tx \<in> set (txdata blk). length (tx_output tx) < 2 ^ 32
          \<and> (\<forall>p. op_txid p = compute_txid L tx \<longrightarrow> view p = None \<or> view p = map_option conv (map_of (tx_outputs L tx) p)))"

definition spendable :: "bitcoin_lib \<Rightarrow> (outpoint \<rightharpoonup> 'out) \<Rightarrow> block \<Rightarrow> bool" where
  "spendable L view blk \<longleftrightarrow> distinct (block_spends L blk) \<and> set (block_spends L blk) \<subseteq> dom view"

text \<open>The block with each input replaced by what \<open>view\<close> has for its outpoint.\<close>

definition connected_of ::
  "bitcoin_lib \<Rightarrow> (transaction \<Rightarrow> 'out list \<Rightarrow> 'tx) \<Rightarrow> (header \<Rightarrow> 'tx list \<Rightarrow> 'blk) \<Rightarrow> (outpoint \<rightharpoonup> 'out) \<Rightarrow> block \<Rightarrow> 'blk" where
  "connected_of L build mk view blk =
     mk (blk_header blk) (map (\<lambda>tx. build tx (map (\<lambda>p. the (view p)) (tx_spends L tx))) (txdata blk))"

lemma connected_of_cong:
  assumes "\<And>p. p \<in> set (block_spends L blk) \<Longrightarrow> v p = v' p"
  shows "connected_of L build mk v blk = connected_of L build mk v' blk"
proof -
  have "map (\<lambda>p. the (v p)) (tx_spends L tx) = map (\<lambda>p. the (v' p)) (tx_spends L tx)" if "tx \<in> set (txdata blk)" for tx
  proof (rule map_cong [OF refl])
    fix p assume "p \<in> set (tx_spends L tx)"
    with that have "p \<in> set (block_spends L blk)" by (auto simp: block_spends_def)
    from assms [OF this] show "the (v p) = the (v' p)" by simp
  qed
  then show ?thesis
    unfolding connected_of_def by (intro arg_cong [where f = "mk _"] map_cong refl) (simp only:)
qed

lemma outpoint_eqI: "op_txid p = op_txid q \<Longrightarrow> op_vout p = op_vout q \<Longrightarrow> (p :: outpoint) = q"
  by (cases p, cases q) simp

lemma fst_tx_outputs:
  "map fst (tx_outputs L tx) =
     map (\<lambda>n. \<lparr>op_txid = compute_txid L tx, op_vout = word_of_nat n\<rparr>) [0..<length (tx_output tx)]"
  by (auto simp: tx_outputs_def enumerate_eq_zip map_zip_map intro!: nth_equalityI)

lemma tx_outputs_txid: "p \<in> fst ` set (tx_outputs L tx) \<Longrightarrow> op_txid p = compute_txid L tx"
  by (auto simp: tx_outputs_def)

lemma distinct_tx_outputs: "length (tx_output tx) < 2 ^ 32 \<Longrightarrow> distinct (map fst (tx_outputs L tx))"
  unfolding fst_tx_outputs distinct_map
  by (auto simp: inj_on_def dest!: arg_cong [where f = unat])

lemma map_of_tx_outputs:
  assumes "length (tx_output tx) < 2 ^ 32"
  shows "map_of (tx_outputs L tx) p =
    (if op_txid p = compute_txid L tx \<and> unat (op_vout p) < length (tx_output tx)
     then Some (tx_output tx ! unat (op_vout p)) else None)"
proof (cases "op_txid p = compute_txid L tx \<and> unat (op_vout p) < length (tx_output tx)")
  case True
  then have "(p, tx_output tx ! unat (op_vout p)) \<in> set (tx_outputs L tx)"
    by (auto simp: tx_outputs_def in_set_enumerate_eq image_iff
        intro!: bexI [where x = "(unat (op_vout p), tx_output tx ! unat (op_vout p))"] outpoint_eqI)
  with True distinct_tx_outputs [OF assms] show ?thesis
    by (simp add: map_of_is_SomeI)
next
  case False
  have "p \<notin> fst ` set (tx_outputs L tx)"
  proof
    assume "p \<in> fst ` set (tx_outputs L tx)"
    then obtain n where "n < length (tx_output tx)" "p = \<lparr>op_txid = compute_txid L tx, op_vout = word_of_nat n\<rparr>"
      by (auto simp: tx_outputs_def in_set_enumerate_eq)
    with False assms show False by simp
  qed
  with False show ?thesis by (auto simp: map_of_eq_None_iff)
qed

lemma distinct_concat_txids:
  assumes "distinct (map (compute_txid L) txs)" and "\<forall>tx \<in> set txs. length (tx_output tx) < 2 ^ 32"
  shows "distinct (map fst (concat (map (tx_outputs L) txs)))"
  using assms
proof (induction txs)
  case (Cons tx txs)
  have "fst ` set (tx_outputs L tx) \<inter> fst ` set (concat (map (tx_outputs L) txs)) = {}"
  proof (rule equals0I)
    fix p assume p: "p \<in> fst ` set (tx_outputs L tx) \<inter> fst ` set (concat (map (tx_outputs L) txs))"
    then obtain tx' where "tx' \<in> set txs" "p \<in> fst ` set (tx_outputs L tx')" by auto
    with p tx_outputs_txid [of p L tx] tx_outputs_txid [of p L tx'] have "compute_txid L tx = compute_txid L tx'"
      by simp
    with \<open>tx' \<in> set txs\<close> Cons.prems(1) show False by auto
  qed
  with Cons.IH Cons.prems distinct_tx_outputs [of tx L] show ?case by simp
qed simp

section \<open>Contract\<close>

text \<open>
  \<open>ok\<close> is the representation invariant, \<open>view\<close> the map a cache stands for. A failed operation of the
  source returns \<open>Err(())\<close>, here \<open>None\<close>, with the cache as it is then.
\<close>

locale utxo_cache =
  fixes good :: bool
    and L :: bitcoin_lib
    and conv :: "txout \<Rightarrow> 'out"
    and build :: "transaction \<Rightarrow> 'out list \<Rightarrow> 'tx"
    and mk :: "header \<Rightarrow> 'tx list \<Rightarrow> 'blk"
    and ok :: "'s \<Rightarrow> bool"
    and view :: "'s \<Rightarrow> outpoint \<Rightarrow> 'out option"
    and insert_block :: "block \<Rightarrow> 's \<Rightarrow> (block option \<times> 's) result"
    and connect_outpoints :: "block \<Rightarrow> 's \<Rightarrow> ('blk option \<times> 's) result"
  assumes insert_ok: "good \<Longrightarrow> ok s \<Longrightarrow> insertable L conv (view s) blk \<Longrightarrow>
      \<exists>s'. insert_block blk s = Ok (Some blk, s') \<and> ok s'
         \<and> view s' = view s ++ (\<lambda>p. map_option conv (map_of (block_outputs L blk) p))"
    and connect_ok: "good \<Longrightarrow> ok s \<Longrightarrow> spendable L (view s) blk \<Longrightarrow>
      \<exists>s'. connect_outpoints blk s = Ok (Some (connected_of L build mk (view s) blk), s') \<and> ok s'
         \<and> view s' = view s |` (- set (block_spends L blk))"

end
