(* ===== verification/Chain.thy ===== *)
theory Chain
  imports Utxo_Cache
begin

text \<open>
  Which chains of blocks \<open>iter/connected_block_iter.rs\<close> can connect. \<open>sound_chain\<close> is what its workers
  need of the blocks to be independent of each other: no output is spent twice, and a transaction that
  is spent from is in no later block. It allows inputs that spend nothing (\<open>connectable_heights\<close> are the blocks
  without such inputs) and transactions that occur twice, as two coinbase transactions of Bitcoin
  do. \<open>valid_chain\<close> asks in addition that every input spends an output of the chain.
\<close>

section \<open>Chains\<close>

definition chain_txs :: "block list \<Rightarrow> transaction list" where
  "chain_txs blks = concat (map txdata blks)"

definition block_txids :: "bitcoin_lib \<Rightarrow> block \<Rightarrow> hash256 set" where
  "block_txids L blk = compute_txid L ` set (txdata blk)"

text \<open>
  Outputs are counted by an \<open>u32\<close>, a block has no transaction twice, and transactions with one txid
  have the same outputs.
\<close>

definition sound_blocks :: "bitcoin_lib \<Rightarrow> block list \<Rightarrow> bool" where
  "sound_blocks L blks \<longleftrightarrow>
     (\<forall>blk \<in> set blks. distinct (map (compute_txid L) (txdata blk)))
     \<and> (\<forall>tx \<in> set (chain_txs blks). length (tx_output tx) < 2 ^ 32)
     \<and> (\<forall>tx \<in> set (chain_txs blks). \<forall>tx' \<in> set (chain_txs blks).
          compute_txid L tx = compute_txid L tx' \<longrightarrow> tx_output tx = tx_output tx')"

definition sound_chain :: "bitcoin_lib \<Rightarrow> block list \<Rightarrow> bool" where
  "sound_chain L blks \<longleftrightarrow> sound_blocks L blks
     \<and> distinct (concat (map (block_spends L) blks))
     \<and> (\<forall>h < length blks. \<forall>p \<in> set (block_spends L (blks ! h)).
          \<forall>j < length blks. op_txid p \<in> block_txids L (blks ! j) \<longrightarrow> j \<le> h)"

text \<open>The heights of blocks whose inputs all spend an output of the chain.\<close>

definition connectable_heights :: "bitcoin_lib \<Rightarrow> block list \<Rightarrow> nat set" where
  "connectable_heights L blks = {h. h < length blks \<and> set (block_spends L (blks ! h)) \<subseteq> dom (chain_outputs L blks)}"

definition valid_chain :: "bitcoin_lib \<Rightarrow> block list \<Rightarrow> bool" where
  "valid_chain L blks \<longleftrightarrow> sound_chain L blks \<and> connectable_heights L blks = {..<length blks}"

definition chain_view :: "bitcoin_lib \<Rightarrow> (txout \<Rightarrow> 'out) \<Rightarrow> block list \<Rightarrow> outpoint \<Rightarrow> 'out option" where
  "chain_view L conv blks p = map_option conv (chain_outputs L blks p)"

lemma dom_chain_view [simp]: "dom (chain_view L conv blks) = dom (chain_outputs L blks)"
  by (auto simp: chain_view_def)

lemma valid_chain_sound: "valid_chain L blks \<Longrightarrow> sound_chain L blks"
  by (simp add: valid_chain_def)

lemma valid_chain_connectable: "valid_chain L blks \<Longrightarrow> R \<subseteq> {..<length blks} \<Longrightarrow> R \<inter> connectable_heights L blks = R"
  by (auto simp: valid_chain_def)

section \<open>Consequences\<close>

lemma map_leD: "m \<subseteq>\<^sub>m m' \<Longrightarrow> m p = Some a \<Longrightarrow> m' p = Some a"
  unfolding map_le_def by (metis domI)

lemma distinct_concat_nth:
  "distinct (concat xss) \<Longrightarrow> i < length xss \<Longrightarrow> j < length xss \<Longrightarrow> i \<noteq> j \<Longrightarrow> set (xss ! i) \<inter> set (xss ! j) = {}"
proof (induction xss arbitrary: i j)
  case (Cons xs xss)
  then show ?case
    by (cases i; cases j) (auto dest!: nth_mem)
qed simp

lemma sound_chain_spends:
  assumes "sound_chain L blks" and "h < length blks"
  shows "distinct (block_spends L (blks ! h))"
    and "k < length blks \<Longrightarrow> k \<noteq> h \<Longrightarrow> set (block_spends L (blks ! h)) \<inter> set (block_spends L (blks ! k)) = {}"
    and "p \<in> set (block_spends L (blks ! h)) \<Longrightarrow> k < length blks \<Longrightarrow> op_txid p \<in> block_txids L (blks ! k) \<Longrightarrow> k \<le> h"
proof -
  show "distinct (block_spends L (blks ! h))"
    using assms by (auto simp: sound_chain_def distinct_concat_iff)
  show "set (block_spends L (blks ! h)) \<inter> set (block_spends L (blks ! k)) = {}" if "k < length blks" "k \<noteq> h"
    using distinct_concat_nth [of "map (block_spends L) blks" h k] assms that by (simp add: sound_chain_def)
  show "k \<le> h" if "p \<in> set (block_spends L (blks ! h))" "k < length blks" "op_txid p \<in> block_txids L (blks ! k)"
    using assms that by (simp add: sound_chain_def)
qed

text \<open>What a transaction of the chain creates is what the chain has at its outpoints.\<close>

lemma block_outputs_tx:
  "p \<in> fst ` set (block_outputs L blk) \<Longrightarrow> \<exists>tx \<in> set (txdata blk). op_txid p = compute_txid L tx \<and> p \<in> fst ` set (tx_outputs L tx)"
  by (auto simp: block_outputs_def dest: tx_outputs_txid [OF imageI])

lemma block_outputs_txids: "p \<in> fst ` set (block_outputs L blk) \<Longrightarrow> op_txid p \<in> block_txids L blk"
  using block_outputs_tx [of p L blk] by (auto simp: block_txids_def)

lemma concat_block_outputs: "concat (map (block_outputs L) blks) = concat (map (tx_outputs L) (chain_txs blks))"
  by (induction blks) (simp_all add: block_outputs_def chain_txs_def)

lemma map_of_concat_agree:
  assumes "\<And>x. x \<in> set xs \<Longrightarrow> map_of (f x) p = None \<or> map_of (f x) p = v" and "x \<in> set xs" and "map_of (f x) p = v"
  shows "map_of (concat (map f xs)) p = v"
proof (cases v)
  case None
  with assms(1) have "\<forall>x \<in> set xs. map_of (f x) p = None" by blast
  then have "map_of (concat (map f xs)) p = None" by (induction xs) (simp_all add: map_add_def)
  with None show ?thesis by simp
next
  case (Some a)
  from assms(2,3) have "map_of (concat (map f xs)) p \<noteq> None"
    unfolding Some by (induction xs) (auto simp: map_add_def split: option.split)
  moreover have "map_of (concat (map f xs)) p = None \<or> map_of (concat (map f xs)) p = v"
    using assms(1)
  proof (induction xs)
    case (Cons x xs)
    then show ?case using Cons.prems [of x] by (cases "map_of (f x) p") (auto simp: map_add_def split: option.split)
  qed simp
  ultimately show ?thesis by auto
qed

lemma sound_blocksD:
  assumes "sound_blocks L blks"
  shows "blk \<in> set blks \<Longrightarrow> distinct (map (compute_txid L) (txdata blk))"
    and "tx \<in> set (chain_txs blks) \<Longrightarrow> length (tx_output tx) < 2 ^ 32"
    and "tx \<in> set (chain_txs blks) \<Longrightarrow> tx' \<in> set (chain_txs blks) \<Longrightarrow> compute_txid L tx = compute_txid L tx' \<Longrightarrow>
      tx_output tx = tx_output tx'"
  using assms unfolding sound_blocks_def by blast+

lemma chain_txs_nth: "h < length blks \<Longrightarrow> tx \<in> set (txdata (blks ! h)) \<Longrightarrow> tx \<in> set (chain_txs blks)"
  unfolding chain_txs_def by (auto intro!: bexI [of _ "blks ! h"])

lemma tx_outputs_agree:
  assumes "sound_blocks L blks" and "tx \<in> set (chain_txs blks)" and "tx' \<in> set (chain_txs blks)" and "op_txid p = compute_txid L tx"
  shows "map_of (tx_outputs L tx') p = None \<or> map_of (tx_outputs L tx') p = map_of (tx_outputs L tx) p"
proof (cases "compute_txid L tx = compute_txid L tx'")
  case True
  note same = sound_blocksD(3) [OF assms(1-3) True]
  show ?thesis
    unfolding map_of_tx_outputs [OF sound_blocksD(2) [OF assms(1,3)]] map_of_tx_outputs [OF sound_blocksD(2) [OF assms(1,2)]]
    using same True by simp
next
  case False
  then show ?thesis
    unfolding map_of_tx_outputs [OF sound_blocksD(2) [OF assms(1,3)]] using assms(4) by simp
qed

lemma chain_tx_outputs:
  assumes "sound_blocks L blks" and "tx \<in> set (chain_txs blks)" and "op_txid p = compute_txid L tx"
  shows "map_of (tx_outputs L tx) p = chain_outputs L blks p"
proof -
  have "map_of (concat (map (tx_outputs L) (chain_txs blks))) p = map_of (tx_outputs L tx) p"
    by (rule map_of_concat_agree [OF _ assms(2) refl]) (rule tx_outputs_agree [OF assms(1,2) _ assms(3)])
  then show ?thesis by (simp add: chain_outputs_def concat_block_outputs)
qed

lemma chain_block_outputs:
  assumes "sound_blocks L blks" and "h < length blks"
  shows "map_of (block_outputs L (blks ! h)) p
      = (if p \<in> fst ` set (block_outputs L (blks ! h)) then chain_outputs L blks p else None)"
proof (cases "p \<in> fst ` set (block_outputs L (blks ! h))")
  case False
  then show ?thesis by (auto simp: map_of_eq_None_iff)
next
  case True
  then obtain tx where tx: "tx \<in> set (txdata (blks ! h))" "op_txid p = compute_txid L tx"
    using block_outputs_tx by blast
  note chain = chain_txs_nth [OF assms(2)]
  have "map_of (concat (map (tx_outputs L) (txdata (blks ! h)))) p = map_of (tx_outputs L tx) p"
    by (rule map_of_concat_agree [OF _ tx(1) refl]) (rule tx_outputs_agree [OF assms(1) chain [OF tx(1)] chain tx(2)])
  with True chain_tx_outputs [OF assms(1) chain [OF tx(1)] tx(2)] show ?thesis by (simp add: block_outputs_def)
qed

lemma chain_outputs_block:
  "p \<in> dom (chain_outputs L blks) \<Longrightarrow> \<exists>h < length blks. p \<in> fst ` set (block_outputs L (blks ! h))"
proof -
  assume "p \<in> dom (chain_outputs L blks)"
  then have "p \<in> fst ` set (concat (map (block_outputs L) blks))"
    by (simp only: chain_outputs_def dom_map_of_conv_image_fst)
  then obtain blk where "blk \<in> set blks" "p \<in> fst ` set (block_outputs L blk)" by auto
  then show ?thesis by (auto simp: in_set_conv_nth)
qed

text \<open>The outputs a block spends are created in blocks up to it.\<close>

lemma sound_chain_created:
  assumes "sound_chain L blks" and "h < length blks" and "p \<in> set (block_spends L (blks ! h))" and "p \<in> dom (chain_outputs L blks)"
  shows "\<exists>k \<le> h. p \<in> fst ` set (block_outputs L (blks ! k))"
proof -
  obtain k where k: "k < length blks" "p \<in> fst ` set (block_outputs L (blks ! k))"
    using chain_outputs_block [OF assms(4)] by blast
  from sound_chain_spends(3) [OF assms(1-3) k(1) block_outputs_txids [OF k(2)]] k(2) show ?thesis by blast
qed

lemma sound_chain_blocks: "sound_chain L blks \<Longrightarrow> sound_blocks L blks"
  by (simp add: sound_chain_def)

text \<open>A block of the chain can be inserted into a cache that holds only what the chain has.\<close>

lemma chain_insertable:
  assumes "sound_blocks L blks" and "h < length blks" and "view \<subseteq>\<^sub>m chain_view L conv blks"
  shows "insertable L conv view (blks ! h)"
  unfolding insertable_def
proof (intro conjI ballI allI impI)
  show "distinct (map (compute_txid L) (txdata (blks ! h)))" using assms(1,2) by (simp add: sound_blocks_def)
  fix tx assume "tx \<in> set (txdata (blks ! h))"
  then have tx: "tx \<in> set (chain_txs blks)" by (rule chain_txs_nth [OF assms(2)])
  then show "length (tx_output tx) < 2 ^ 32" by (rule sound_blocksD(2) [OF assms(1)])
  fix p :: outpoint
  assume "op_txid p = compute_txid L tx"
  from chain_tx_outputs [OF assms(1) tx this] assms(3)
  show "view p = None \<or> view p = map_option conv (map_of (tx_outputs L tx) p)"
    using map_leD [of view "chain_view L conv blks" p] by (cases "view p") (auto simp: chain_view_def)
qed

text \<open>What inserting a block does to such a cache.\<close>

lemma chain_insert_view:
  assumes "sound_blocks L blks" and "h < length blks" and "view \<subseteq>\<^sub>m chain_view L conv blks"
    and "view' = view ++ (\<lambda>p. map_option conv (map_of (block_outputs L (blks ! h)) p))"
  shows "view' \<subseteq>\<^sub>m chain_view L conv blks"
    and "view' p = (if p \<in> fst ` set (block_outputs L (blks ! h)) then chain_view L conv blks p else view p)"
proof -
  have view': "view' p = (if p \<in> fst ` set (block_outputs L (blks ! h)) then chain_view L conv blks p else view p)" for p
  proof (cases "p \<in> fst ` set (block_outputs L (blks ! h))")
    case True
    then have "map_of (block_outputs L (blks ! h)) p \<noteq> None" by (simp add: map_of_eq_None_iff)
    with True chain_block_outputs [OF assms(1,2), of p] show ?thesis
      by (auto simp: assms(4) map_add_def chain_view_def split: option.split)
  next
    case False
    with chain_block_outputs [OF assms(1,2), of p] show ?thesis by (simp add: assms(4) map_add_def)
  qed
  then show "view' p = (if p \<in> fst ` set (block_outputs L (blks ! h)) then chain_view L conv blks p else view p)" .
  show "view' \<subseteq>\<^sub>m chain_view L conv blks"
    using assms(3) view' unfolding map_le_def by (metis domIff)
qed

text \<open>What is unspent after all blocks.\<close>

definition utxo_set :: "bitcoin_lib \<Rightarrow> block list \<Rightarrow> outpoint \<rightharpoonup> txout" where
  "utxo_set L blks p = (if p \<in> set (concat (map (block_spends L) blks)) then None else chain_outputs L blks p)"

section \<open>Created and spent\<close>

definition created :: "bitcoin_lib \<Rightarrow> block list \<Rightarrow> nat set \<Rightarrow> outpoint \<Rightarrow> bool" where
  "created L blks I p \<longleftrightarrow> (\<exists>k \<in> I. p \<in> fst ` set (block_outputs L (blks ! k)))"

definition spent :: "bitcoin_lib \<Rightarrow> block list \<Rightarrow> nat set \<Rightarrow> outpoint \<Rightarrow> bool" where
  "spent L blks D p \<longleftrightarrow> (\<exists>k \<in> D. p \<in> set (block_spends L (blks ! k)))"

lemma created_insert [simp]:
  "created L blks (insert h I) p \<longleftrightarrow> p \<in> fst ` set (block_outputs L (blks ! h)) \<or> created L blks I p"
  by (auto simp: created_def)

lemma spent_insert [simp]:
  "spent L blks (insert h D) p \<longleftrightarrow> p \<in> set (block_spends L (blks ! h)) \<or> spent L blks D p"
  by (auto simp: spent_def)

end
