(* ===== verification/Vec_Map.thy ===== *)
theory Vec_Map
  imports Prelude
begin

text \<open>
  \<open>iter/util.rs\<close>: \<open>VecMap\<close>, the outputs of one transaction that are not spent yet, as slots and a
  32-bit count of the full ones.
\<close>

record 'a vec_map =
  vm_size :: u32
  vm_inner :: "'a option list"

definition vec_map_from_vec :: "'a option list \<Rightarrow> 'a vec_map" where
  "vec_map_from_vec slots = \<lparr>vm_size = word_of_nat (length slots), vm_inner = slots\<rparr>"

definition vec_map_is_empty :: "'a vec_map \<Rightarrow> bool" where
  "vec_map_is_empty vm \<longleftrightarrow> vm_size vm = 0"

definition vec_map_remove :: "nat \<Rightarrow> 'a vec_map \<Rightarrow> 'a option \<times> 'a vec_map" where
  "vec_map_remove index vm =
     (if length (vm_inner vm) \<le> index then (None, vm)
      else (let element = vm_inner vm ! index;
                vm = vm\<lparr>vm_inner := (vm_inner vm)[index := None]\<rparr>;
                vm = (if element \<noteq> None then vm\<lparr>vm_size := vm_size vm - 1\<rparr> else vm)
            in (element, vm)))"

section \<open>Specification\<close>

text \<open>A map from indices; the invariant says that the count is that of the full slots.\<close>

definition vm_view :: "'a vec_map \<Rightarrow> nat \<Rightarrow> 'a option" where
  "vm_view vm i = (if i < length (vm_inner vm) then vm_inner vm ! i else None)"

definition vm_full :: "'a option list \<Rightarrow> nat" where
  "vm_full xs = length (filter (\<lambda>x. x \<noteq> None) xs)"

definition vec_map_ok :: "'a vec_map \<Rightarrow> bool" where
  "vec_map_ok vm \<longleftrightarrow> length (vm_inner vm) < 2 ^ 32 \<and> vm_size vm = word_of_nat (vm_full (vm_inner vm))"

lemma vm_full_le: "vm_full xs \<le> length xs"
  by (simp add: vm_full_def)

lemma vm_full_update:
  "i < length xs \<Longrightarrow> xs ! i = Some y \<Longrightarrow> vm_full xs = Suc (vm_full (xs[i := None]))"
proof (induction xs arbitrary: i)
  case (Cons x xs)
  then show ?case by (cases i) (auto simp: vm_full_def)
qed simp

lemma vec_map_from_vec_ok:
  assumes "length xs < 2 ^ 32"
  shows "vec_map_ok (vec_map_from_vec (map Some xs))"
    and "vm_view (vec_map_from_vec (map Some xs)) = (\<lambda>i. if i < length xs then Some (xs ! i) else None)"
  using assms by (auto simp: vec_map_ok_def vec_map_from_vec_def vm_full_def filter_map comp_def vm_view_def)

lemma vec_map_is_empty_iff: "vec_map_ok vm \<Longrightarrow> vec_map_is_empty vm \<longleftrightarrow> vm_view vm = Map.empty"
proof -
  assume ok: "vec_map_ok vm"
  then have "vm_full (vm_inner vm) < 2 ^ 32"
    using vm_full_le [of "vm_inner vm"] by (simp add: vec_map_ok_def)
  then have "unat (word_of_nat (vm_full (vm_inner vm)) :: u32) = vm_full (vm_inner vm)"
    by (simp add: unat_of_nat)
  then have "vm_size vm = 0 \<longleftrightarrow> vm_full (vm_inner vm) = 0"
    using ok unat_eq_0 [of "vm_size vm"] by (simp add: vec_map_ok_def)
  also have "\<dots> \<longleftrightarrow> (\<forall>i < length (vm_inner vm). vm_inner vm ! i = None)"
    by (simp add: vm_full_def filter_empty_conv all_set_conv_all_nth)
  also have "\<dots> \<longleftrightarrow> vm_view vm = Map.empty"
    by (auto simp: vm_view_def fun_eq_iff)
  finally show ?thesis by (simp add: vec_map_is_empty_def)
qed

lemma vec_map_remove_view:
  "fst (vec_map_remove i vm) = vm_view vm i"
  "vm_view (snd (vec_map_remove i vm)) = (vm_view vm)(i := None)"
  by (auto simp: vec_map_remove_def vm_view_def Let_def fun_eq_iff nth_list_update)

lemma vec_map_remove_ok: "vec_map_ok vm \<Longrightarrow> vec_map_ok (snd (vec_map_remove i vm))"
proof (cases "length (vm_inner vm) \<le> i")
  case False
  then have i: "i < length (vm_inner vm)" by simp
  assume ok: "vec_map_ok vm"
  show ?thesis
  proof (cases "vm_inner vm ! i")
    case None
    then have "(vm_inner vm)[i := None] = vm_inner vm" by (metis list_update_id)
    with ok i None show ?thesis by (simp add: vec_map_remove_def vec_map_ok_def)
  next
    case (Some y)
    with ok i show ?thesis
      by (simp add: vec_map_remove_def vec_map_ok_def vm_full_update [OF i Some])
  qed
qed (simp add: vec_map_remove_def)

text \<open>
  C32. \<open>VecMap\<close> is a finite map: \<open>remove\<close> returns what was at the index (nothing out of range), empties
  exactly that index and keeps the count equal to the number of full slots, so that \<open>is_empty\<close> holds
  exactly when nothing is left.
\<close>

theorem vec_map_remove_refines:
  assumes "vec_map_ok vm"
  shows "vec_map_ok (snd (vec_map_remove i vm))
    \<and> fst (vec_map_remove i vm) = vm_view vm i
    \<and> vm_view (snd (vec_map_remove i vm)) = (vm_view vm)(i := None)
    \<and> (vec_map_is_empty (snd (vec_map_remove i vm)) \<longleftrightarrow> (vm_view vm)(i := None) = Map.empty)"
  using vec_map_is_empty_iff [OF vec_map_remove_ok [OF assms, of i]]
  by (simp add: vec_map_remove_ok [OF assms] vec_map_remove_view)

theorem vec_map_remove_refines_witness:
  "vec_map_is_empty (snd (vec_map_remove 1 ((vec_map_from_vec [None, Some (7 :: nat)])\<lparr>vm_size := 1\<rparr>)))"
proof -
  have ok: "vec_map_ok ((vec_map_from_vec [None, Some (7 :: nat)])\<lparr>vm_size := 1\<rparr>)"
    by (simp add: vec_map_ok_def vec_map_from_vec_def vm_full_def)
  have "(vm_view ((vec_map_from_vec [None, Some (7 :: nat)])\<lparr>vm_size := 1\<rparr>))(1 := None) = Map.empty"
    by (auto simp: vm_view_def vec_map_from_vec_def fun_eq_iff less_Suc_eq nth_Cons')
  with vec_map_remove_refines [OF ok, of 1] show ?thesis by simp
qed

section \<open>Unit tests of the source\<close>

text \<open>\<open>test_vec_map\<close> and \<open>test_remove_out_of_bounds\<close>, with \<open>v\<close> for \<open>TxOut::NULL.into()\<close>.\<close>

definition test_vec_map :: "'a \<Rightarrow> bool" where
  "test_vec_map v =
     (let vec = vec_map_from_vec [Some v, Some v, Some v];
          t0 = (vm_size vec = 3);
          (e, vec) = vec_map_remove 1 vec; t1 = (e \<noteq> None \<and> vm_size vec = 2);
          (e, vec) = vec_map_remove 1 vec; t2 = (e = None \<and> vm_size vec = 2);
          (e, vec) = vec_map_remove 0 vec; t3 = (e \<noteq> None \<and> vm_size vec = 1);
          (e, vec) = vec_map_remove 0 vec; t4 = (e = None \<and> vm_size vec = 1);
          t5 = (\<not> vec_map_is_empty vec);
          (e, vec) = vec_map_remove 2 vec; t6 = (e \<noteq> None);
          t7 = (vec_map_is_empty vec \<and> vm_size vec = 0)
      in t0 \<and> t1 \<and> t2 \<and> t3 \<and> t4 \<and> t5 \<and> t6 \<and> t7)"

definition test_remove_out_of_bounds :: "'a \<Rightarrow> bool" where
  "test_remove_out_of_bounds v = (fst (vec_map_remove 3 (vec_map_from_vec [Some v, Some v])) = None)"

lemma vec_map_remove_record:
  "vec_map_remove i \<lparr>vm_size = n, vm_inner = xs\<rparr> =
     (if length xs \<le> i then (None, \<lparr>vm_size = n, vm_inner = xs\<rparr>)
      else (xs ! i, \<lparr>vm_size = (if xs ! i \<noteq> None then n - 1 else n), vm_inner = xs[i := None]\<rparr>))"
  by (simp add: vec_map_remove_def)

lemma vec_map_tests_pass: "test_vec_map v" "test_remove_out_of_bounds v"
  by (simp_all add: test_vec_map_def test_remove_out_of_bounds_def vec_map_from_vec_def vec_map_remove_record
      vec_map_is_empty_def numeral_2_eq_2 numeral_3_eq_3)

end
