(* ===== verification/Bitcoin_DB.thy ===== *)
theory Bitcoin_DB
  imports Connected_Block
begin

text \<open>
  \<open>api.rs\<close>: the handle \<open>BitcoinDB\<close> and its queries. The conversion \<open>From<Block>\<close> of a generic query
  is its argument \<open>conv\<close>, and the method \<open>connect\<close> of the traits the argument \<open>connect\<close>. The invariant
  \<open>db_ok\<close> holds of every handle that \<open>BitcoinDB::new\<close> returns, and the queries rest on it.
\<close>

record bitcoin_db =
  db_blk_file :: blk_file
  db_block_index :: block_index
  db_tx_db :: "tx_db option"

text \<open>\<open>leveldb_open\<close> opens a LevelDB directory and \<open>from_str\<close> parses a txid; both are libraries.\<close>

definition bitcoin_db_new ::
  "filesystem \<Rightarrow> bitcoin_lib \<Rightarrow> (path \<Rightarrow> string + leveldb) \<Rightarrow> (string \<Rightarrow> string + hash256) \<Rightarrow> path \<Rightarrow> bool \<Rightarrow> bitcoin_db result" where
  "bitcoin_db_new fs L leveldb_open from_str data_dir tx_index =
     (if \<not> fs_exists fs data_dir then Err (BitcoinDataDirDoesNotExist data_dir)
      else
        (let blk_path = data_dir @ [''blocks'']
         in bind_result (block_index_new L (leveldb_open (blk_path @ [''index'']))) (\<lambda>blk_index.
            bind_result
              (if tx_index then
                 (let tx_index_path = data_dir @ [''indexes'', ''txindex'']
                  in tx_db_open from_str (fs_exists fs tx_index_path) (leveldb_open tx_index_path) blk_index)
               else Ok None) (\<lambda>td.
            bind_result (blk_file_new fs blk_path) (\<lambda>bf.
              Ok \<lparr>db_blk_file = bf, db_block_index = blk_index, db_tx_db = td\<rparr>)))))"

definition get_max_height :: "bitcoin_db \<Rightarrow> nat" where
  "get_max_height db = length (bi_records (db_block_index db))"

text \<open>\<open>for h in 0..records\<close>, with its early return.\<close>

function block_count_loop :: "block_index_record list \<Rightarrow> nat \<Rightarrow> nat" where
  "block_count_loop records h =
     (if h < length records then
        (if n_tx (records ! h) = 0 then h else block_count_loop records (Suc h))
      else length records)"
  by pat_completeness auto
termination
  by (relation "measure (\<lambda>(records, h). length records - h)") auto

declare block_count_loop.simps [simp del]

definition get_block_count :: "bitcoin_db \<Rightarrow> nat" where
  "get_block_count db = block_count_loop (bi_records (db_block_index db)) 0"

text \<open>\<open>slice::get\<close>.\<close>

definition slice_get :: "'a list \<Rightarrow> nat \<Rightarrow> 'a option" where
  "slice_get xs i = (if i < length xs then Some (xs ! i) else None)"

definition get_header :: "bitcoin_db \<Rightarrow> nat \<Rightarrow> block_index_record result" where
  "get_header db height =
     ok_or (BlockIndexRecordNotFound height) (slice_get (bi_records (db_block_index db)) height)"

definition get_hash_from_height :: "bitcoin_lib \<Rightarrow> bitcoin_db \<Rightarrow> nat \<Rightarrow> hash256 result" where
  "get_hash_from_height L db height =
     ok_or (BlockIndexRecordNotFound height)
       (map_option (\<lambda>s. block_hash L (block_header s)) (slice_get (bi_records (db_block_index db)) height))"

definition get_height_from_hash :: "bitcoin_db \<Rightarrow> hash256 \<Rightarrow> nat result" where
  "get_height_from_hash db hash =
     ok_or (BlockHashNotFound hash) (map_option i32_as_usize (bi_hash_to_height (db_block_index db) hash))"

definition get_raw_block :: "filesystem \<Rightarrow> bitcoin_db \<Rightarrow> nat \<Rightarrow> byte list result" where
  "get_raw_block fs db height =
     bind_result (ok_or (BlockIndexRecordNotFound height) (slice_get (bi_records (db_block_index db)) height))
       (\<lambda>index. read_raw_block fs (db_blk_file db) (n_file index) (n_data_pos index))"

definition get_block :: "filesystem \<Rightarrow> bitcoin_lib \<Rightarrow> (block \<Rightarrow> 't result) \<Rightarrow> bitcoin_db \<Rightarrow> nat \<Rightarrow> 't result" where
  "get_block fs L conv db height =
     bind_result (ok_or (BlockIndexRecordNotFound height) (slice_get (bi_records (db_block_index db)) height))
       (\<lambda>index. bind_result (read_block fs L (db_blk_file db) (n_file index) (n_data_pos index)) conv)"

definition get_transaction ::
  "filesystem \<Rightarrow> bitcoin_lib \<Rightarrow> (transaction \<Rightarrow> 't result) \<Rightarrow> bitcoin_db \<Rightarrow> hash256 \<Rightarrow> 't result" where
  "get_transaction fs L conv db txid =
     bind_result (ok_or TxDbUnavailable (db_tx_db db)) (\<lambda>td.
       if is_genesis_tx td txid then
         bind_result (get_block fs L Ok db 0) (\<lambda>blk. bind_result (swap_remove (txdata blk) 0) conv)
       else
         bind_result (get_tx_position td txid) (\<lambda>tx_pos.
         bind_result (read_transaction fs L (db_blk_file db) (tp_n_file tx_pos) (tp_n_data_pos tx_pos)
           (tp_n_tx_offset tx_pos)) conv))"

definition get_block_height :: "bitcoin_db \<Rightarrow> hash256 \<Rightarrow> nat result" where
  "get_block_height db txid =
     bind_result (ok_or TxDbUnavailable (db_tx_db db)) (\<lambda>td. tx_block_height td txid)"

definition get_connected_block ::
  "filesystem \<Rightarrow> bitcoin_lib \<Rightarrow> (block \<Rightarrow> tx_db \<Rightarrow> block_index \<Rightarrow> blk_file \<Rightarrow> 't result) \<Rightarrow> bitcoin_db \<Rightarrow> nat \<Rightarrow> 't result" where
  "get_connected_block fs L connect db height =
     bind_result (ok_or TxDbUnavailable (db_tx_db db)) (\<lambda>td.
     bind_result (get_block fs L Ok db height) (\<lambda>blk.
       connect blk td (db_block_index db) (db_blk_file db)))"

definition get_connected_transaction ::
  "filesystem \<Rightarrow> bitcoin_lib \<Rightarrow> (transaction \<Rightarrow> tx_db \<Rightarrow> block_index \<Rightarrow> blk_file \<Rightarrow> 't result) \<Rightarrow> bitcoin_db \<Rightarrow> hash256 \<Rightarrow> 't result" where
  "get_connected_transaction fs L connect db txid =
     bind_result (ok_or TxDbUnavailable (db_tx_db db)) (\<lambda>td.
     bind_result (get_transaction fs L Ok db txid) (\<lambda>tx.
       connect tx td (db_block_index db) (db_blk_file db)))"

text \<open>\<open>ScriptBuf::from_hex\<close> is the argument \<open>from_hex\<close>.\<close>

definition get_addresses_from_script ::
  "('pk, 'addr) script_lib \<Rightarrow> (string \<Rightarrow> string + byte list) \<Rightarrow> string \<Rightarrow> 'addr script_info result" where
  "get_addresses_from_script S from_hex script_pub_key =
     bind_result (lift_err InvalidHash (from_hex script_pub_key)) (\<lambda>script.
       evaluate_script S script Bitcoin)"

definition parse_script ::
  "('pk, 'addr) script_lib \<Rightarrow> (string \<Rightarrow> string + byte list) \<Rightarrow> string \<Rightarrow> 'addr script_info result" where
  "parse_script S from_hex script_pub_key = get_addresses_from_script S from_hex script_pub_key"

section \<open>The invariant of a handle\<close>

text \<open>
  The mask has its length, the records are a chain, the reverse index is that of the records, and
  the transaction index knows the positions of the same records.
\<close>

definition db_ok :: "bitcoin_lib \<Rightarrow> bitcoin_db \<Rightarrow> bool" where
  "db_ok L db \<longleftrightarrow>
     mask_ok (bf_xor_mask (db_blk_file db))
     \<and> is_chain L (bi_records (db_block_index db))
     \<and> (\<forall>i < length (bi_records (db_block_index db)).
          bi_hash_to_height (db_block_index db) (record_hash L (bi_records (db_block_index db) ! i))
            = Some (n_height (bi_records (db_block_index db) ! i)))
     \<and> (\<forall>hash h. bi_hash_to_height (db_block_index db) hash = Some h \<longrightarrow>
          (\<exists>i < length (bi_records (db_block_index db)).
             record_hash L (bi_records (db_block_index db) ! i) = hash
             \<and> n_height (bi_records (db_block_index db) ! i) = h))
     \<and> (\<forall>td. db_tx_db db = Some td \<longrightarrow>
          td_file_pos_to_height td = file_positions (bi_records (db_block_index db)))"

lemma bitcoin_db_new_db_ok:
  assumes "bitcoin_db_new fs L leveldb_open from_str dir tx_index = Ok db"
  shows "db_ok L db"
proof -
  let ?opened = "leveldb_open (dir @ [''blocks'', ''index''])"
  from assms have bi: "block_index_new L ?opened = Ok (db_block_index db)"
    and bf: "blk_file_new fs (dir @ [''blocks'']) = Ok (db_blk_file db)"
    and td: "db_tx_db db = None \<or> (\<exists>td ex opened. db_tx_db db = Some td
        \<and> tx_db_open from_str ex opened (db_block_index db) = Ok (Some td))"
    by (auto simp: bitcoin_db_new_def Let_def result_simps split: if_splits) (metis not_None_eq)
  from bi obtain ldb where ldb: "?opened = Inr ldb"
    by (cases ?opened) (auto simp: block_index_new_def load_block_index_def)
  note new = block_index_new_Ok [OF bi [unfolded ldb]]
  show ?thesis
    unfolding db_ok_def
    using blk_file_new_mask [OF bf] new(1) new(2) new(3) td
    by (fastforce dest: tx_db_open_Ok)
qed

lemma db_ok_height:
  "db_ok L db \<Longrightarrow> i < length (bi_records (db_block_index db)) \<Longrightarrow>
     i32_as_usize (n_height (bi_records (db_block_index db) ! i)) = i"
  using i32_as_usize_nonneg [of "n_height (bi_records (db_block_index db) ! i)"]
  by (simp add: db_ok_def is_chain_def)

lemma slice_get_eq_Some [simp]: "slice_get xs i = Some x \<longleftrightarrow> i < length xs \<and> x = xs ! i"
  by (auto simp: slice_get_def)

section \<open>Properties\<close>

lemma block_count_loop_eq:
  "h \<le> length rs \<Longrightarrow> block_count_loop rs h = h + length (takeWhile (\<lambda>r. n_tx r \<noteq> 0) (drop h rs))"
proof (induction rs h rule: block_count_loop.induct)
  case (1 rs h)
  show ?case
  proof (cases "h < length rs")
    case True
    with 1 Cons_nth_drop_Suc [OF True, symmetric] show ?thesis
      by (simp add: block_count_loop.simps [of rs h])
  qed (use 1 in \<open>simp add: block_count_loop.simps [of rs "length rs"]\<close>)
qed

text \<open>
  C36. \<open>get_block_count\<close> is the length of the longest prefix of the chain whose blocks are downloaded
  (have transactions), so blocks 0 up to the count (excluded) are available and the block at the
  count, if there is one, is not.
\<close>

theorem get_block_count_downloaded_prefix:
  "get_block_count db = length (takeWhile (\<lambda>r. n_tx r \<noteq> 0) (bi_records (db_block_index db)))"
  by (simp add: get_block_count_def block_count_loop_eq)

text \<open>
  C34. A handle that \<open>BitcoinDB::new\<close> returns is consistent: the mask is of eight bytes or absent, the
  records are a chain with their heights, the reverse index maps exactly the hashes of the chain to
  their heights, and the transaction index works on the positions of these records.
\<close>

theorem bitcoin_db_new_consistent:
  assumes "bitcoin_db_new fs L leveldb_open from_str dir tx_index = Ok db"
  shows "db_ok L db"
  using assms by (rule bitcoin_db_new_db_ok)

text \<open>
  C25. Heights and hashes are inverse on an opened database: a hash has height \<open>h\<close> exactly when the
  block at height \<open>h\<close> has that hash.
\<close>

theorem height_hash_inverse:
  assumes "bitcoin_db_new fs L leveldb_open from_str dir tx_index = Ok db"
  shows "get_height_from_hash db hash = Ok h \<longleftrightarrow> get_hash_from_height L db h = Ok hash"
proof -
  let ?rs = "bi_records (db_block_index db)"
  have ok: "db_ok L db" using assms by (rule bitcoin_db_new_db_ok)
  have "get_height_from_hash db hash = Ok h \<longleftrightarrow> h < length ?rs \<and> record_hash L (?rs ! h) = hash"
  proof
    assume "get_height_from_hash db hash = Ok h"
    then obtain k where "bi_hash_to_height (db_block_index db) hash = Some k" "h = i32_as_usize k"
      by (auto simp: get_height_from_hash_def result_simps)
    with ok obtain i where "i < length ?rs" "record_hash L (?rs ! i) = hash" "h = i32_as_usize (n_height (?rs ! i))"
      unfolding db_ok_def by blast
    with db_ok_height [OF ok, of i] show "h < length ?rs \<and> record_hash L (?rs ! h) = hash" by simp
  next
    assume "h < length ?rs \<and> record_hash L (?rs ! h) = hash"
    with ok have "bi_hash_to_height (db_block_index db) hash = Some (n_height (?rs ! h))"
      unfolding db_ok_def by blast
    with db_ok_height [OF ok, of h] \<open>h < length ?rs \<and> _\<close> show "get_height_from_hash db hash = Ok h"
      by (simp add: get_height_from_hash_def)
  qed
  then show ?thesis
    by (auto simp: get_hash_from_height_def result_simps record_hash_def)
qed

text \<open>
  C40. \<open>get_max_height\<close> is one more than the greatest height of the index, the number of records, and
  not the maximum height its documentation names.
\<close>

theorem get_max_height_off_by_one:
  assumes "db_ok L db" and "bi_records (db_block_index db) \<noteq> []"
  shows "int (get_max_height db) = sint (n_height (last (bi_records (db_block_index db)))) + 1"
proof -
  let ?rs = "bi_records (db_block_index db)"
  have "sint (n_height (?rs ! (length ?rs - 1))) = int (length ?rs - 1)"
    using assms by (simp add: db_ok_def is_chain_def)
  then show ?thesis
    using assms(2) by (simp add: get_max_height_def last_conv_nth of_nat_diff Suc_leI)
qed

lemma tx_block_height_returns: "returns (tx_block_height td txid)"
  unfolding tx_block_height_def using get_tx_position_returns [of td txid]
  by (auto split: option.split intro!: returns_bind)

lemma returns_get_block:
  "db_ok L db \<Longrightarrow> (\<And>b. returns (conv b)) \<Longrightarrow> returns (get_block fs L conv db height)"
  by (auto simp: get_block_def db_ok_def intro!: returns_bind read_block_returns)

lemma get_block_genesis:
  assumes "genesis_readable fs L (db_block_index db) (db_blk_file db)" and "get_block fs L Ok db 0 = Ok blk"
  shows "txdata blk \<noteq> [] \<and> tx_output (hd (txdata blk)) \<noteq> []"
  using assms by (auto simp: genesis_readable_def get_block_def result_simps hd_conv_nth
      split: list.splits result.splits)

text \<open>
  The code indexes the transactions of the genesis block unchecked: the one way in which a query can panic.
\<close>

lemma get_transaction_returns_iff:
  assumes "db_ok L db" and conv: "\<And>tx. returns (conv tx)"
  shows "returns (get_transaction fs L conv db txid) \<longleftrightarrow>
    \<not> (\<exists>td blk. db_tx_db db = Some td \<and> is_genesis_tx td txid \<and> get_block fs L Ok db 0 = Ok blk \<and> txdata blk = [])"
proof -
  have mask: "mask_ok (bf_xor_mask (db_blk_file db))" using assms(1) by (simp add: db_ok_def)
  have "returns (get_block fs L Ok db 0)" by (rule returns_get_block [OF assms(1)]) simp
  moreover have "returns (bind_result (get_tx_position td txid) (\<lambda>p. bind_result (read_transaction fs L (db_blk_file db)
      (tp_n_file p) (tp_n_data_pos p) (tp_n_tx_offset p)) conv))" for td
    by (intro returns_bind get_tx_position_returns read_transaction_returns [OF mask] conv)
  ultimately show ?thesis
    by (cases "db_tx_db db"; cases "get_block fs L Ok db 0") (auto simp: get_transaction_def swap_remove_def conv)
qed

text \<open>
  C26. On a consistent handle no query runs forever, and none panics, whatever the height, the hash, the txid and the contents of
  the files, with one exception: \<open>get_transaction\<close> panics exactly when it is asked for the genesis transaction and block 0 decodes
  to a block without transactions. The conversions to the format asked for are taken to return. The queries for connected blocks and
  transactions return in both formats when the genesis block, if it can be read, has a transaction with an output, since
  \<open>connect_input\<close> indexes both unchecked.
\<close>

theorem queries_return:
  assumes "db_ok L db" and "\<And>blk. returns (bconv blk)" and "\<And>tx. returns (tconv tx)"
  shows "returns (get_header db height) \<and> returns (get_hash_from_height L db height)
    \<and> returns (get_height_from_hash db hash) \<and> returns (get_raw_block fs db height)
    \<and> returns (get_block fs L bconv db height) \<and> returns (get_block_height db txid)
    \<and> (returns (get_transaction fs L tconv db txid) \<longleftrightarrow>
         \<not> (\<exists>td blk. db_tx_db db = Some td \<and> is_genesis_tx td txid \<and> get_block fs L Ok db 0 = Ok blk \<and> txdata blk = []))
    \<and> (genesis_readable fs L (db_block_index db) (db_blk_file db) \<longrightarrow> p2pk_doc S \<longrightarrow> rayon_doc R \<longrightarrow>
         returns (get_connected_block fs L (full_connected_block_connect R fs L S) db height)
         \<and> returns (get_connected_block fs L (compact_connected_block_connect R fs L S) db height)
         \<and> returns (get_connected_transaction fs L (full_connected_tx_connect R fs L S) db txid)
         \<and> returns (get_connected_transaction fs L (compact_connected_tx_connect R fs L S) db txid))"
proof -
  have mask: "mask_ok (bf_xor_mask (db_blk_file db))" using assms(1) by (simp add: db_ok_def)
  have block: "returns (get_block fs L Ok db height)" by (rule returns_get_block [OF assms(1)]) simp
  have "returns (get_connected_block fs L (full_connected_block_connect R fs L S) db height)
      \<and> returns (get_connected_block fs L (compact_connected_block_connect R fs L S) db height)
      \<and> returns (get_connected_transaction fs L (full_connected_tx_connect R fs L S) db txid)
      \<and> returns (get_connected_transaction fs L (compact_connected_tx_connect R fs L S) db txid)"
    if genesis: "genesis_readable fs L (db_block_index db) (db_blk_file db)" and docs: "p2pk_doc S" "rayon_doc R"
  proof -
    have tx: "returns (get_transaction fs L Ok db txid)"
      using get_transaction_returns_iff [OF assms(1), of Ok fs txid] get_block_genesis [OF genesis] by auto
    note blk = full_blk.bconnect_returns [OF docs(1) mask genesis docs(2)] compact_blk.bconnect_returns [OF docs(1) mask genesis docs(2)]
    note one = full_tx.connect_returns [OF docs(1) mask genesis docs(2)] compact_tx.connect_returns [OF docs(1) mask genesis docs(2)]
    show ?thesis
      unfolding get_connected_block_def get_connected_transaction_def
      by (intro conjI returns_bind block tx blk one) simp_all
  qed
  moreover have "returns (get_header db height) \<and> returns (get_hash_from_height L db height)
      \<and> returns (get_height_from_hash db hash) \<and> returns (get_raw_block fs db height) \<and> returns (get_block_height db txid)"
    by (auto simp: get_header_def get_hash_from_height_def get_height_from_hash_def get_raw_block_def
        get_block_height_def intro!: returns_bind read_raw_block_returns [OF mask] tx_block_height_returns)
  ultimately show ?thesis
    using returns_get_block [OF assms(1), of bconv fs height, OF assms(2)]
      get_transaction_returns_iff [OF assms(1), of tconv fs txid, OF assms(3)] by blast
qed

lemma get_transaction_at:
  assumes "mask_ok (bf_xor_mask (db_blk_file db))" and "db_tx_db db = Some td" and "\<not> is_genesis_tx td txid"
    and "ldb_get (td_db td) (0x74 # txid)
      = Inr (Some (varint_bytes fileno @ varint_bytes pos @ varint_bytes off @ bs))"
    and "pos < 2 ^ 32" and "off < 2 ^ 32"
    and "blk_view fs (db_blk_file db) (word_of_nat fileno) = Some v"
  shows "get_transaction fs L conv db txid =
    (case decode_transaction L (drop (pos + off + 80) v) of
       Inl e \<Rightarrow> Err (Encode e) | Inr (tx, _) \<Rightarrow> conv tx)"
proof -
  have "get_tx_position td txid = Ok \<lparr>tp_txid = txid, tp_n_file = word_of_nat fileno,
      tp_n_data_pos = word_of_nat pos, tp_n_tx_offset = word_of_nat off\<rparr>"
    using assms(4) by (rule get_tx_position_bytes)
  then show ?thesis
    using assms(2,3,5,6) read_transaction_eq [OF assms(1,7), of L "word_of_nat pos" "word_of_nat off"]
    by (simp add: get_transaction_def split: sum.splits)
qed

text \<open>
  A transaction that is indexed is found, from the txid to its bytes: the query returns what the
  decoder makes of the unmasked block file at the indexed block position, plus the offset, plus the
  header of 80 bytes.
\<close>

theorem get_transaction_finds:
  assumes "db_ok L db" and "db_tx_db db = Some td" and "\<not> is_genesis_tx td txid"
    and "ldb_get (td_db td) (0x74 # txid)
      = Inr (Some (varint_bytes fileno @ varint_bytes pos @ varint_bytes off @ bs))"
    and "pos < 2 ^ 32" and "off < 2 ^ 32"
    and "blk_view fs (db_blk_file db) (word_of_nat fileno) = Some v"
  shows "get_transaction fs L conv db txid =
    (case decode_transaction L (drop (pos + off + 80) v) of
       Inl e \<Rightarrow> Err (Encode e) | Inr (tx, _) \<Rightarrow> conv tx)"
  using get_transaction_at [OF _ assms(2-7)] assms(1) by (simp add: db_ok_def)

text \<open>
  C24. What \<open>get_connected_block\<close> returns is well-typed, whatever the files and the transaction index hold:
  it has the transactions of the block of that height, each with its outputs and with as many inputs
  as it has there (a coinbase none), and every output and every input has a script type and
  addresses that fit its script. The mask is absent or of eight bytes, as on every opened handle, and the genesis block, if it can
  be read, has a transaction with an output.
\<close>

theorem connected_block_typed:
  assumes "p2pk_doc S" and "rayon_doc R" and "coinbase_doc L" and "mask_ok (bf_xor_mask (db_blk_file db))"
    and "genesis_readable fs L (db_block_index db) (db_blk_file db)"
    and "get_connected_block fs L (full_connected_block_connect R fs L S) db h = Ok cb"
  shows "\<exists>blk. get_block fs L Ok db h = Ok blk \<and>
    list_all2 (\<lambda>tx ct. fct_txid ct = compute_txid L tx
        \<and> length (fct_input ct) = (if is_coinbase L tx then 0 else length (tx_input tx))
        \<and> length (fct_output ct) = length (tx_output tx)
        \<and> list_all (txout_typed S) (fct_input ct) \<and> list_all (txout_typed S) (fct_output ct))
      (txdata blk) (fcb_txdata cb)"
proof -
  from assms(6) obtain td blk where blk: "get_block fs L Ok db h = Ok blk"
    and con: "full_connected_block_connect R fs L S blk td (db_block_index db) (db_blk_file db) = Ok cb"
    by (auto simp: get_connected_block_def bind_result_eq_Ok)
  from full_blk.bconnect_shape [OF assms(1,4,5,2,3) con] obtain txs where cb: "cb = full_connected_block_of L (blk_header blk) txs"
    and txs: "list_all2 (\<lambda>tx ct. \<exists>outs. ct = full_connected_of L S tx (map (full_txout_of S) outs)
        \<and> length outs = (if is_coinbase L tx then 0 else length (tx_input tx))) (txdata blk) txs" by blast
  have "list_all (txout_typed S) (map (full_txout_of S) outs)" for outs
    by (simp add: list_all_iff full_txout_of_typed [OF assms(1)])
  with txs have "list_all2 (\<lambda>tx ct. fct_txid ct = compute_txid L tx
        \<and> length (fct_input ct) = (if is_coinbase L tx then 0 else length (tx_input tx))
        \<and> length (fct_output ct) = length (tx_output tx)
        \<and> list_all (txout_typed S) (fct_input ct) \<and> list_all (txout_typed S) (fct_output ct)) (txdata blk) txs"
    by (elim list_all2_mono) (auto simp: full_connected_of_def)
  with blk cb show ?thesis by (auto simp: full_connected_block_of_def)
qed

section \<open>A sample handle\<close>

definition sample_db_fs :: filesystem where
  "sample_db_fs = sample_conn_fs\<lparr>fs_exists := (\<lambda>p. last p \<noteq> ''xor.dat''),
     fs_read_dir := (\<lambda>_. Inr [Inr \<lparr>de_is_symlink = Inr False, de_path = [''data'', ''blocks'', ''blk0.dat'']\<rparr>])\<rparr>"

definition sample_handle :: bitcoin_db where
  "sample_handle = \<lparr>db_blk_file = \<lparr>bf_files = [0 \<mapsto> [''data'', ''blocks'', ''blk0.dat'']], bf_xor_mask = None\<rparr>,
     db_block_index = \<lparr>bi_records = [sample_record 1 0 0 8, sample_record 2 1 1 50],
       bi_hash_to_height = [sample_hash 1 \<mapsto> 0, sample_hash 2 \<mapsto> 1]\<rparr>,
     db_tx_db = Some sample_td\<rparr>"

lemma sample_blk0: "parse_blk_index [''data'', ''blocks'', ''blk0.dat''] = Some 0"
  by (simp add: parse_blk_index_def file_name_def strip_prefix_def strip_suffix_def digit_value_def i32_range_def)

lemma sample_handle_new:
  "bitcoin_db_new sample_db_fs sample_lib (\<lambda>_. Inr sample_db) (\<lambda>_. Inr (sample_hash 0)) [''data''] True = Ok sample_handle"
proof -
  have "blk_file_new sample_db_fs [''data'', ''blocks''] = Ok (db_blk_file sample_handle)"
    by (simp add: blk_file_new_def read_xor_mask_def sample_db_fs_def sample_conn_fs_def sample_fs_def
        scan_blocks_dir_def resolve_path_def sample_blk0 sample_handle_def)
  moreover have "block_index_new sample_lib (Inr sample_db) = Ok (db_block_index sample_handle)"
    by (simp add: block_index_new_def sample_load sample_handle_def sample_record_def)
  ultimately show ?thesis
    by (simp add: bitcoin_db_new_def tx_db_open_def sample_db_fs_def sample_handle_def sample_td_def
        sample_index_def Let_def)
qed

lemma sample_db_ok: "db_ok sample_lib sample_handle"
  using sample_handle_new by (rule bitcoin_db_new_db_ok)

theorem bitcoin_db_new_consistent_witness: "db_ok sample_lib sample_handle"
  by (rule bitcoin_db_new_consistent [OF sample_handle_new])

theorem height_hash_inverse_witness:
  "get_height_from_hash sample_handle (sample_hash 2) = Ok 1"
proof -
  have "get_hash_from_height sample_lib sample_handle 1 = Ok (sample_hash 2)"
    by (simp add: get_hash_from_height_def slice_get_def sample_handle_def sample_record_def)
  then show ?thesis
    by (simp only: height_hash_inverse [OF sample_handle_new])
qed

theorem get_max_height_off_by_one_witness:
  "get_max_height sample_handle = 2 \<and> n_height (last (bi_records (db_block_index sample_handle))) = 1"
  using get_max_height_off_by_one [OF sample_db_ok] by (simp add: sample_handle_def)

lemma sample_handle_genesis: "genesis_readable sample_db_fs sample_lib (db_block_index sample_handle) (db_blk_file sample_handle)"
  using sample_genesis
  by (simp add: genesis_readable_def sample_index_def sample_handle_def sample_db_fs_def read_block_def read_raw_block_def
      open_at_def sample_conn_fs_def sample_blk_file_def)

theorem queries_return_witness:
  "returns (get_raw_block sample_db_fs sample_handle 7) \<and> returns (get_block_height sample_handle (sample_hash 9))
   \<and> returns (get_connected_block sample_db_fs sample_lib (full_connected_block_connect sample_rayon sample_db_fs sample_lib sample_script_lib)
        sample_handle 1)"
proof -
  have ok: "returns (Ok x)" for x :: 'x by simp
  show ?thesis
    using queries_return [where bconv = Ok and tconv = Ok, OF sample_db_ok ok ok] sample_handle_genesis sample_p2pk_doc sample_rayon_doc by blast
qed

theorem get_transaction_finds_witness:
  "get_transaction sample_db_fs sample_lib Ok sample_handle (sample_hash 9) = Ok (sample_tx 5 [])"
proof -
  have view: "blk_view sample_db_fs (db_blk_file sample_handle) 0 = Some (replicate 100 5)"
    by (simp add: blk_view_def sample_db_fs_def sample_conn_fs_def sample_handle_def unmask_def)
  show ?thesis
    using get_transaction_finds [OF sample_db_ok, of sample_td "sample_hash 9" 0 8 5 "[]" sample_db_fs
        "replicate 100 5" Ok] view sample_not_genesis sample_lookup sample_decode
    by (simp add: sample_handle_def)
qed

end
