(* ===== verification/Utxo_Mem.thy ===== *)
theory Utxo_Mem
  imports Vec_Map Utxo_Cache Bitcoin_DB
begin

text \<open>
  \<open>iter/fetch_connected_async.rs\<close>, module \<open>in_mem_utxo\<close>: the cache of unspent outputs as a hash map
  from txids to \<open>VecMap\<close>s. The \<open>Arc<Mutex<_>>\<close> around a \<open>VecMap\<close> is modelled by storing the changed
  \<open>VecMap\<close> back: a call holds the only other reference to it. \<open>Err(())\<close> is \<open>None\<close>, and the cache is
  returned in every case, with the inputs spent so far removed.
\<close>

type_synonym 'out mem_cache = "hash256 \<rightharpoonup> 'out vec_map"

section \<open>update_unspent_cache\<close>

text \<open>The body of the loop over the transactions: the entry of one transaction.\<close>

definition mem_new_unspent ::
  "bitcoin_lib \<Rightarrow> ('tx, 'out) connected_tx_impl \<Rightarrow> transaction \<Rightarrow> (hash256 \<times> 'out vec_map) result" where
  "mem_new_unspent L T tx =
     bind_result (mapM_result (\<lambda>out. result_map Some (ctx_out T out)) (tx_output tx)) (\<lambda>outs.
       Ok (compute_txid L tx, vec_map_from_vec outs))"

definition mem_insert_block ::
  "bitcoin_lib \<Rightarrow> ('tx, 'out) connected_tx_impl \<Rightarrow> block \<Rightarrow> 'out mem_cache \<Rightarrow> (block option \<times> 'out mem_cache) result" where
  "mem_insert_block L T blk unspent =
     bind_result (mapM_result (mem_new_unspent L T) (txdata blk)) (\<lambda>new_unspent_cache.
       Ok (Some blk, foldl (\<lambda>m (txid, new_unspent). m(txid \<mapsto> new_unspent)) unspent new_unspent_cache))"

definition mem_update_unspent_cache ::
  "filesystem \<Rightarrow> bitcoin_lib \<Rightarrow> ('tx, 'out) connected_tx_impl \<Rightarrow> bitcoin_db \<Rightarrow> nat \<Rightarrow> 'out mem_cache \<Rightarrow> (block option \<times> 'out mem_cache) result" where
  "mem_update_unspent_cache fs L T db height unspent =
     (case get_block fs L Ok db height of
        Err e \<Rightarrow> Ok (None, unspent)
      | Panic \<Rightarrow> Panic
      | Diverge \<Rightarrow> Diverge
      | Ok blk \<Rightarrow> mem_insert_block L T blk unspent)"

section \<open>connect_outpoints\<close>

text \<open>Taking the output of one outpoint out of the cache, and the entry when nothing is left in it.\<close>

definition mem_spend :: "outpoint \<Rightarrow> 'out mem_cache \<Rightarrow> 'out option \<times> 'out mem_cache" where
  "mem_spend p unspent =
     (let prev_txid = op_txid p; n = unat (op_vout p)
      in case unspent prev_txid of
           Some prev_tx \<Rightarrow>
             (let (tx_out, prev_tx) = vec_map_remove n prev_tx;
                  unspent = unspent(prev_txid \<mapsto> prev_tx);
                  unspent = (if vec_map_is_empty prev_tx then unspent(prev_txid := None) else unspent)
              in (tx_out, unspent))
         | None \<Rightarrow> (None, unspent))"

fun mem_spend_inputs ::
  "bitcoin_lib \<Rightarrow> ('tx, 'out) connected_tx_impl \<Rightarrow> txin list \<Rightarrow> 'tx \<Rightarrow> 'out mem_cache \<Rightarrow> 'tx option \<times> 'out mem_cache" where
  "mem_spend_inputs L T [] output_tx unspent = (Some output_tx, unspent)"
| "mem_spend_inputs L T (input # inputs) output_tx unspent =
     (if is_null L (previous_output input) then mem_spend_inputs L T inputs output_tx unspent
      else case mem_spend (previous_output input) unspent of
             (Some out, unspent) \<Rightarrow> mem_spend_inputs L T inputs (ctx_add_input T out output_tx) unspent
           | (None, unspent) \<Rightarrow> (None, unspent))"

fun mem_connect_txs ::
  "bitcoin_lib \<Rightarrow> ('tx, 'out) connected_tx_impl \<Rightarrow> ('blk, 'tx) connected_block_impl \<Rightarrow> transaction list \<Rightarrow> 'blk \<Rightarrow> 'out mem_cache \<Rightarrow> ('blk option \<times> 'out mem_cache) result" where
  "mem_connect_txs L T B [] output_block unspent = Ok (Some output_block, unspent)"
| "mem_connect_txs L T B (tx # txs) output_block unspent =
     bind_result (ctx_from T tx) (\<lambda>output_tx.
       case mem_spend_inputs L T (tx_input tx) output_tx unspent of
         (Some output_tx, unspent) \<Rightarrow> mem_connect_txs L T B txs (cbk_add_tx B output_tx output_block) unspent
       | (None, unspent) \<Rightarrow> Ok (None, unspent))"

definition mem_connect_outpoints ::
  "bitcoin_lib \<Rightarrow> ('tx, 'out) connected_tx_impl \<Rightarrow> ('blk, 'tx) connected_block_impl \<Rightarrow> block \<Rightarrow> 'out mem_cache \<Rightarrow> ('blk option \<times> 'out mem_cache) result" where
  "mem_connect_outpoints L T B blk unspent =
     (let hash = block_hash L (blk_header blk);
          output_block = cbk_from B (blk_header blk) hash
      in mem_connect_txs L T B (txdata blk) output_block unspent)"

section \<open>The map the cache stands for\<close>

definition mem_view :: "'out mem_cache \<Rightarrow> outpoint \<Rightarrow> 'out option" where
  "mem_view unspent p = (case unspent (op_txid p) of None \<Rightarrow> None | Some vm \<Rightarrow> vm_view vm (unat (op_vout p)))"

definition mem_ok :: "'out mem_cache \<Rightarrow> bool" where
  "mem_ok unspent \<longleftrightarrow> (\<forall>txid vm. unspent txid = Some vm \<longrightarrow> vec_map_ok vm)"

lemma mem_okD: "mem_ok unspent \<Longrightarrow> unspent txid = Some vm \<Longrightarrow> vec_map_ok vm"
  by (auto simp: mem_ok_def)

text \<open>Removing from an entry takes out one outpoint, dropping an empty entry none.\<close>

lemma mem_view_remove:
  assumes "s (op_txid p) = Some vm"
  shows "mem_view (s(op_txid p \<mapsto> snd (vec_map_remove (unat (op_vout p)) vm))) = (mem_view s)(p := None)"
proof
  fix q
  show "mem_view (s(op_txid p \<mapsto> snd (vec_map_remove (unat (op_vout p)) vm))) q = ((mem_view s)(p := None)) q"
    using assms outpoint_eqI [of q p] word_unat_eq_iff [of "op_vout q" "op_vout p"]
    by (cases "op_txid q = op_txid p") (auto simp: vec_map_remove_view mem_view_def)
qed

lemma mem_view_drop:
  assumes "vec_map_ok vm" and "vec_map_is_empty vm" and "s t = Some vm"
  shows "mem_view (s(t := None)) = mem_view s"
  using vec_map_is_empty_iff [OF assms(1)] assms(2,3) by (auto simp: mem_view_def fun_eq_iff)

lemma mem_ok_remove:
  "mem_ok s \<Longrightarrow> s t = Some vm \<Longrightarrow> mem_ok (s(t \<mapsto> snd (vec_map_remove n vm)))"
  by (auto simp: mem_ok_def vec_map_remove_ok)

lemma mem_ok_drop: "mem_ok s \<Longrightarrow> mem_ok (s(t := None))"
  by (auto simp: mem_ok_def)

lemma mem_spend_view:
  assumes "mem_ok s"
  shows "fst (mem_spend p s) = mem_view s p" and "mem_view (snd (mem_spend p s)) = (mem_view s)(p := None)"
    and "mem_ok (snd (mem_spend p s))"
proof -
  show "fst (mem_spend p s) = mem_view s p"
    using vec_map_remove_view(1) [of "unat (op_vout p)"]
    by (auto simp: mem_spend_def mem_view_def Let_def split_beta split: option.split)
  have "mem_view (snd (mem_spend p s)) = (mem_view s)(p := None) \<and> mem_ok (snd (mem_spend p s))"
  proof (cases "s (op_txid p)")
    case None
    then show ?thesis using assms by (auto simp: mem_spend_def mem_view_def fun_eq_iff)
  next
    case (Some vm)
    let ?vm = "snd (vec_map_remove (unat (op_vout p)) vm)"
    let ?s = "s(op_txid p \<mapsto> ?vm)"
    have ok: "mem_ok ?s" by (rule mem_ok_remove [OF assms Some])
    show ?thesis
    proof (cases "vec_map_is_empty ?vm")
      case True
      then have eq: "snd (mem_spend p s) = s(op_txid p := None)"
        using Some by (simp add: mem_spend_def Let_def split_beta)
      have "mem_view (?s(op_txid p := None)) = mem_view ?s"
        by (rule mem_view_drop [of ?vm]) (use True mem_okD [OF ok, of "op_txid p"] in simp_all)
      then show ?thesis
        unfolding eq using mem_ok_drop [OF assms] by (simp add: mem_view_remove [of s p vm, OF Some])
    next
      case False
      then have "snd (mem_spend p s) = ?s"
        using Some by (simp add: mem_spend_def Let_def split_beta)
      with ok show ?thesis by (simp add: mem_view_remove [of s p vm, OF Some])
    qed
  qed
  then show "mem_view (snd (mem_spend p s)) = (mem_view s)(p := None)" and "mem_ok (snd (mem_spend p s))" by auto
qed

section \<open>The contract holds\<close>

lemma mem_view_add_tx:
  assumes "length (tx_output tx) < 2 ^ 32" and "\<forall>p. op_txid p = compute_txid L tx \<longrightarrow> mem_view s p = None \<or> mem_view s p = map_option conv (map_of (tx_outputs L tx) p)"
  shows "mem_view (s(compute_txid L tx \<mapsto> vec_map_from_vec (map Some (map conv (tx_output tx)))))
    = mem_view s ++ (\<lambda>p. map_option conv (map_of (tx_outputs L tx) p))"
proof
  fix p :: outpoint
  show "mem_view (s(compute_txid L tx \<mapsto> vec_map_from_vec (map Some (map conv (tx_output tx))))) p
      = (mem_view s ++ (\<lambda>p. map_option conv (map_of (tx_outputs L tx) p))) p"
    using vec_map_from_vec_ok(2) [of "map conv (tx_output tx)"] assms(1) assms(2) [rule_format, of p]
    by (auto simp: map_of_tx_outputs [OF assms(1)] map_add_def mem_view_def)
qed

lemma mem_insert_fold:
  assumes "mem_ok s" and "insertable L conv (mem_view s) \<lparr>blk_header = h, txdata = txs\<rparr>"
    and "s' = foldl (\<lambda>m (txid, v). m(txid \<mapsto> v)) s
      (map (\<lambda>tx. (compute_txid L tx, vec_map_from_vec (map Some (map conv (tx_output tx))))) txs)"
  shows "mem_ok s' \<and> mem_view s' = mem_view s ++ (\<lambda>p. map_option conv (map_of (concat (map (tx_outputs L) txs)) p))"
  using assms
proof (induction txs arbitrary: s)
  case Nil
  then show ?case by (simp add: map_add_def)
next
  case (Cons tx txs)
  let ?s = "s(compute_txid L tx \<mapsto> vec_map_from_vec (map Some (map conv (tx_output tx))))"
  from Cons.prems have len: "length (tx_output tx) < 2 ^ 32"
    and free: "\<forall>p. op_txid p = compute_txid L tx \<longrightarrow> mem_view s p = None \<or> mem_view s p = map_option conv (map_of (tx_outputs L tx) p)"
    by (simp_all add: insertable_def)
  note view = mem_view_add_tx [OF len free]
  have "mem_ok ?s"
    using Cons.prems(1) vec_map_from_vec_ok(1) [of "map conv (tx_output tx)"] len by (simp add: mem_ok_def)
  moreover have "insertable L conv (mem_view ?s) \<lparr>blk_header = h, txdata = txs\<rparr>"
    using Cons.prems(2)
    by (auto simp: insertable_def view map_add_def map_of_tx_outputs [OF len] image_iff simp del: map_map)
  ultimately have "mem_ok s'" and
    vs: "mem_view s' = mem_view ?s ++ (\<lambda>p. map_option conv (map_of (concat (map (tx_outputs L) txs)) p))"
    using Cons.IH [of ?s] Cons.prems(3) by (simp_all del: fun_upd_apply)
  moreover have "map_of (tx_outputs L tx) p = None \<or> map_of (concat (map (tx_outputs L) txs)) p = None" for p
  proof (rule ccontr)
    assume "\<not> ?thesis"
    then obtain tx' where "p \<in> fst ` set (tx_outputs L tx)" "tx' \<in> set txs" "p \<in> fst ` set (tx_outputs L tx')"
      by (auto simp: map_of_eq_None_iff)
    with tx_outputs_txid [of p L] have "compute_txid L tx = compute_txid L tx'" by metis
    with \<open>tx' \<in> set txs\<close> Cons.prems(2) show False by (auto simp: insertable_def)
  qed
  ultimately show ?case
    unfolding vs view by (auto simp: map_add_def fun_eq_iff split: option.splits) (metis option.distinct(1))
qed

context connected_block
begin

lemma mem_insert_ok:
  assumes "good" and "mem_ok s" and "insertable L conv (mem_view s) blk"
  shows "\<exists>s'. mem_insert_block L T blk s = Ok (Some blk, s') \<and> mem_ok s'
    \<and> mem_view s' = mem_view s ++ (\<lambda>p. map_option conv (map_of (block_outputs L blk) p))"
proof -
  let ?new = "\<lambda>tx. (compute_txid L tx, vec_map_from_vec (map Some (map conv (tx_output tx))))"
  have "mapM_result (mem_new_unspent L T) (txdata blk) = Ok (map ?new (txdata blk))"
    by (rule mapM_result_Ok)
       (simp add: mem_new_unspent_def mapM_result_Ok [where g = "\<lambda>out. Some (conv out)"] out_ok [OF assms(1)] comp_def)
  moreover have "insertable L conv (mem_view s) \<lparr>blk_header = blk_header blk, txdata = txdata blk\<rparr>"
    using assms(3) by (simp add: insertable_def)
  ultimately show ?thesis
    using mem_insert_fold [OF assms(2) _ refl, of L conv "blk_header blk" "txdata blk"]
    by (simp add: mem_insert_block_def block_outputs_def)
qed

lemma mem_spend_inputs_ok:
  assumes "mem_ok s" and "distinct (filter (\<lambda>p. \<not> is_null L p) (map previous_output ins))"
    and "set (filter (\<lambda>p. \<not> is_null L p) (map previous_output ins)) \<subseteq> dom (mem_view s)"
  shows "\<exists>s'. mem_spend_inputs L T ins (build tx is) s
      = (Some (build tx (is @ map (\<lambda>p. the (mem_view s p)) (filter (\<lambda>p. \<not> is_null L p) (map previous_output ins)))), s')
    \<and> mem_ok s' \<and> mem_view s' = mem_view s |` (- set (filter (\<lambda>p. \<not> is_null L p) (map previous_output ins)))"
  using assms
proof (induction ins arbitrary: s "is")
  case Nil
  then show ?case by (simp add: restrict_map_def)
next
  case (Cons i ins)
  let ?p = "previous_output i" and ?rest = "filter (\<lambda>p. \<not> is_null L p) (map previous_output ins)"
  show ?case
  proof (cases "is_null L ?p")
    case True
    with Cons show ?thesis by simp
  next
    case False
    from False Cons.prems obtain out where out: "mem_view s ?p = Some out" by auto
    then obtain s1 where eq: "mem_spend ?p s = (Some out, s1)"
      using mem_spend_view(1) [OF Cons.prems(1), of ?p] by (cases "mem_spend ?p s") simp
    then have ok: "mem_ok s1" and view: "mem_view s1 = (mem_view s)(?p := None)"
      using mem_spend_view(2,3) [OF Cons.prems(1), of ?p] by simp_all
    have notin: "?p \<notin> set ?rest" and "distinct ?rest" and "set ?rest \<subseteq> dom (mem_view s)"
      using Cons.prems(2,3) False by (simp_all del: set_filter)
    then have "distinct ?rest" "set ?rest \<subseteq> dom (mem_view s1)"
      by (auto simp: view simp del: set_filter)
    from Cons.IH [OF ok this(1,2), of "is @ [out]"]
    obtain s' where s': "mem_spend_inputs L T ins (build tx (is @ [out])) s1
        = (Some (build tx (is @ [out] @ map (\<lambda>p. the (mem_view s1 p)) ?rest)), s')" "mem_ok s'"
      "mem_view s' = mem_view s1 |` (- set ?rest)" by auto
    have vals: "map (\<lambda>p. the (mem_view s1 p)) ?rest = map (\<lambda>p. the (mem_view s p)) ?rest"
      using notin by (auto simp: view)
    moreover have "mem_view s' = mem_view s |` (- set (?p # ?rest))"
      by (auto simp: s'(3) view restrict_map_def fun_eq_iff)
    ultimately show ?thesis
      using False s'(2) s'(1) [unfolded vals] out by (simp add: eq add_input)
  qed
qed

lemma mem_connect_txs_ok:
  assumes "good" and "mem_ok s" and "distinct (concat (map (tx_spends L) txs))"
    and "set (concat (map (tx_spends L) txs)) \<subseteq> dom (mem_view s)"
  shows "\<exists>s'. mem_connect_txs L T B txs (mk hdr acc) s
      = Ok (Some (mk hdr (acc @ map (\<lambda>tx. build tx (map (\<lambda>p. the (mem_view s p)) (tx_spends L tx))) txs)), s')
    \<and> mem_ok s' \<and> mem_view s' = mem_view s |` (- set (concat (map (tx_spends L) txs)))"
  using assms(2-4)
proof (induction txs arbitrary: s acc)
  case Nil
  then show ?case by (simp add: restrict_map_def)
next
  case (Cons tx txs)
  let ?rest = "concat (map (tx_spends L) txs)"
  have disj: "set (tx_spends L tx) \<inter> set ?rest = {}" and dist: "distinct (tx_spends L tx)" "distinct ?rest"
    and dom: "set (tx_spends L tx) \<subseteq> dom (mem_view s)" "set ?rest \<subseteq> dom (mem_view s)"
    using Cons.prems(2,3) by simp_all
  obtain s1 where s1: "mem_spend_inputs L T (tx_input tx) (build tx []) s
      = (Some (build tx (map (\<lambda>p. the (mem_view s p)) (tx_spends L tx))), s1)" "mem_ok s1"
    "mem_view s1 = mem_view s |` (- set (tx_spends L tx))"
    using mem_spend_inputs_ok [OF Cons.prems(1), of "tx_input tx" tx "[]"] dist(1) dom(1)
    unfolding tx_spends_def by auto
  have "set ?rest \<subseteq> dom (mem_view s1)"
    using disj dom(2) unfolding s1(3) by (simp only: dom_restrict) blast
  from Cons.IH [OF s1(2) dist(2) this, of "acc @ [build tx (map (\<lambda>p. the (mem_view s p)) (tx_spends L tx))]"]
  obtain s' where s': "mem_connect_txs L T B txs (mk hdr (acc @ [build tx (map (\<lambda>p. the (mem_view s p)) (tx_spends L tx))])) s1
      = Ok (Some (mk hdr ((acc @ [build tx (map (\<lambda>p. the (mem_view s p)) (tx_spends L tx))])
          @ map (\<lambda>tx. build tx (map (\<lambda>p. the (mem_view s1 p)) (tx_spends L tx))) txs)), s')"
    "mem_ok s'" "mem_view s' = mem_view s1 |` (- set ?rest)" by blast
  have vals: "map (\<lambda>tx. build tx (map (\<lambda>p. the (mem_view s1 p)) (tx_spends L tx))) txs
      = map (\<lambda>tx. build tx (map (\<lambda>p. the (mem_view s p)) (tx_spends L tx))) txs"
  proof (rule map_cong [OF refl])
    fix t assume "t \<in> set txs"
    with disj have "set (tx_spends L t) \<inter> set (tx_spends L tx) = {}" by auto
    then have "map (\<lambda>p. the (mem_view s1 p)) (tx_spends L t) = map (\<lambda>p. the (mem_view s p)) (tx_spends L t)"
      by (intro map_cong refl) (auto simp: s1(3) restrict_map_def)
    then show "build t (map (\<lambda>p. the (mem_view s1 p)) (tx_spends L t))
        = build t (map (\<lambda>p. the (mem_view s p)) (tx_spends L t))" by (rule arg_cong)
  qed
  have "mem_view s' = mem_view s |` (- set (tx_spends L tx @ ?rest))"
    by (auto simp: s'(3) s1(3) restrict_map_def fun_eq_iff)
  with s'(2) s'(1) [unfolded vals] s1(1) show ?case
    by (simp add: from_ok [OF assms(1)] block_add_tx)
qed

lemma mem_connect_ok:
  assumes "good" and "mem_ok s" and "spendable L (mem_view s) blk"
  shows "\<exists>s'. mem_connect_outpoints L T B blk s = Ok (Some (connected_of L build mk (mem_view s) blk), s')
    \<and> mem_ok s' \<and> mem_view s' = mem_view s |` (- set (block_spends L blk))"
  using mem_connect_txs_ok [OF assms(1,2), of "txdata blk" "blk_header blk" "[]"] assms(3)
  by (simp add: mem_connect_outpoints_def block_from connected_of_def spendable_def block_spends_def)

lemma mem_spend_inputs_bad:
  assumes "mem_ok s"
    and "\<not> (distinct (filter (\<lambda>p. \<not> is_null L p) (map previous_output ins))
      \<and> set (filter (\<lambda>p. \<not> is_null L p) (map previous_output ins)) \<subseteq> dom (mem_view s))"
  shows "fst (mem_spend_inputs L T ins tx s) = None"
  using assms
proof (induction ins arbitrary: s tx)
  case (Cons i ins)
  let ?p = "previous_output i" and ?rest = "filter (\<lambda>p. \<not> is_null L p) (map previous_output ins)"
  show ?case
  proof (cases "is_null L ?p")
    case False
    obtain r s1 where eq: "mem_spend ?p s = (r, s1)" by (cases "mem_spend ?p s")
    then have r: "r = mem_view s ?p" and ok: "mem_ok s1" and view: "mem_view s1 = (mem_view s)(?p := None)"
      using mem_spend_view [OF Cons.prems(1), of ?p] by simp_all
    show ?thesis
    proof (cases r)
      case None
      with False eq show ?thesis by simp
    next
      case (Some out)
      then have "?p \<in> dom (mem_view s)" using r [symmetric] by auto
      then have "distinct (?p # ?rest) \<and> set (?p # ?rest) \<subseteq> dom (mem_view s)"
        if "distinct ?rest \<and> set ?rest \<subseteq> dom (mem_view s1)"
        using that unfolding view dom_fun_upd by auto
      with Cons.prems(2) False have "\<not> (distinct ?rest \<and> set ?rest \<subseteq> dom (mem_view s1))"
        by (simp only: list.map filter.simps if_True simp_thms) blast
      with Some False eq Cons.IH [OF ok] show ?thesis by simp
    qed
  qed (use Cons in simp)
qed simp

lemma mem_connect_txs_bad:
  assumes "good" and "mem_ok s"
    and "\<not> (distinct (concat (map (tx_spends L) txs)) \<and> set (concat (map (tx_spends L) txs)) \<subseteq> dom (mem_view s))"
  shows "\<exists>s'. mem_connect_txs L T B txs blk s = Ok (None, s')"
  using assms(2,3)
proof (induction txs arbitrary: s blk)
  case (Cons tx txs)
  let ?rest = "concat (map (tx_spends L) txs)"
  show ?case
  proof (cases "distinct (tx_spends L tx) \<and> set (tx_spends L tx) \<subseteq> dom (mem_view s)")
    case False
    then have "fst (mem_spend_inputs L T (tx_input tx) (build tx []) s) = None"
      unfolding tx_spends_def by (rule mem_spend_inputs_bad [OF Cons.prems(1)])
    then show ?thesis
      by (cases "mem_spend_inputs L T (tx_input tx) (build tx []) s") (simp add: from_ok [OF assms(1)])
  next
    case True
    with mem_spend_inputs_ok [OF Cons.prems(1), of "tx_input tx" tx "[]"]
    obtain tx' s1 where s1: "mem_spend_inputs L T (tx_input tx) (build tx []) s = (Some tx', s1)" "mem_ok s1"
      "mem_view s1 = mem_view s |` (- set (tx_spends L tx))"
      unfolding tx_spends_def by blast
    have "\<not> (distinct ?rest \<and> set ?rest \<subseteq> dom (mem_view s1))"
    proof
      assume rest: "distinct ?rest \<and> set ?rest \<subseteq> dom (mem_view s1)"
      then have "set ?rest \<subseteq> dom (mem_view s)" and "set (tx_spends L tx) \<inter> set ?rest = {}"
        unfolding s1(3) dom_restrict by blast+
      with rest True Cons.prems(2) show False by simp
    qed
    from Cons.IH [OF s1(2) this] s1(1) show ?thesis by (simp add: from_ok [OF assms(1)])
  qed
qed simp

lemma mem_connect_exact:
  assumes "good" and "mem_ok s"
  shows "\<exists>s'. mem_connect_outpoints L T B blk s =
    Ok (if spendable L (mem_view s) blk then Some (connected_of L build mk (mem_view s) blk) else None, s')"
  using mem_connect_ok [OF assms, of blk]
    mem_connect_txs_bad [OF assms, of "txdata blk" "cbk_from B (blk_header blk) (block_hash L (blk_header blk))"]
  by (auto simp: spendable_def block_spends_def mem_connect_outpoints_def)

end

sublocale connected_block \<subseteq> mem: utxo_cache good L conv build mk mem_ok mem_view
  "mem_insert_block L T" "mem_connect_outpoints L T B"
  by unfold_locales (rule mem_insert_ok mem_connect_ok; assumption)+

section \<open>Properties\<close>

text \<open>
  Taking an output out of the cache is removing it from the map the cache stands for: what was
  there is returned, exactly that outpoint is gone, and the representation invariant (the counts of
  the entries) holds again, also when the entry of the transaction is dropped because it is empty.
\<close>

theorem mem_spend_refines:
  assumes "mem_ok s"
  shows "fst (mem_spend p s) = mem_view s p \<and> mem_view (snd (mem_spend p s)) = (mem_view s)(p := None)
    \<and> mem_ok (snd (mem_spend p s))"
  using mem_spend_view [OF assms] by blast

text \<open>
  C30. Connecting a block from the cache in memory succeeds exactly when every input spends an output
  that is there and none is spent twice, and then gives the block with each input replaced by its
  output; otherwise it is an error, and never a panic.
\<close>

theorem mem_connect_outpoints_exact:
  assumes "p2pk_doc S" and "mem_ok s"
  shows "\<exists>s'. mem_connect_outpoints L (full_tx_impl L S) full_block_impl blk s =
    Ok (if spendable L (mem_view s) blk
        then Some (connected_of L (full_connected_of L S) (full_connected_block_of L) (mem_view s) blk)
        else None, s')"
  by (rule full_blk.mem_connect_exact [OF assms])

section \<open>A sample cache\<close>

definition sample_mem :: "(byte list) full_txout mem_cache" where
  "sample_mem = [sample_hash 5 \<mapsto> vec_map_from_vec [Some (full_txout_of sample_script_lib \<lparr>txo_value = 5, script_pubkey = []\<rparr>)]]"

lemma sample_mem_ok: "mem_ok sample_mem"
  by (simp add: mem_ok_def sample_mem_def vec_map_ok_def vec_map_from_vec_def vm_full_def)

lemma sample_mem_view:
  "mem_view sample_mem \<lparr>op_txid = sample_hash 5, op_vout = 0\<rparr>
     = Some (full_txout_of sample_script_lib \<lparr>txo_value = 5, script_pubkey = []\<rparr>)"
  "mem_view sample_mem \<lparr>op_txid = sample_hash 6, op_vout = n\<rparr> = None"
  by (simp_all add: mem_view_def sample_mem_def vm_view_def vec_map_from_vec_def)

theorem mem_spend_refines_witness:
  "fst (mem_spend \<lparr>op_txid = sample_hash 5, op_vout = 0\<rparr> sample_mem) \<noteq> None
   \<and> mem_view (snd (mem_spend \<lparr>op_txid = sample_hash 5, op_vout = 0\<rparr> sample_mem)) \<lparr>op_txid = sample_hash 5, op_vout = 0\<rparr> = None"
  using mem_spend_refines [OF sample_mem_ok] by (simp add: sample_mem_view)

theorem mem_connect_outpoints_exact_witness:
  "\<exists>s'. mem_connect_outpoints sample_lib (full_tx_impl sample_lib sample_script_lib) full_block_impl
      \<lparr>blk_header = sample_header 1 0, txdata = [sample_tx 7 [sample_in 5 0, sample_in 5 0]]\<rparr> sample_mem = Ok (None, s')"
proof -
  have "\<not> spendable sample_lib (mem_view sample_mem)
      \<lparr>blk_header = sample_header 1 0, txdata = [sample_tx 7 [sample_in 5 0, sample_in 5 0]]\<rparr>"
    by (simp add: spendable_def block_spends_def tx_spends_def)
  with mem_connect_outpoints_exact [OF sample_p2pk_doc sample_mem_ok, of sample_lib
      "\<lparr>blk_header = sample_header 1 0, txdata = [sample_tx 7 [sample_in 5 0, sample_in 5 0]]\<rparr>"]
  show ?thesis by simp
qed

end
