(* ===== verification/Utxo_Disk.thy ===== *)
theory Utxo_Disk
  imports Utxo_Cache Bitcoin_DB
begin

text \<open>
  \<open>iter/fetch_connected_async.rs\<close>, module \<open>on_disk_utxo\<close> (the default): the cache of unspent outputs
  as a RocksDB table from 36-byte keys to encoded outputs. RocksDB is a parameter: its operations
  are the fields of \<open>rocksdb\<close>, and \<open>rocks_doc\<close> is the documented behaviour of a database whose
  operations succeed. Keys use the byte order of a little-endian host (\<open>to_ne_bytes\<close>).
\<close>

record 'db rocksdb =
  rdb_write :: "(byte list \<times> byte list) list \<Rightarrow> 'db \<Rightarrow> (string + unit) \<times> 'db"
  rdb_multi_get :: "byte list list \<Rightarrow> 'db \<Rightarrow> (string + byte list option) list"
  rdb_delete :: "byte list \<Rightarrow> 'db \<Rightarrow> (string + unit) \<times> 'db"

text \<open>
  A batch is applied in order, \<open>multi_get\<close> answers in the order of the keys, \<open>delete\<close> removes a key;
  \<open>rview\<close> is the contents of the table.
\<close>

definition rocks_doc :: "'db rocksdb \<Rightarrow> ('db \<Rightarrow> byte list \<rightharpoonup> byte list) \<Rightarrow> bool" where
  "rocks_doc R rview \<longleftrightarrow>
     (\<forall>batch d. fst (rdb_write R batch d) = Inr ()
        \<and> rview (snd (rdb_write R batch d)) = rview d ++ map_of (rev batch))
     \<and> (\<forall>keys d. rdb_multi_get R keys d = map (\<lambda>k. Inr (rview d k)) keys)
     \<and> (\<forall>key d. fst (rdb_delete R key d) = Inr () \<and> rview (snd (rdb_delete R key d)) = (rview d)(key := None))"

section \<open>update_unspent_cache\<close>

definition KEY_LENGTH :: u32 where
  "KEY_LENGTH = 32 + 4"

definition txout_key :: "hash256 \<Rightarrow> u32 \<Rightarrow> byte list" where
  "txout_key txid n = txid @ u32_le n"

definition disk_batch :: "bitcoin_lib \<Rightarrow> transaction list \<Rightarrow> (byte list \<times> byte list) list" where
  "disk_batch L txs =
     concat (map (\<lambda>tx. let txid = compute_txid L tx
       in map (\<lambda>(n, out). (txout_key txid (word_of_nat n), encode_txout L out)) (enumerate 0 (tx_output tx))) txs)"

definition disk_insert_block :: "'db rocksdb \<Rightarrow> bitcoin_lib \<Rightarrow> block \<Rightarrow> 'db \<Rightarrow> (block option \<times> 'db) result" where
  "disk_insert_block R L blk unspent =
     (case rdb_write R (disk_batch L (txdata blk)) unspent of
        (Inr _, unspent) \<Rightarrow> Ok (Some blk, unspent)
      | (Inl e, unspent) \<Rightarrow> Ok (None, unspent))"

definition disk_update_unspent_cache ::
  "'db rocksdb \<Rightarrow> filesystem \<Rightarrow> bitcoin_lib \<Rightarrow> bitcoin_db \<Rightarrow> nat \<Rightarrow> 'db \<Rightarrow> (block option \<times> 'db) result" where
  "disk_update_unspent_cache R fs L db height unspent =
     (case get_block fs L Ok db height of
        Err e \<Rightarrow> Ok (None, unspent)
      | Panic \<Rightarrow> Panic
      | Diverge \<Rightarrow> Diverge
      | Ok blk \<Rightarrow> disk_insert_block R L blk unspent)"

section \<open>connect_outpoints\<close>

definition disk_keys :: "bitcoin_lib \<Rightarrow> transaction list \<Rightarrow> byte list list" where
  "disk_keys L txs =
     concat (map (\<lambda>tx. List.map_filter (\<lambda>input.
       if is_null L (previous_output input) then None
       else Some (txout_key (op_txid (previous_output input)) (op_vout (previous_output input)))) (tx_input tx)) txs)"

text \<open>The loop that deletes the keys: \<open>False\<close> when it returns \<open>Err(())\<close>.\<close>

fun disk_delete_keys :: "'db rocksdb \<Rightarrow> byte list list \<Rightarrow> 'db \<Rightarrow> bool \<times> 'db" where
  "disk_delete_keys R [] unspent = (True, unspent)"
| "disk_delete_keys R (key # keys) unspent =
     (case rdb_delete R key unspent of
        (Inl e, unspent) \<Rightarrow> (False, unspent)
      | (Inr _, unspent) \<Rightarrow> disk_delete_keys R keys unspent)"

text \<open>
  The loop over the inputs of a transaction, with the position \<open>pos\<close> in the outputs read;
  \<open>tx_outs.get(pos).unwrap()\<close> panics past the end.
\<close>

fun disk_spend_inputs ::
  "bitcoin_lib \<Rightarrow> ('tx, 'out) connected_tx_impl \<Rightarrow> (string + byte list option) list \<Rightarrow> txin list \<Rightarrow> nat \<Rightarrow> 'tx \<Rightarrow> ('tx \<times> nat) option result" where
  "disk_spend_inputs L T tx_outs [] pos output_tx = Ok (Some (output_tx, pos))"
| "disk_spend_inputs L T tx_outs (input # inputs) pos output_tx =
     (if is_null L (previous_output input) then disk_spend_inputs L T tx_outs inputs pos output_tx
      else if length tx_outs \<le> pos then Panic
      else
        (let prev_txo = (case tx_outs ! pos of
               Inr (Some bytes) \<Rightarrow> decode_txout L bytes
             | Inr None \<Rightarrow> None
             | Inl e \<Rightarrow> None)
         in case prev_txo of
              Some out \<Rightarrow>
                bind_result (ctx_out T out) (\<lambda>i.
                  disk_spend_inputs L T tx_outs inputs (pos + 1) (ctx_add_input T i output_tx))
            | None \<Rightarrow> Ok None))"

fun disk_connect_txs ::
  "bitcoin_lib \<Rightarrow> ('tx, 'out) connected_tx_impl \<Rightarrow> ('blk, 'tx) connected_block_impl \<Rightarrow> (string + byte list option) list \<Rightarrow> transaction list \<Rightarrow> nat \<Rightarrow> 'blk \<Rightarrow> 'blk option result" where
  "disk_connect_txs L T B tx_outs [] pos output_block = Ok (Some output_block)"
| "disk_connect_txs L T B tx_outs (tx # txs) pos output_block =
     bind_result (ctx_from T tx) (\<lambda>output_tx.
     bind_result (disk_spend_inputs L T tx_outs (tx_input tx) pos output_tx) (\<lambda>r.
       case r of
         Some (output_tx, pos) \<Rightarrow> disk_connect_txs L T B tx_outs txs pos (cbk_add_tx B output_tx output_block)
       | None \<Rightarrow> Ok None))"

definition disk_connect_outpoints ::
  "'db rocksdb \<Rightarrow> bitcoin_lib \<Rightarrow> ('tx, 'out) connected_tx_impl \<Rightarrow> ('blk, 'tx) connected_block_impl \<Rightarrow> block \<Rightarrow> 'db \<Rightarrow> ('blk option \<times> 'db) result" where
  "disk_connect_outpoints R L T B blk unspent =
     (let hash = block_hash L (blk_header blk);
          output_block = cbk_from B (blk_header blk) hash;
          keys = disk_keys L (txdata blk);
          tx_outs = rdb_multi_get R keys unspent
      in case disk_delete_keys R keys unspent of
           (False, unspent) \<Rightarrow> Ok (None, unspent)
         | (True, unspent) \<Rightarrow>
             bind_result (disk_connect_txs L T B tx_outs (txdata blk) 0 output_block) (\<lambda>r. Ok (r, unspent)))"

section \<open>The map the table stands for\<close>

definition outpoint_key :: "outpoint \<Rightarrow> byte list" where
  "outpoint_key p = txout_key (op_txid p) (op_vout p)"

text \<open>The raw view, before the conversion of outputs, and the view of the contract.\<close>

definition disk_raw_view :: "bitcoin_lib \<Rightarrow> ('db \<Rightarrow> byte list \<rightharpoonup> byte list) \<Rightarrow> 'db \<Rightarrow> outpoint \<Rightarrow> txout option" where
  "disk_raw_view L rview d p = Option.bind (rview d (outpoint_key p)) (decode_txout L)"

definition disk_view ::
  "bitcoin_lib \<Rightarrow> ('db \<Rightarrow> byte list \<rightharpoonup> byte list) \<Rightarrow> (txout \<Rightarrow> 'out) \<Rightarrow> 'db \<Rightarrow> outpoint \<Rightarrow> 'out option" where
  "disk_view L rview conv d p = map_option conv (disk_raw_view L rview d p)"

text \<open>What the backend relies on: RocksDB, the codec of outputs.\<close>

definition disk_good :: "'db rocksdb \<Rightarrow> ('db \<Rightarrow> byte list \<rightharpoonup> byte list) \<Rightarrow> bitcoin_lib \<Rightarrow> bool" where
  "disk_good R rview L \<longleftrightarrow> rocks_doc R rview \<and> txout_codec L"

lemma outpoint_key_inject [simp]: "outpoint_key p = outpoint_key q \<longleftrightarrow> p = q"
  by (auto simp: outpoint_key_def txout_key_def intro: outpoint_eqI)

lemma disk_batch_eq:
  "disk_batch L txs = map (\<lambda>(p, out). (outpoint_key p, encode_txout L out)) (concat (map (tx_outputs L) txs))"
  by (induction txs) (auto simp: disk_batch_def tx_outputs_def outpoint_key_def Let_def)

lemma disk_keys_eq: "disk_keys L txs = map outpoint_key (concat (map (tx_spends L) txs))"
proof (induction txs)
  case (Cons tx txs)
  have "List.map_filter (\<lambda>input. if is_null L (previous_output input) then None
      else Some (txout_key (op_txid (previous_output input)) (op_vout (previous_output input)))) ins
    = map outpoint_key (filter (\<lambda>p. \<not> is_null L p) (map previous_output ins))" for ins
    by (induction ins) (auto simp: map_filter_simps outpoint_key_def)
  with Cons show ?case by (simp add: disk_keys_def tx_spends_def)
qed (simp add: disk_keys_def)

lemma rocks_docD:
  assumes "rocks_doc R rview"
  shows "\<exists>d'. rdb_write R batch d = (Inr (), d') \<and> rview d' = rview d ++ map_of (rev batch)"
    and "rdb_multi_get R keys d = map (\<lambda>k. Inr (rview d k)) keys"
    and "\<exists>d'. rdb_delete R key d = (Inr (), d') \<and> rview d' = (rview d)(key := None)"
  using assms by (auto simp: rocks_doc_def) (metis prod.collapse)+

lemma disk_delete_keys_ok:
  assumes "rocks_doc R rview"
  shows "\<exists>d'. disk_delete_keys R keys d = (True, d') \<and> rview d' = rview d |` (- set keys)"
proof (induction keys arbitrary: d)
  case (Cons key keys)
  obtain d1 where d1: "rdb_delete R key d = (Inr (), d1)" "rview d1 = (rview d)(key := None)"
    using rocks_docD(3) [OF assms] by blast
  from Cons [of d1] obtain d' where "disk_delete_keys R keys d1 = (True, d')"
    "rview d' = rview d1 |` (- set keys)" by blast
  with d1 show ?case by (auto simp: restrict_map_def fun_eq_iff)
qed (simp add: restrict_map_def)

lemma map_of_outpoint_key:
  "map_of (map (\<lambda>(p, out). (outpoint_key p, f out)) xs) (outpoint_key q) = map_option f (map_of xs q)"
  by (induction xs) auto

lemma disk_insert_view:
  assumes "disk_good R rview L" and "insertable L conv v blk"
  shows "\<exists>d'. disk_insert_block R L blk d = Ok (Some blk, d')
    \<and> disk_raw_view L rview d' = disk_raw_view L rview d ++ map_of (block_outputs L blk)"
proof -
  let ?xs = "block_outputs L blk"
  have doc: "rocks_doc R rview" and codec: "txout_codec L"
    using assms(1) by (simp_all add: disk_good_def)
  obtain d' where d': "rdb_write R (disk_batch L (txdata blk)) d = (Inr (), d')"
      "rview d' = rview d ++ map_of (rev (disk_batch L (txdata blk)))"
    using rocks_docD(1) [OF doc] by blast
  have "distinct (map fst ?xs)"
    using assms(2) distinct_concat_txids [of L "txdata blk"] by (simp add: insertable_def block_outputs_def)
  then have "map_of (rev ?xs) = map_of ?xs"
    by (subst map_of_inject_set) (simp_all add: rev_map [symmetric])
  then have "map_of (rev (disk_batch L (txdata blk))) (outpoint_key p) = map_option (encode_txout L) (map_of ?xs p)" for p
    by (simp add: disk_batch_eq block_outputs_def [symmetric] rev_map map_of_outpoint_key)
  then have "disk_raw_view L rview d' = disk_raw_view L rview d ++ map_of ?xs"
    using codec by (auto simp: disk_raw_view_def d'(2) map_add_def fun_eq_iff split: option.split)
  with d'(1) show ?thesis by (simp add: disk_insert_block_def)
qed

section \<open>The contract holds\<close>

lemma drop_eq_Cons: "drop n xs = y # ys \<Longrightarrow> n < length xs \<and> xs ! n = y \<and> drop (Suc n) xs = ys"
  by (metis Cons_nth_drop_Suc drop_eq_Nil2 list.distinct(1) list.inject not_le)

context connected_block
begin

lemma disk_insert_ok:
  assumes "disk_good R rview L" and "insertable L conv (disk_view L rview conv d) blk"
  shows "\<exists>d'. disk_insert_block R L blk d = Ok (Some blk, d') \<and> disk_view L rview conv d'
    = disk_view L rview conv d ++ (\<lambda>p. map_option conv (map_of (block_outputs L blk) p))"
proof -
  obtain d' where "disk_insert_block R L blk d = Ok (Some blk, d')"
    "disk_raw_view L rview d' = disk_raw_view L rview d ++ map_of (block_outputs L blk)"
    using disk_insert_view [OF assms] by blast
  then show ?thesis
    by (auto simp: disk_view_def map_add_def fun_eq_iff split: option.split)
qed

lemma disk_spend_inputs_ok:
  assumes "good"
    and "drop pos tx_outs = map (\<lambda>p. Inr (rview d (outpoint_key p))) (filter (\<lambda>p. \<not> is_null L p) (map previous_output ins)) @ rest"
    and "set (filter (\<lambda>p. \<not> is_null L p) (map previous_output ins)) \<subseteq> dom (disk_view L rview conv d)"
  shows "disk_spend_inputs L T tx_outs ins pos (build tx is)
    = Ok (Some (build tx (is @ map (\<lambda>p. the (disk_view L rview conv d p)) (filter (\<lambda>p. \<not> is_null L p) (map previous_output ins))),
        pos + length (filter (\<lambda>p. \<not> is_null L p) (map previous_output ins))))"
  using assms(2,3)
proof (induction ins arbitrary: pos "is")
  case (Cons i ins)
  let ?p = "previous_output i"
  show ?case
  proof (cases "is_null L ?p")
    case False
    with Cons.prems(1) have pos: "pos < length tx_outs" "tx_outs ! pos = Inr (rview d (outpoint_key ?p))"
      "drop (Suc pos) tx_outs = map (\<lambda>p. Inr (rview d (outpoint_key p))) (filter (\<lambda>p. \<not> is_null L p) (map previous_output ins)) @ rest"
      using drop_eq_Cons [of pos tx_outs] by simp_all
    from False Cons.prems(2) obtain bytes out where "rview d (outpoint_key ?p) = Some bytes"
      "decode_txout L bytes = Some out" "disk_view L rview conv d ?p = Some (conv out)"
      by (auto simp: disk_view_def disk_raw_view_def bind_eq_Some_conv)
    with False pos Cons.IH [OF pos(3)] Cons.prems(2) show ?thesis
      by (simp add: out_ok [OF assms(1)] add_input Let_def)
  qed (use Cons in simp)
qed simp

lemma disk_connect_txs_ok:
  assumes "good"
    and "drop pos tx_outs = map (\<lambda>p. Inr (rview d (outpoint_key p))) (concat (map (tx_spends L) txs))"
    and "set (concat (map (tx_spends L) txs)) \<subseteq> dom (disk_view L rview conv d)"
  shows "disk_connect_txs L T B tx_outs txs pos (mk hdr acc) = Ok (Some (mk hdr
    (acc @ map (\<lambda>tx. build tx (map (\<lambda>p. the (disk_view L rview conv d p)) (tx_spends L tx))) txs)))"
  using assms(2,3)
proof (induction txs arbitrary: pos acc)
  case (Cons tx txs)
  let ?f = "\<lambda>p. Inr (rview d (outpoint_key p))" and ?rest = "concat (map (tx_spends L) txs)"
  have drop: "drop pos tx_outs = map ?f (tx_spends L tx) @ map ?f ?rest" using Cons.prems(1) by simp
  have "disk_spend_inputs L T tx_outs (tx_input tx) pos (build tx [])
      = Ok (Some (build tx ([] @ map (\<lambda>p. the (disk_view L rview conv d p)) (tx_spends L tx)), pos + length (tx_spends L tx)))"
    unfolding tx_spends_def
    by (rule disk_spend_inputs_ok [OF assms(1)]) (use drop Cons.prems(2) in \<open>auto simp: tx_spends_def\<close>)
  moreover have "drop (pos + length (tx_spends L tx)) tx_outs = map ?f ?rest"
    using arg_cong [OF drop, of "drop (length (tx_spends L tx))"] by (simp add: add.commute)
  moreover have "set ?rest \<subseteq> dom (disk_view L rview conv d)" using Cons.prems(2) by simp
  ultimately show ?case
    using Cons.IH by (simp add: from_ok [OF assms(1)] block_add_tx del: map_map)
qed simp

lemma disk_spend_inputs_bad:
  assumes "good"
    and "drop pos tx_outs = map (\<lambda>p. Inr (rview d (outpoint_key p))) (filter (\<lambda>p. \<not> is_null L p) (map previous_output ins)) @ rest"
    and "\<not> set (filter (\<lambda>p. \<not> is_null L p) (map previous_output ins)) \<subseteq> dom (disk_view L rview conv d)"
  shows "disk_spend_inputs L T tx_outs ins pos (build tx is) = Ok None"
  using assms(2,3)
proof (induction ins arbitrary: pos "is")
  case (Cons i ins)
  let ?p = "previous_output i" and ?rest = "filter (\<lambda>p. \<not> is_null L p) (map previous_output ins)"
  show ?case
  proof (cases "is_null L ?p")
    case False
    with Cons.prems(1) have pos: "pos < length tx_outs" "tx_outs ! pos = Inr (rview d (outpoint_key ?p))"
      "drop (Suc pos) tx_outs = map (\<lambda>p. Inr (rview d (outpoint_key p))) ?rest @ rest"
      using drop_eq_Cons [of pos tx_outs] by simp_all
    show ?thesis
    proof (cases "disk_raw_view L rview d ?p")
      case None
      with False pos show ?thesis
        by (auto simp: disk_raw_view_def Let_def split: option.split)
    next
      case (Some out)
      then have "disk_view L rview conv d ?p \<noteq> None" by (simp add: disk_view_def)
      with Cons.prems(2) False have "\<not> set ?rest \<subseteq> dom (disk_view L rview conv d)"
        by (simp add: domIff del: set_filter)
      with Some False pos Cons.IH [OF pos(3)] show ?thesis
        by (auto simp: disk_raw_view_def out_ok [OF assms(1)] add_input Let_def bind_eq_Some_conv)
    qed
  qed (use Cons in simp)
qed simp

lemma disk_connect_txs_bad:
  assumes "good"
    and "drop pos tx_outs = map (\<lambda>p. Inr (rview d (outpoint_key p))) (concat (map (tx_spends L) txs))"
    and "\<not> set (concat (map (tx_spends L) txs)) \<subseteq> dom (disk_view L rview conv d)"
  shows "disk_connect_txs L T B tx_outs txs pos blk = Ok None"
  using assms(2,3)
proof (induction txs arbitrary: pos blk)
  case (Cons tx txs)
  let ?f = "\<lambda>p. Inr (rview d (outpoint_key p))" and ?rest = "concat (map (tx_spends L) txs)"
  have drop: "drop pos tx_outs = map ?f (tx_spends L tx) @ map ?f ?rest" using Cons.prems(1) by simp
  show ?case
  proof (cases "set (tx_spends L tx) \<subseteq> dom (disk_view L rview conv d)")
    case True
    have "disk_spend_inputs L T tx_outs (tx_input tx) pos (build tx [])
        = Ok (Some (build tx ([] @ map (\<lambda>p. the (disk_view L rview conv d p)) (tx_spends L tx)), pos + length (tx_spends L tx)))"
      unfolding tx_spends_def
      by (rule disk_spend_inputs_ok [OF assms(1)]) (use drop True in \<open>simp_all add: tx_spends_def\<close>)
    moreover have "drop (pos + length (tx_spends L tx)) tx_outs = map ?f ?rest"
      using arg_cong [OF drop, of "drop (length (tx_spends L tx))"] by (simp add: add.commute)
    moreover have "\<not> set ?rest \<subseteq> dom (disk_view L rview conv d)" using Cons.prems(2) True by simp
    ultimately show ?thesis
      using Cons.IH by (simp add: from_ok [OF assms(1)])
  next
    case False
    have "disk_spend_inputs L T tx_outs (tx_input tx) pos (build tx []) = Ok None"
      by (rule disk_spend_inputs_bad [OF assms(1)]) (use drop False in \<open>simp_all add: tx_spends_def\<close>)
    then show ?thesis by (simp add: from_ok [OF assms(1)])
  qed
qed simp

lemma disk_connect_exact:
  assumes "good" and "disk_good R rview L"
  shows "\<exists>d'. disk_connect_outpoints R L T B blk d =
      Ok (if set (block_spends L blk) \<subseteq> dom (disk_view L rview conv d)
          then Some (connected_of L build mk (disk_view L rview conv d) blk) else None, d')
    \<and> disk_view L rview conv d' = disk_view L rview conv d |` (- set (block_spends L blk))"
proof -
  have doc: "rocks_doc R rview" using assms(2) by (simp add: disk_good_def)
  let ?keys = "disk_keys L (txdata blk)"
  obtain d' where d': "disk_delete_keys R ?keys d = (True, d')" "rview d' = rview d |` (- set ?keys)"
    using disk_delete_keys_ok [OF doc] by blast
  have outs: "drop 0 (rdb_multi_get R ?keys d) = map (\<lambda>p. Inr (rview d (outpoint_key p))) (concat (map (tx_spends L) (txdata blk)))"
    by (simp add: rocks_docD(2) [OF doc] disk_keys_eq comp_def del: map_concat)
  have "disk_connect_txs L T B (rdb_multi_get R ?keys d) (txdata blk) 0 (mk (blk_header blk) [])
      = Ok (if set (block_spends L blk) \<subseteq> dom (disk_view L rview conv d)
          then Some (connected_of L build mk (disk_view L rview conv d) blk) else None)"
    using disk_connect_txs_ok [where rview = rview and d = d, OF assms(1) outs, of "blk_header blk" "[]"]
      disk_connect_txs_bad [where rview = rview and d = d, OF assms(1) outs]
    by (simp add: block_spends_def connected_of_def)
  moreover have "disk_view L rview conv d' = disk_view L rview conv d |` (- set (block_spends L blk))"
    by (auto simp: disk_view_def disk_raw_view_def d'(2) disk_keys_eq block_spends_def restrict_map_def fun_eq_iff)
  ultimately show ?thesis
    by (simp add: disk_connect_outpoints_def Let_def block_from d'(1))
qed

lemma disk_connect_ok:
  assumes "good" and "disk_good R rview L" and "spendable L (disk_view L rview conv d) blk"
  shows "\<exists>d'. disk_connect_outpoints R L T B blk d
      = Ok (Some (connected_of L build mk (disk_view L rview conv d) blk), d')
    \<and> disk_view L rview conv d' = disk_view L rview conv d |` (- set (block_spends L blk))"
  using disk_connect_exact [OF assms(1,2), of blk d] assms(3) by (simp add: spendable_def)

lemma disk_utxo_cache:
  "utxo_cache (good \<and> disk_good R rview L) L conv build mk (\<lambda>_. True) (disk_view L rview conv)
     (disk_insert_block R L) (disk_connect_outpoints R L T B)"
proof (unfold_locales, goal_cases)
  case (1 s blk)
  then show ?case using disk_insert_ok [of R rview s blk] by simp
next
  case (2 s blk)
  then show ?case using disk_connect_ok [of R rview s blk] by simp
qed

end

interpretation full_disk: utxo_cache "p2pk_doc S \<and> disk_good R rview L" L "full_txout_of S" "full_connected_of L S"
  "full_connected_block_of L" "\<lambda>_. True" "disk_view L rview (full_txout_of S)"
  "disk_insert_block R L" "disk_connect_outpoints R L (full_tx_impl L S) full_block_impl" for S R rview L
  by (rule full_blk.disk_utxo_cache)

interpretation compact_disk: utxo_cache "p2pk_doc S \<and> disk_good R rview L" L "compact_txout_of S" "compact_connected_of L S"
  "compact_connected_block_of L" "\<lambda>_. True" "disk_view L rview (compact_txout_of S)"
  "disk_insert_block R L" "disk_connect_outpoints R L (compact_tx_impl L S) compact_block_impl" for S R rview L
  by (rule compact_blk.disk_utxo_cache)

section \<open>Properties\<close>

text \<open>
  C31. Over a database that behaves as documented, connecting a block from the cache on disk never reads past the outputs fetched (no panic), and
  succeeds exactly when every input spends an output in the table; every output named is removed,
  also when the block fails. Unlike the cache in memory it does not notice an output that is spent
  twice in one block: both inputs get it.
\<close>

theorem disk_connect_outpoints_exact:
  assumes "p2pk_doc S" and "disk_good R rview L"
  shows "\<exists>d'. disk_connect_outpoints R L (compact_tx_impl L S) compact_block_impl blk d =
      Ok (if set (block_spends L blk) \<subseteq> dom (disk_view L rview (compact_txout_of S) d)
          then Some (connected_of L (compact_connected_of L S) (compact_connected_block_of L)
                 (disk_view L rview (compact_txout_of S) d) blk)
          else None, d')
    \<and> disk_view L rview (compact_txout_of S) d'
        = disk_view L rview (compact_txout_of S) d |` (- set (block_spends L blk))"
  by (rule compact_blk.disk_connect_exact [OF assms])

section \<open>A sample database\<close>

definition sample_rocks :: "(byte list \<rightharpoonup> byte list) rocksdb" where
  "sample_rocks = \<lparr>rdb_write = (\<lambda>batch d. (Inr (), d ++ map_of (rev batch))),
     rdb_multi_get = (\<lambda>keys d. map (\<lambda>k. Inr (d k)) keys), rdb_delete = (\<lambda>key d. (Inr (), d(key := None)))\<rparr>"

lemma sample_rocks_good: "disk_good sample_rocks (\<lambda>d. d) sample_lib"
  using sample_txout_codec by (simp add: disk_good_def rocks_doc_def sample_rocks_def)

theorem disk_connect_outpoints_exact_witness:
  "\<exists>b d'. disk_connect_outpoints sample_rocks sample_lib (compact_tx_impl sample_lib sample_script_lib) compact_block_impl
      \<lparr>blk_header = sample_header 1 0, txdata = [sample_tx 7 [sample_in 5 0, sample_in 5 0]]\<rparr>
      [outpoint_key \<lparr>op_txid = sample_hash 5, op_vout = 0\<rparr>
        \<mapsto> encode_txout sample_lib \<lparr>txo_value = 5, script_pubkey = []\<rparr>] = Ok (Some b, d')"
proof -
  let ?d = "[outpoint_key \<lparr>op_txid = sample_hash 5, op_vout = 0\<rparr>
        \<mapsto> encode_txout sample_lib \<lparr>txo_value = 5, script_pubkey = []\<rparr>]"
  have "set (block_spends sample_lib \<lparr>blk_header = sample_header 1 0, txdata = [sample_tx 7 [sample_in 5 0, sample_in 5 0]]\<rparr>)
      \<subseteq> dom (disk_view sample_lib (\<lambda>d. d) (compact_txout_of sample_script_lib) ?d)"
    using sample_txout_codec by (simp add: block_spends_def tx_spends_def disk_view_def disk_raw_view_def domIff)
  with disk_connect_outpoints_exact [OF sample_p2pk_doc sample_rocks_good,
      of "\<lparr>blk_header = sample_header 1 0, txdata = [sample_tx 7 [sample_in 5 0, sample_in 5 0]]\<rparr>" ?d]
  show ?thesis by auto
qed

end
