(* ===== verification/Pipeline.thy ===== *)
theory Pipeline
  imports Chain Utxo_Mem Utxo_Disk
begin

text \<open>
  \<open>iter/connected_block_iter.rs\<close>: two parallel stages over a shared cache. Workers of the first stage
  read block \<open>h\<close> and insert its outputs into the cache, in any order; the first stage hands its blocks
  on in the order of the heights, so a worker of the second stage can connect block \<open>h\<close> only once
  all blocks up to \<open>h\<close> have been inserted, but it may do so in any order and between other insertions.
  \<open>pipeline_step\<close> is that system; one step is one call of \<open>update_unspent_cache\<close> or of
  \<open>connect_outpoints\<close> (\<open>Interleave\<close> splits the second at its accesses to the cache). The lemmas show that every interleaving connects every block of a valid chain
  to the same outputs.
\<close>

record ('s, 'blk) pipeline =
  pl_cache :: 's
  pl_blocks :: "nat \<rightharpoonup> block option"
  pl_done :: "nat \<rightharpoonup> 'blk option"

text \<open>The result of each stage at a height, once there: \<open>None\<close> inside is \<open>Err(())\<close>.\<close>

definition pipeline_init :: "'s \<Rightarrow> ('s, 'blk) pipeline" where
  "pipeline_init unspent = \<lparr>pl_cache = unspent, pl_blocks = Map.empty, pl_done = Map.empty\<rparr>"

text \<open>
  \<open>ConnectedBlockIter::new\<close> on the disk: no iterator (\<open>null()\<close>) when the temporary directory or the
  database cannot be created.
\<close>

definition disk_iter_new :: "(io_error + path) \<Rightarrow> (path \<Rightarrow> 'db option) \<Rightarrow> ('db, 'blk) pipeline option" where
  "disk_iter_new tempdir create_db =
     (case tempdir of
        Inl e \<Rightarrow> None
      | Inr cache_dir \<Rightarrow> map_option pipeline_init (create_db cache_dir))"

definition mem_iter_new :: "('out mem_cache, 'blk) pipeline" where
  "mem_iter_new = pipeline_init Map.empty"

inductive pipeline_step ::
  "(nat \<Rightarrow> 's \<Rightarrow> (block option \<times> 's) result) \<Rightarrow> (block \<Rightarrow> 's \<Rightarrow> ('blk option \<times> 's) result) \<Rightarrow> nat
     \<Rightarrow> ('s, 'blk) pipeline \<Rightarrow> ('s, 'blk) pipeline \<Rightarrow> bool"
  for update connect n where
  stage1: "h < n \<Longrightarrow> pl_blocks st h = None \<Longrightarrow> update h (pl_cache st) = Ok (r, s') \<Longrightarrow>
    pipeline_step update connect n st (st\<lparr>pl_cache := s', pl_blocks := (pl_blocks st)(h \<mapsto> r)\<rparr>)"
| stage2: "pl_blocks st h = Some (Some blk) \<Longrightarrow> \<forall>k < h. \<exists>b. pl_blocks st k = Some (Some b) \<Longrightarrow>
    pl_done st h = None \<Longrightarrow> connect blk (pl_cache st) = Ok (r, s') \<Longrightarrow>
    pipeline_step update connect n st (st\<lparr>pl_cache := s', pl_done := (pl_done st)(h \<mapsto> r)\<rparr>)"

inductive_cases pipeline_stepE: "pipeline_step update connect n st st'"

text \<open>The blocks the iterator yields, from height \<open>h\<close>: in order, up to the first error.\<close>

function pipeline_output :: "(nat \<rightharpoonup> 'blk option) \<Rightarrow> nat \<Rightarrow> nat \<Rightarrow> 'blk list" where
  "pipeline_output results h n =
     (if h < n then
        (case results h of Some (Some blk) \<Rightarrow> blk # pipeline_output results (Suc h) n | _ \<Rightarrow> [])
      else [])"
  by pat_completeness auto
termination
  by (relation "measure (\<lambda>(results, h, n). n - h)") auto

declare pipeline_output.simps [simp del]

lemma pipeline_output_prefix:
  assumes "\<forall>h < m. results h = Some (Some (f h))" and "m \<le> n" and "m < n \<longrightarrow> results m = None \<or> results m = Some None"
    and "h \<le> m"
  shows "pipeline_output results h n = map f [h..<m]"
  using assms
proof (induction results h n rule: pipeline_output.induct)
  case (1 results h n)
  then show ?case
    by (cases "h < m"; cases "h < n") (auto simp: pipeline_output.simps [of results] upt_conv_Cons)
qed

lemma pipeline_output_all:
  "\<forall>h < n. results h = Some (Some (f h)) \<Longrightarrow> h \<le> n \<Longrightarrow> pipeline_output results h n = map f [h..<n]"
  by (rule pipeline_output_prefix) simp_all

section \<open>Runs are finite\<close>

lemma pipeline_run_card:
  assumes "(pipeline_step update connect n ^^ k) (pipeline_init s) st"
  shows "dom (pl_done st) \<subseteq> dom (pl_blocks st) \<and> dom (pl_blocks st) \<subseteq> {..<n}
    \<and> card (dom (pl_blocks st)) + card (dom (pl_done st)) = k"
  using assms
proof (induction k arbitrary: st)
  case 0
  then show ?case by (auto simp: pipeline_init_def)
next
  case (Suc k)
  then obtain mid where mid: "(pipeline_step update connect n ^^ k) (pipeline_init s) mid"
    and step: "pipeline_step update connect n mid st" by auto
  note IH = Suc.IH [OF mid]
  then have "finite (dom (pl_blocks mid))" "finite (dom (pl_done mid))"
    by (meson finite_lessThan finite_subset)+
  with step IH show ?case
    by (cases rule: pipeline_step.cases) (auto simp: domI card_insert_if simp del: fun_upd_apply)
qed

lemma pipeline_maximal_run:
  "\<exists>st. (pipeline_step update connect n)\<^sup>*\<^sup>* (pipeline_init s) st \<and> (\<nexists>st'. pipeline_step update connect n st st')"
proof -
  let ?reach = "\<lambda>k. \<exists>st. (pipeline_step update connect n ^^ k) (pipeline_init s) st"
  have bound: "k \<le> 2 * n" if "?reach k" for k
  proof -
    from that obtain st where "(pipeline_step update connect n ^^ k) (pipeline_init s) st" by blast
    from pipeline_run_card [OF this] have
      "dom (pl_done st) \<subseteq> {..<n}" "dom (pl_blocks st) \<subseteq> {..<n}" "card (dom (pl_blocks st)) + card (dom (pl_done st)) = k"
      by auto
    moreover from this(1,2) have "card (dom (pl_done st)) \<le> n" "card (dom (pl_blocks st)) \<le> n"
      by (metis card_lessThan card_mono finite_lessThan)+
    ultimately show ?thesis by linarith
  qed
  have "?reach 0" by auto
  then obtain k where k: "?reach k" "\<And>j. ?reach j \<Longrightarrow> j \<le> k"
    using ex_has_greatest_nat [of ?reach 0 "\<lambda>k. k" "Suc (2 * n)"] bound by (meson less_Suc_eq_le)
  then obtain st where st: "(pipeline_step update connect n ^^ k) (pipeline_init s) st" by blast
  have "\<not> pipeline_step update connect n st st'" for st'
  proof
    assume "pipeline_step update connect n st st'"
    with st have "?reach (Suc k)" by auto
    from k(2) [OF this] show False by simp
  qed
  with st show ?thesis by (meson relpowp_imp_rtranclp)
qed

section \<open>Every interleaving gives the same blocks\<close>

lemma valid_chain_dom:
  assumes "valid_chain L blks" and "h < length blks" and "p \<in> set (block_spends L (blks ! h))"
  shows "p \<in> dom (chain_outputs L blks)"
  using assms by (auto simp: valid_chain_def connectable_heights_def)

text \<open>
  The invariant: both results are those of the chain, a block is connected only after all blocks up to
  it were inserted, and the cache holds what was created and not spent.
\<close>

definition pipe_inv ::
  "bitcoin_lib \<Rightarrow> (txout \<Rightarrow> 'out) \<Rightarrow> (transaction \<Rightarrow> 'out list \<Rightarrow> 'tx) \<Rightarrow> (header \<Rightarrow> 'tx list \<Rightarrow> 'blk) \<Rightarrow> ('s \<Rightarrow> bool)
     \<Rightarrow> ('s \<Rightarrow> outpoint \<Rightarrow> 'out option) \<Rightarrow> block list \<Rightarrow> ('s, 'blk) pipeline \<Rightarrow> bool" where
  "pipe_inv L conv build mk ok view blks st \<longleftrightarrow>
     ok (pl_cache st)
     \<and> dom (pl_blocks st) \<subseteq> {..<length blks}
     \<and> (\<forall>h r. pl_blocks st h = Some r \<longrightarrow> r = Some (blks ! h))
     \<and> dom (pl_done st) \<subseteq> {..<length blks}
     \<and> (\<forall>h \<in> dom (pl_done st). {..h} \<subseteq> dom (pl_blocks st))
     \<and> (\<forall>h r. pl_done st h = Some r \<longrightarrow> r = Some (connected_of L build mk (chain_view L conv blks) (blks ! h)))
     \<and> view (pl_cache st) = (\<lambda>p. if created L blks (dom (pl_blocks st)) p \<and> \<not> spent L blks (dom (pl_done st)) p
                                  then chain_view L conv blks p else None)"

text \<open>\<open>update\<close> is the first stage on readable blocks.\<close>

definition reads_chain ::
  "(block \<Rightarrow> 's \<Rightarrow> (block option \<times> 's) result) \<Rightarrow> block list \<Rightarrow> (nat \<Rightarrow> 's \<Rightarrow> (block option \<times> 's) result) \<Rightarrow> bool" where
  "reads_chain insert_block blks update \<longleftrightarrow> (\<forall>h < length blks. \<forall>s. update h s = insert_block (blks ! h) s)"

context utxo_cache
begin

lemma pipe_inv_le:
  "pipe_inv L conv build mk ok view blks st \<Longrightarrow> view (pl_cache st) \<subseteq>\<^sub>m chain_view L conv blks"
  by (auto simp: pipe_inv_def map_le_def split: if_splits)

lemma pipe_inv_spendable:
  assumes "pipe_inv L conv build mk ok view blks st" and "valid_chain L blks" and "h < length blks" and "h \<notin> dom (pl_done st)"
    and "{..h} \<subseteq> dom (pl_blocks st)" and "p \<in> set (block_spends L (blks ! h))"
  shows "view (pl_cache st) p = chain_view L conv blks p" and "chain_view L conv blks p \<noteq> None"
proof -
  note sound = valid_chain_sound [OF assms(2)] and dom = valid_chain_dom [OF assms(2,3,6)]
  obtain k where k: "k \<le> h" "p \<in> fst ` set (block_outputs L (blks ! k))"
    using sound_chain_created [OF sound assms(3,6) dom] by blast
  with assms(5) have "created L blks (dom (pl_blocks st)) p" by (auto simp: created_def)
  moreover have "\<not> spent L blks (dom (pl_done st)) p"
  proof
    assume "spent L blks (dom (pl_done st)) p"
    then obtain j where j: "j \<in> dom (pl_done st)" "p \<in> set (block_spends L (blks ! j))" by (auto simp: spent_def)
    with assms(1,4) have "j < length blks" "j \<noteq> h" by (auto simp: pipe_inv_def)
    from sound_chain_spends(2) [OF sound assms(3) this] j(2) assms(6) show False by blast
  qed
  ultimately show "view (pl_cache st) p = chain_view L conv blks p"
    using assms(1) by (simp add: pipe_inv_def)
  show "chain_view L conv blks p \<noteq> None"
    using dom by (auto simp: chain_view_def)
qed

lemma pipe_inv_init:
  "ok s \<Longrightarrow> view s = Map.empty \<Longrightarrow> pipe_inv L conv build mk ok view blks (pipeline_init s)"
  by (simp add: pipe_inv_def pipeline_init_def created_def)

lemma pipe_inv_stage1:
  assumes "good" and "valid_chain L blks" and "pipe_inv L conv build mk ok view blks st" and "h < length blks" and "h \<notin> dom (pl_blocks st)"
  shows "\<exists>s'. insert_block (blks ! h) (pl_cache st) = Ok (Some (blks ! h), s')
    \<and> pipe_inv L conv build mk ok view blks (st\<lparr>pl_cache := s', pl_blocks := (pl_blocks st)(h \<mapsto> Some (blks ! h))\<rparr>)"
proof -
  let ?I = "dom (pl_blocks st)" and ?D = "dom (pl_done st)" and ?out = "fst ` set (block_outputs L (blks ! h))"
  from assms(3) have I: "?I \<subseteq> {..<length blks}" and D: "?D \<subseteq> {..<length blks}" "\<forall>h \<in> ?D. {..h} \<subseteq> ?I"
    and vw: "view (pl_cache st) = (\<lambda>p. if created L blks ?I p \<and> \<not> spent L blks ?D p then chain_view L conv blks p else None)"
    by (simp_all add: pipe_inv_def)
  note sound = valid_chain_sound [OF assms(2)] and le = pipe_inv_le [OF assms(3)]
  note blocks = sound_chain_blocks [OF sound]
  have "ok (pl_cache st)" using assms(3) by (simp add: pipe_inv_def)
  from insert_ok [OF assms(1) this chain_insertable [OF blocks assms(4) le]] obtain s' where
    s': "insert_block (blks ! h) (pl_cache st) = Ok (Some (blks ! h), s')" "ok s'"
    "view s' = view (pl_cache st) ++ (\<lambda>p. map_option conv (map_of (block_outputs L (blks ! h)) p))" by blast
  have unspent: "\<not> spent L blks ?D p" if "p \<in> ?out" for p
  proof
    assume "spent L blks ?D p"
    then obtain j where j: "j \<in> ?D" "p \<in> set (block_spends L (blks ! j))" by (auto simp: spent_def)
    with D(1) have "j < length blks" by auto
    from sound_chain_spends(3) [OF sound this j(2) assms(4) block_outputs_txids [OF that]] j(1) D(2) assms(5)
    show False by auto
  qed
  have "view s' p = (if created L blks (insert h ?I) p \<and> \<not> spent L blks ?D p then chain_view L conv blks p else None)" for p
    unfolding chain_insert_view(2) [OF blocks assms(4) le s'(3), of p]
    using unspent [of p] by (cases "p \<in> ?out") (simp_all add: vw)
  then have "view s' = (\<lambda>p. if created L blks (insert h ?I) p \<and> \<not> spent L blks ?D p then chain_view L conv blks p else None)"
    by blast
  with s'(1,2) assms(3,4) show ?thesis
    by (auto simp: pipe_inv_def)
qed

lemma pipe_inv_stage2:
  assumes "good" and "valid_chain L blks" and "pipe_inv L conv build mk ok view blks st" and "h \<notin> dom (pl_done st)"
    and "{..h} \<subseteq> dom (pl_blocks st)"
  shows "\<exists>s'. connect_outpoints (blks ! h) (pl_cache st)
      = Ok (Some (connected_of L build mk (chain_view L conv blks) (blks ! h)), s')
    \<and> pipe_inv L conv build mk ok view blks (st\<lparr>pl_cache := s',
        pl_done := (pl_done st)(h \<mapsto> Some (connected_of L build mk (chain_view L conv blks) (blks ! h)))\<rparr>)"
proof -
  let ?I = "dom (pl_blocks st)" and ?D = "dom (pl_done st)"
  from assms(3) have I: "?I \<subseteq> {..<length blks}" and ok: "ok (pl_cache st)"
    and vw: "view (pl_cache st) = (\<lambda>p. if created L blks ?I p \<and> \<not> spent L blks ?D p then chain_view L conv blks p else None)"
    by (simp_all add: pipe_inv_def)
  from I assms(5) have h: "h < length blks" by (meson atMost_iff lessThan_iff order_refl subsetD)
  note here = pipe_inv_spendable [OF assms(3,2) h assms(4,5)]
  have "spendable L (view (pl_cache st)) (blks ! h)"
    unfolding spendable_def using sound_chain_spends(1) [OF valid_chain_sound [OF assms(2)] h] here by (metis domI not_Some_eq subsetI)
  from connect_ok [OF assms(1) ok this] obtain s' where
    s': "connect_outpoints (blks ! h) (pl_cache st)
      = Ok (Some (connected_of L build mk (view (pl_cache st)) (blks ! h)), s')" "ok s'"
    "view s' = view (pl_cache st) |` (- set (block_spends L (blks ! h)))" by blast
  have "connected_of L build mk (view (pl_cache st)) (blks ! h) = connected_of L build mk (chain_view L conv blks) (blks ! h)"
    by (rule connected_of_cong) (rule here(1))
  moreover have "view s' = (\<lambda>p. if created L blks ?I p \<and> \<not> spent L blks (insert h ?D) p then chain_view L conv blks p else None)"
    by (auto simp: s'(3) vw restrict_map_def fun_eq_iff)
  ultimately show ?thesis
    using s'(1,2) assms(3,5) h by (auto simp: pipe_inv_def)
qed

lemma pipe_inv_step:
  assumes "good" and "valid_chain L blks" and "reads_chain insert_block blks update" and "pipe_inv L conv build mk ok view blks st"
    and "pipeline_step update connect_outpoints (length blks) st st'"
  shows "pipe_inv L conv build mk ok view blks st'"
  using assms(5)
proof (cases rule: pipeline_step.cases)
  case (stage1 h r s')
  then have "h \<notin> dom (pl_blocks st)" by auto
  from pipe_inv_stage1 [OF assms(1,2,4) stage1(2) this] stage1 assms(3) show ?thesis
    by (auto simp: reads_chain_def)
next
  case (stage2 h blk r s')
  from stage2(2) assms(4) have blk: "blk = blks ! h" by (auto simp: pipe_inv_def)
  have notin: "h \<notin> dom (pl_done st)" using stage2(4) by auto
  have inserted: "k \<in> dom (pl_blocks st)" if "k \<le> h" for k
  proof -
    have "\<exists>b. pl_blocks st k = Some (Some b)"
      using stage2(2,3) that le_neq_implies_less [of k h] by (cases "k = h") auto
    then show ?thesis by auto
  qed
  have "{..h} \<subseteq> dom (pl_blocks st)" using inserted by auto
  from pipe_inv_stage2 [OF assms(1,2,4) notin this] stage2 blk show ?thesis by auto
qed

lemma pipe_inv_reachable:
  assumes "good" and "valid_chain L blks" and "reads_chain insert_block blks update" and "ok s" and "view s = Map.empty"
    and "(pipeline_step update connect_outpoints (length blks))\<^sup>*\<^sup>* (pipeline_init s) st"
  shows "pipe_inv L conv build mk ok view blks st"
  using assms(6)
  by (induction rule: rtranclp_induct) (auto intro: pipe_inv_init assms(4,5) pipe_inv_step [OF assms(1-3)])

lemma pipe_inv_progress:
  assumes "good" and "valid_chain L blks" and "reads_chain insert_block blks update" and "pipe_inv L conv build mk ok view blks st"
    and "h < length blks" and "h \<notin> dom (pl_done st)"
  shows "\<exists>st'. pipeline_step update connect_outpoints (length blks) st st'"
proof (cases "{..<length blks} \<subseteq> dom (pl_blocks st)")
  case True
  with assms(5) have dom: "{..h} \<subseteq> dom (pl_blocks st)"
    by (meson atMost_iff lessThan_iff order_le_less_trans subset_iff)
  have here: "pl_blocks st k = Some (Some (blks ! k))" if "k \<le> h" for k
  proof -
    have "k \<in> dom (pl_blocks st)" using dom that by (meson atMost_iff subsetD)
    then obtain r where "pl_blocks st k = Some r" by auto
    with assms(4) show ?thesis by (auto simp: pipe_inv_def)
  qed
  from pipe_inv_stage2 [OF assms(1,2,4,6) dom] obtain s' r where
    run: "connect_outpoints (blks ! h) (pl_cache st) = Ok (r, s')" by blast
  have "\<forall>k < h. \<exists>b. pl_blocks st k = Some (Some b)" and "pl_done st h = None"
    using here assms(6) by auto
  from pipeline_step.stage2 [where h = h and st = st and blk = "blks ! h"
        and connect = connect_outpoints, OF here [OF order_refl] this run] show ?thesis by blast
next
  case False
  then obtain k where k: "k < length blks" "k \<notin> dom (pl_blocks st)" by auto
  from pipe_inv_stage1 [OF assms(1,2,4) this] obtain r s' where
    "insert_block (blks ! k) (pl_cache st) = Ok (r, s')" by blast
  with k(1) assms(3) have "update k (pl_cache st) = Ok (r, s')" by (simp add: reads_chain_def)
  moreover have "pl_blocks st k = None" using k(2) by auto
  ultimately show ?thesis
    using pipeline_step.stage1 [where h = k and st = st and update = update and n = "length blks"] k(1) by blast
qed

lemma pipeline_result:
  assumes "good" and "valid_chain L blks" and "reads_chain insert_block blks update" and "ok s" and "view s = Map.empty"
    and "(pipeline_step update connect_outpoints (length blks))\<^sup>*\<^sup>* (pipeline_init s) st"
  shows "(\<forall>h r. pl_done st h = Some r \<longrightarrow> r = Some (connected_of L build mk (chain_view L conv blks) (blks ! h)))
    \<and> ((\<nexists>st'. pipeline_step update connect_outpoints (length blks) st st') \<longrightarrow>
       pipeline_output (pl_done st) 0 (length blks) = map (connected_of L build mk (chain_view L conv blks)) blks)"
proof -
  note inv = pipe_inv_reachable [OF assms]
  have ideal: "\<forall>h r. pl_done st h = Some r \<longrightarrow> r = Some (connected_of L build mk (chain_view L conv blks) (blks ! h))"
    using inv by (simp add: pipe_inv_def)
  have "pipeline_output (pl_done st) 0 (length blks) = map (connected_of L build mk (chain_view L conv blks)) blks"
    if stuck: "\<nexists>st'. pipeline_step update connect_outpoints (length blks) st st'"
  proof -
    have "pl_done st h = Some (Some (connected_of L build mk (chain_view L conv blks) (blks ! h)))" if "h < length blks" for h
    proof -
      from pipe_inv_progress [OF assms(1-3) inv that] stuck obtain r where "pl_done st h = Some r" by blast
      with ideal show ?thesis by blast
    qed
    then have "pipeline_output (pl_done st) 0 (length blks)
        = map (\<lambda>h. connected_of L build mk (chain_view L conv blks) (blks ! h)) [0..<length blks]"
      by (intro pipeline_output_all) auto
    also have "\<dots> = map (connected_of L build mk (chain_view L conv blks)) blks"
      by (rule nth_equalityI) simp_all
    finally show ?thesis .
  qed
  with ideal show ?thesis by blast
qed

end

section \<open>Properties\<close>

text \<open>The block with every input that spends an output replaced by that output, full and compact.\<close>

definition full_ideal :: "bitcoin_lib \<Rightarrow> ('pk, 'addr) script_lib \<Rightarrow> block list \<Rightarrow> block \<Rightarrow> 'addr full_connected_block" where
  "full_ideal L S blks =
     connected_of L (full_connected_of L S) (full_connected_block_of L)
       (\<lambda>p. map_option (full_txout_of S) (chain_outputs L blks p))"

definition compact_ideal :: "bitcoin_lib \<Rightarrow> ('pk, 'addr) script_lib \<Rightarrow> block list \<Rightarrow> block \<Rightarrow> 'addr compact_connected_block" where
  "compact_ideal L S blks =
     connected_of L (compact_connected_of L S) (compact_connected_block_of L)
       (\<lambda>p. map_option (compact_txout_of S) (chain_outputs L blks p))"

lemma full_ideal_eq:
  "full_ideal L S blks = connected_of L (full_connected_of L S) (full_connected_block_of L) (chain_view L (full_txout_of S) blks)"
  by (simp only: full_ideal_def chain_view_def [abs_def])

lemma compact_ideal_eq:
  "compact_ideal L S blks = connected_of L (compact_connected_of L S) (compact_connected_block_of L) (chain_view L (compact_txout_of S) blks)"
  by (simp only: compact_ideal_def chain_view_def [abs_def])

definition chain_readable :: "filesystem \<Rightarrow> bitcoin_lib \<Rightarrow> bitcoin_db \<Rightarrow> block list \<Rightarrow> bool" where
  "chain_readable fs L db blks \<longleftrightarrow> (\<forall>h < length blks. get_block fs L Ok db h = Ok (blks ! h))"

lemma mem_view_empty: "mem_view Map.empty = Map.empty"
  by (simp add: mem_view_def fun_eq_iff)

lemma mem_ok_empty: "mem_ok Map.empty"
  by (simp add: mem_ok_def)

lemma mem_reads_chain:
  "chain_readable fs L db blks \<Longrightarrow>
     reads_chain (mem_insert_block L (full_tx_impl L S)) blks (mem_update_unspent_cache fs L (full_tx_impl L S) db)"
  by (simp add: chain_readable_def reads_chain_def mem_update_unspent_cache_def)

lemma disk_reads_chain:
  "chain_readable fs L db blks \<Longrightarrow> reads_chain (disk_insert_block R L) blks (disk_update_unspent_cache R fs L db)"
  by (simp add: chain_readable_def reads_chain_def disk_update_unspent_cache_def)

text \<open>
  In memory, every interleaving of the two stages gives the same result. For a valid chain of
  readable blocks, whatever the order in which workers insert and connect, each block that is
  connected has every input replaced by the output it spends, no block fails, and once no step is
  left the iterator has yielded all blocks in order.
\<close>

theorem mem_pipeline_confluent:
  assumes "p2pk_doc S" and "valid_chain L blks" and "chain_readable fs L db blks"
    and "(pipeline_step (mem_update_unspent_cache fs L (full_tx_impl L S) db)
        (mem_connect_outpoints L (full_tx_impl L S) full_block_impl) (length blks))\<^sup>*\<^sup>* mem_iter_new st"
  shows "(\<forall>h r. pl_done st h = Some r \<longrightarrow> r = Some (full_ideal L S blks (blks ! h)))
    \<and> ((\<nexists>st'. pipeline_step (mem_update_unspent_cache fs L (full_tx_impl L S) db)
          (mem_connect_outpoints L (full_tx_impl L S) full_block_impl) (length blks) st st') \<longrightarrow>
       pipeline_output (pl_done st) 0 (length blks) = map (full_ideal L S blks) blks)"
  using full_blk.mem.pipeline_result [OF assms(1,2) mem_reads_chain [OF assms(3)] mem_ok_empty mem_view_empty
      assms(4) [unfolded mem_iter_new_def]]
  by (simp only: full_ideal_eq)

text \<open>
  On disk, over any database whose operations succeed as documented, the same holds: every
  interleaving connects each block of a valid chain to the outputs it spends, and the iterator
  yields all of them in order.
\<close>

theorem disk_pipeline_confluent:
  assumes "p2pk_doc S" and "disk_good R rview L" and "valid_chain L blks" and "chain_readable fs L db blks"
    and "rview d = Map.empty"
    and "(pipeline_step (disk_update_unspent_cache R fs L db)
        (disk_connect_outpoints R L (compact_tx_impl L S) compact_block_impl) (length blks))\<^sup>*\<^sup>* (pipeline_init d) st"
  shows "(\<forall>h r. pl_done st h = Some r \<longrightarrow> r = Some (compact_ideal L S blks (blks ! h)))
    \<and> ((\<nexists>st'. pipeline_step (disk_update_unspent_cache R fs L db)
          (disk_connect_outpoints R L (compact_tx_impl L S) compact_block_impl) (length blks) st st') \<longrightarrow>
       pipeline_output (pl_done st) 0 (length blks) = map (compact_ideal L S blks) blks)"
proof -
  have "disk_view L rview (compact_txout_of S) d = Map.empty"
    by (simp add: disk_view_def disk_raw_view_def assms(5) fun_eq_iff)
  from compact_disk.pipeline_result [OF conjI [OF assms(1,2)] assms(3) disk_reads_chain [OF assms(4)] TrueI this
      assms(6)]
  show ?thesis
    by (simp only: compact_ideal_eq)
qed

text \<open>
  The pipeline always stops: a run over heights below \<open>n\<close> has at most \<open>2 * n\<close> steps, whatever the
  cache, the blocks and the outcomes of the calls.
\<close>

theorem pipeline_run_bounded:
  assumes "(pipeline_step update connect n ^^ k) (pipeline_init s) st"
  shows "k \<le> 2 * n"
proof -
  from pipeline_run_card [OF assms] have
    "dom (pl_done st) \<subseteq> {..<n}" "dom (pl_blocks st) \<subseteq> {..<n}" "card (dom (pl_blocks st)) + card (dom (pl_done st)) = k"
    by auto
  moreover from this(1,2) have "card (dom (pl_done st)) \<le> n" "card (dom (pl_blocks st)) \<le> n"
    by (metis card_lessThan card_mono finite_lessThan)+
  ultimately show ?thesis by linarith
qed

section \<open>A sample chain\<close>

text \<open>
  Two blocks, of one transaction each, in a file that begins with a size and one byte for each block;
  the second transaction spends the output of the first.
\<close>

definition spend_lib :: bitcoin_lib where
  "spend_lib = sample_lib\<lparr>decode_block := (\<lambda>bs. case bs of [] \<Rightarrow> Inl ''eof''
     | b # r \<Rightarrow> Inr (\<lparr>blk_header = sample_header (ucast b) 0,
         txdata = [sample_tx (ucast b) (if b = 5 then [] else [sample_in 5 0])]\<rparr>, r))\<rparr>"

definition spend_fs :: filesystem where
  "spend_fs = sample_fs\<lparr>fs_open := (\<lambda>_. Inr ([1, 0, 0, 0, 5, 1, 0, 0, 0, 6] @ replicate 90 5))\<rparr>"

definition spend_handle :: bitcoin_db where
  "spend_handle = \<lparr>db_blk_file = sample_blk_file,
     db_block_index = \<lparr>bi_records = [sample_record 1 0 0 4, sample_record 2 1 1 9], bi_hash_to_height = Map.empty\<rparr>,
     db_tx_db = Some sample_td\<rparr>"

definition spend_chain :: "block list" where
  "spend_chain = [\<lparr>blk_header = sample_header 5 0, txdata = [sample_tx 5 []]\<rparr>,
     \<lparr>blk_header = sample_header 6 0, txdata = [sample_tx 6 [sample_in 5 0]]\<rparr>]"

lemma spend_lib_simps [simp]:
  "block_hash spend_lib h = sample_hash (hdr_nonce h)" "compute_txid spend_lib tx = sample_hash (tx_lock_time tx)"
  "is_null spend_lib p \<longleftrightarrow> op_vout p = 0xFFFFFFFF" "encode_txout spend_lib = encode_txout sample_lib"
  "decode_txout spend_lib = decode_txout sample_lib"
  by (simp_all add: spend_lib_def)

lemma spend_outputs:
  "block_outputs spend_lib (spend_chain ! 0) = [(\<lparr>op_txid = sample_hash 5, op_vout = 0\<rparr>, \<lparr>txo_value = 5, script_pubkey = []\<rparr>)]"
  "block_outputs spend_lib (spend_chain ! Suc 0) = [(\<lparr>op_txid = sample_hash 6, op_vout = 0\<rparr>, \<lparr>txo_value = 6, script_pubkey = []\<rparr>)]"
  "block_spends spend_lib (spend_chain ! 0) = []"
  "block_spends spend_lib (spend_chain ! Suc 0) = [\<lparr>op_txid = sample_hash 5, op_vout = 0\<rparr>]"
  by (simp_all add: spend_chain_def block_outputs_def tx_outputs_def block_spends_def tx_spends_def)

lemma spend_valid: "valid_chain spend_lib spend_chain"
proof -
  have spends: "h = Suc 0 \<and> p = \<lparr>op_txid = sample_hash 5, op_vout = 0\<rparr>"
    if "h < length spend_chain" "p \<in> set (block_spends spend_lib (spend_chain ! h))" for h p
    using that spend_outputs(3,4) by (auto simp: spend_chain_def less_Suc_eq)
  have "\<forall>h < length spend_chain. \<forall>p \<in> set (block_spends spend_lib (spend_chain ! h)).
      \<forall>j < length spend_chain. op_txid p \<in> block_txids spend_lib (spend_chain ! j) \<longrightarrow> j \<le> h"
  proof (intro allI ballI impI)
    fix h p j assume "h < length spend_chain" "p \<in> set (block_spends spend_lib (spend_chain ! h))" "j < length spend_chain"
    with spends [of h p] show "j \<le> h" by (simp add: spend_chain_def)
  qed
  moreover have "sound_blocks spend_lib spend_chain" and "distinct (concat (map (block_spends spend_lib) spend_chain))"
    by (simp_all add: sound_blocks_def spend_chain_def chain_txs_def block_spends_def tx_spends_def)
  moreover have "connectable_heights spend_lib spend_chain = {..<length spend_chain}"
    using spends by (auto simp: connectable_heights_def chain_outputs_def spend_chain_def block_outputs_def tx_outputs_def)
  ultimately show ?thesis by (simp add: valid_chain_def sound_chain_def)
qed

lemma spend_readable: "chain_readable spend_fs spend_lib spend_handle spend_chain"
proof -
  have view: "blk_view spend_fs sample_blk_file 0 = Some ([1, 0, 0, 0, 5, 1, 0, 0, 0, 6] @ replicate 90 5)"
    by (simp add: blk_view_def spend_fs_def sample_blk_file_def unmask_def)
  have "read_raw_block spend_fs sample_blk_file 0 4 = Ok [5]" and "read_raw_block spend_fs sample_blk_file 0 9 = Ok [6]"
    using read_raw_block_eq [OF sample_mask_ok view, of 4] read_raw_block_eq [OF sample_mask_ok view, of 9]
    by (simp_all add: raw_block_spec_def le_u32_def)
  then have "read_block spend_fs spend_lib sample_blk_file 0 4 = Ok (spend_chain ! 0)"
    and "read_block spend_fs spend_lib sample_blk_file 0 9 = Ok (spend_chain ! 1)"
    by (simp_all add: read_block_of_raw spend_lib_def spend_chain_def)
  then have "get_block spend_fs spend_lib Ok spend_handle h = Ok (spend_chain ! h)" if "h < 2" for h
    using that by (auto simp: get_block_def spend_handle_def slice_get_def less_2_cases_iff)
  then show ?thesis
    by (simp add: chain_readable_def spend_chain_def)
qed

lemma spend_chain_outputs:
  "chain_outputs spend_lib spend_chain \<lparr>op_txid = sample_hash 5, op_vout = 0\<rparr> = Some \<lparr>txo_value = 5, script_pubkey = []\<rparr>"
  by (simp add: chain_outputs_def spend_chain_def block_outputs_def tx_outputs_def)

theorem mem_pipeline_confluent_witness:
  "\<exists>st. (pipeline_step (mem_update_unspent_cache spend_fs spend_lib (full_tx_impl spend_lib sample_script_lib) spend_handle)
        (mem_connect_outpoints spend_lib (full_tx_impl spend_lib sample_script_lib) full_block_impl) 2)\<^sup>*\<^sup>* mem_iter_new st
      \<and> map (\<lambda>b. map (\<lambda>tx. map fto_value (fct_input tx)) (fcb_txdata b)) (pipeline_output (pl_done st) 0 2) = [[[]], [[5]]]"
proof -
  have len: "length spend_chain = 2" by (simp add: spend_chain_def)
  let ?step = "pipeline_step (mem_update_unspent_cache spend_fs spend_lib (full_tx_impl spend_lib sample_script_lib) spend_handle)
    (mem_connect_outpoints spend_lib (full_tx_impl spend_lib sample_script_lib) full_block_impl) 2"
  obtain st where st: "?step\<^sup>*\<^sup>* mem_iter_new st" "\<nexists>st'. ?step st st'"
    unfolding mem_iter_new_def
    using pipeline_maximal_run [of "mem_update_unspent_cache spend_fs spend_lib (full_tx_impl spend_lib sample_script_lib) spend_handle"
        "mem_connect_outpoints spend_lib (full_tx_impl spend_lib sample_script_lib) full_block_impl" 2 Map.empty]
    by blast
  from mem_pipeline_confluent [OF sample_p2pk_doc spend_valid spend_readable st(1) [folded len]] st(2)
  have "pipeline_output (pl_done st) 0 2 = map (full_ideal spend_lib sample_script_lib spend_chain) spend_chain"
    unfolding len by blast
  moreover have "map (\<lambda>b. map (\<lambda>tx. map fto_value (fct_input tx)) (fcb_txdata b))
      (map (full_ideal spend_lib sample_script_lib spend_chain) spend_chain) = [[[]], [[5]]]"
    using spend_chain_outputs [unfolded spend_chain_def]
    by (simp add: full_ideal_def connected_of_def spend_chain_def full_connected_block_of_def full_connected_of_def
        tx_spends_def full_txout_of_def Let_def)
  ultimately show ?thesis using st(1) by metis
qed

lemma sample_disk_good: "disk_good sample_rocks (\<lambda>d. d) spend_lib"
  using sample_txout_codec by (simp add: disk_good_def rocks_doc_def sample_rocks_def txout_codec_def)

theorem disk_pipeline_confluent_witness:
  "\<exists>st. (pipeline_step (disk_update_unspent_cache sample_rocks spend_fs spend_lib spend_handle)
        (disk_connect_outpoints sample_rocks spend_lib (compact_tx_impl spend_lib sample_script_lib) compact_block_impl) 2)\<^sup>*\<^sup>*
        (pipeline_init Map.empty) st
      \<and> map (\<lambda>b. map (\<lambda>tx. map cto_value (cct_input tx)) (ccb_txdata b)) (pipeline_output (pl_done st) 0 2) = [[[]], [[5]]]"
proof -
  have len: "length spend_chain = 2" by (simp add: spend_chain_def)
  let ?step = "pipeline_step (disk_update_unspent_cache sample_rocks spend_fs spend_lib spend_handle)
    (disk_connect_outpoints sample_rocks spend_lib (compact_tx_impl spend_lib sample_script_lib) compact_block_impl) 2"
  obtain st where st: "?step\<^sup>*\<^sup>* (pipeline_init Map.empty) st" "\<nexists>st'. ?step st st'"
    using pipeline_maximal_run [of "disk_update_unspent_cache sample_rocks spend_fs spend_lib spend_handle"
        "disk_connect_outpoints sample_rocks spend_lib (compact_tx_impl spend_lib sample_script_lib) compact_block_impl"
        2 Map.empty]
    by blast
  from disk_pipeline_confluent [OF sample_p2pk_doc sample_disk_good spend_valid spend_readable refl st(1) [folded len]] st(2)
  have "pipeline_output (pl_done st) 0 2 = map (compact_ideal spend_lib sample_script_lib spend_chain) spend_chain"
    unfolding len by blast
  moreover have "map (\<lambda>b. map (\<lambda>tx. map cto_value (cct_input tx)) (ccb_txdata b))
      (map (compact_ideal spend_lib sample_script_lib spend_chain) spend_chain) = [[[]], [[5]]]"
    using spend_chain_outputs [unfolded spend_chain_def]
    by (simp add: compact_ideal_def connected_of_def spend_chain_def compact_connected_block_of_def compact_connected_of_def
        tx_spends_def compact_txout_of_def forget_txout_def full_txout_of_def Let_def)
  ultimately show ?thesis using st(1) by metis
qed

theorem pipeline_run_bounded_witness:
  "(pipeline_step (\<lambda>h (s :: nat). Ok (None :: block option, s)) (\<lambda>blk s. Ok (None :: nat option, s)) 1 ^^ 1)
     (pipeline_init 0) ((pipeline_init 0)\<lparr>pl_blocks := [0 \<mapsto> None]\<rparr>) \<and> (1 :: nat) \<le> 2 * 1"
proof
  have "pipeline_step (\<lambda>h (s :: nat). Ok (None :: block option, s)) (\<lambda>blk s. Ok (None :: nat option, s)) 1
      (pipeline_init 0) ((pipeline_init 0)\<lparr>pl_cache := 0, pl_blocks := (pl_blocks (pipeline_init 0))(0 \<mapsto> None)\<rparr>)"
    using pipeline_step.stage1 [where h = 0 and n = 1 and st = "(pipeline_init 0) :: (nat, nat) pipeline"
        and update = "\<lambda>h s. Ok (None, s)" and r = None and s' = 0]
    by (simp add: pipeline_init_def)
  then show run: "(pipeline_step (\<lambda>h (s :: nat). Ok (None :: block option, s)) (\<lambda>blk s. Ok (None :: nat option, s)) 1 ^^ 1)
     (pipeline_init 0) ((pipeline_init 0)\<lparr>pl_blocks := [0 \<mapsto> None]\<rparr>)"
    by (simp add: pipeline_init_def eq_OO)
  from pipeline_run_bounded [OF this] show "(1 :: nat) \<le> 2 * 1" .
qed

end
