(* ===== verification/Block_Iter.thy ===== *)
theory Block_Iter
  imports Pipeline
begin

text \<open>
  \<open>iter/block_iter.rs\<close> and the iterators of \<open>api.rs\<close>. \<open>into_par_iter_sync\<close> of the crate
  \<open>par_iter_sync\<close> is a parameter; it is documented to yield the results in the order of the items and
  to stop at the first \<open>Err\<close>. The last section relates the two ways to connected blocks: iterating
  with a cache of unspent outputs, and looking every input up in a transaction index that resolves it as the chain does.
\<close>

type_synonym 'b par_iter = "(nat \<Rightarrow> 'b option result) \<Rightarrow> nat list \<Rightarrow> 'b list"

definition par_iter_doc :: "'b par_iter \<Rightarrow> bool" where
  "par_iter_doc par_iter_sync \<longleftrightarrow>
     (\<forall>f g xs. (\<forall>x \<in> set xs. f x = Ok (g x)) \<longrightarrow>
        par_iter_sync f xs = map the (takeWhile (\<lambda>r. r \<noteq> None) (map g xs)))"

text \<open>\<open>map_err(|_| ())\<close>: the error is dropped.\<close>

primrec drop_error :: "'a result \<Rightarrow> 'a option result" where
  "drop_error (Ok a) = Ok (Some a)"
| "drop_error (Err e) = Ok None"
| "drop_error Panic = Panic"
| "drop_error Diverge = Diverge"

definition block_iter_new ::
  "'b par_iter \<Rightarrow> filesystem \<Rightarrow> bitcoin_lib \<Rightarrow> (block \<Rightarrow> 'b result) \<Rightarrow> bitcoin_db \<Rightarrow> nat list \<Rightarrow> 'b list" where
  "block_iter_new par_iter_sync fs L conv db heights =
     par_iter_sync (\<lambda>h. drop_error (get_block fs L conv db h)) heights"

definition block_iter_from_range ::
  "'b par_iter \<Rightarrow> filesystem \<Rightarrow> bitcoin_lib \<Rightarrow> (block \<Rightarrow> 'b result) \<Rightarrow> bitcoin_db \<Rightarrow> nat \<Rightarrow> nat \<Rightarrow> 'b list" where
  "block_iter_from_range par_iter_sync fs L conv db start stop =
     (if stop \<le> start then block_iter_new par_iter_sync fs L conv db []
      else block_iter_new par_iter_sync fs L conv db [start..<stop])"

definition block_iter ::
  "'b par_iter \<Rightarrow> filesystem \<Rightarrow> bitcoin_lib \<Rightarrow> (block \<Rightarrow> 'b result) \<Rightarrow> bitcoin_db \<Rightarrow> nat \<Rightarrow> nat \<Rightarrow> 'b list" where
  "block_iter par_iter_sync fs L conv db start stop = block_iter_from_range par_iter_sync fs L conv db start stop"

definition iter_heights ::
  "'b par_iter \<Rightarrow> filesystem \<Rightarrow> bitcoin_lib \<Rightarrow> (block \<Rightarrow> 'b result) \<Rightarrow> bitcoin_db \<Rightarrow> nat list \<Rightarrow> 'b list" where
  "iter_heights par_iter_sync fs L conv db heights = block_iter_new par_iter_sync fs L conv db heights"

text \<open>\<open>ParIterSync::next\<close> on what is left to yield, and \<open>Iterator::next\<close> of the block iterator, which calls it.\<close>

fun par_iter_next :: "'b list \<Rightarrow> 'b option \<times> 'b list" where
  "par_iter_next [] = (None, [])"
| "par_iter_next (b # bs) = (Some b, bs)"

definition block_iter_next :: "'b list \<Rightarrow> 'b option \<times> 'b list" where
  "block_iter_next it = par_iter_next it"

lemma drop_error_returns: "returns r \<Longrightarrow> drop_error r = Ok (if is_ok r then Some (result_value r) else None)"
  by (cases r) (simp_all add: is_ok_def)

lemma par_iter_docD:
  "par_iter_doc par_iter_sync \<Longrightarrow> (\<And>x. f x = Ok (g x)) \<Longrightarrow>
     par_iter_sync f xs = map the (takeWhile (\<lambda>r. r \<noteq> None) (map g xs))"
  by (simp add: par_iter_doc_def)

lemma block_iter_new_eq:
  assumes "par_iter_doc par_iter_sync" and "\<And>h. returns (get_block fs L conv db h)"
  shows "block_iter_new par_iter_sync fs L conv db heights =
    map (\<lambda>h. result_value (get_block fs L conv db h)) (takeWhile (\<lambda>h. is_ok (get_block fs L conv db h)) heights)"
proof -
  let ?g = "\<lambda>h. if is_ok (get_block fs L conv db h) then Some (result_value (get_block fs L conv db h)) else None"
  have "par_iter_sync (\<lambda>h. drop_error (get_block fs L conv db h)) heights
      = map the (takeWhile (\<lambda>r. r \<noteq> None) (map ?g heights))"
    by (rule par_iter_docD [OF assms(1) drop_error_returns [OF assms(2)]])
  also have "\<dots> = map (\<lambda>h. result_value (get_block fs L conv db h))
      (takeWhile (\<lambda>h. is_ok (get_block fs L conv db h)) heights)"
    by (induction heights) auto
  finally show ?thesis by (simp add: block_iter_new_def)
qed

text \<open>
  The block iterators yield exactly the blocks \<open>get_block\<close> returns, in the order asked for, up to the
  first height that fails: over a list of heights, and over a range, which is empty when it does not
  go up. This holds whatever the order in which the workers read.
\<close>

theorem block_iterators_yield:
  assumes "db_ok L db" and "par_iter_doc par_iter_sync"
  shows "iter_heights par_iter_sync fs L Ok db heights =
      map (\<lambda>h. result_value (get_block fs L Ok db h)) (takeWhile (\<lambda>h. is_ok (get_block fs L Ok db h)) heights)
    \<and> block_iter par_iter_sync fs L Ok db start stop =
      map (\<lambda>h. result_value (get_block fs L Ok db h))
        (takeWhile (\<lambda>h. is_ok (get_block fs L Ok db h)) [start..<stop])"
  using block_iter_new_eq [OF assms(2), of fs L Ok db] returns_get_block [OF assms(1), of Ok fs]
  by (auto simp: iter_heights_def block_iter_def block_iter_from_range_def)

definition sample_par_iter :: "'b par_iter" where
  "sample_par_iter f xs =
     map the (takeWhile (\<lambda>r. r \<noteq> None) (map (\<lambda>x. case f x of Ok r \<Rightarrow> r | _ \<Rightarrow> None) xs))"

lemma sample_par_iter_doc: "par_iter_doc sample_par_iter"
  by (auto simp: par_iter_doc_def sample_par_iter_def cong: map_cong)

theorem block_iterators_yield_witness:
  "block_iter sample_par_iter sample_db_fs sample_lib Ok sample_handle 5 9 = []"
proof -
  have "\<not> is_ok (get_block sample_db_fs sample_lib Ok sample_handle 5)"
    by (simp add: get_block_def slice_get_def sample_handle_def is_ok_def)
  then show ?thesis
    using block_iterators_yield [OF sample_db_ok sample_par_iter_doc, of sample_db_fs "[]" 5 9]
    by (simp add: upt_rec [of 5])
qed

section \<open>Two ways to connected blocks\<close>

text \<open>
  The transaction index knows the chain: an input of a transaction that is not a coinbase is resolved
  to the output of the chain that it spends, and to nothing when the chain has no such output.
\<close>

definition index_agrees :: "filesystem \<Rightarrow> bitcoin_lib \<Rightarrow> tx_db \<Rightarrow> bitcoin_db \<Rightarrow> block list \<Rightarrow> bool" where
  "index_agrees fs L td db blks \<longleftrightarrow>
     (\<forall>blk \<in> set blks. \<forall>tx \<in> set (txdata blk). \<not> is_coinbase L tx \<longrightarrow>
        (\<forall>i \<in> set (tx_input tx). \<not> is_null L (previous_output i)
           \<and> resolved fs L td (db_block_index db) (db_blk_file db) i = chain_outputs L blks (previous_output i)))"

lemma coinbase_spends: "coinbase_doc L \<Longrightarrow> is_coinbase L tx \<Longrightarrow> tx_spends L tx = []"
  by (auto simp: tx_spends_def dest: coinbase_docD)

text \<open>What the index resolves the inputs of a transaction of the chain to is what the chain has for them.\<close>

lemma index_agreesD:
  assumes "index_agrees fs L td db blks" and "blk \<in> set blks" and "tx \<in> set (txdata blk)" and "i \<in> set (tx_input tx)"
    and "\<not> is_coinbase L tx"
  shows "resolved fs L td (db_block_index db) (db_blk_file db) i = chain_outputs L blks (previous_output i)"
    and "\<not> is_null L (previous_output i)"
  using assms unfolding index_agrees_def by blast+

text \<open>In a connectable block, all of them are there.\<close>

lemma index_agrees_spends:
  assumes "index_agrees fs L td db blks" and "blk \<in> set blks" and "tx \<in> set (txdata blk)" and "\<not> is_coinbase L tx"
  shows "tx_spends L tx = map previous_output (tx_input tx)"
  unfolding tx_spends_def using index_agreesD(2) [OF assms(1-3) _ assms(4)] by (auto intro!: filter_True)

lemma index_agrees_found:
  assumes "index_agrees fs L td db blks" and "h \<in> connectable_heights L blks" and "tx \<in> set (txdata (blks ! h))"
    and "i \<in> set (tx_input tx)" and "\<not> is_coinbase L tx"
  shows "resolved fs L td (db_block_index db) (db_blk_file db) i = Some (the (chain_outputs L blks (previous_output i)))"
    and "\<not> is_null L (previous_output i)"
    and "chain_outputs L blks (previous_output i) = Some (the (chain_outputs L blks (previous_output i)))"
proof -
  from assms(2) have "blks ! h \<in> set blks" by (simp add: connectable_heights_def)
  note agree = index_agreesD [OF assms(1) this assms(3,4,5)] and spends = index_agrees_spends [OF assms(1) this assms(3,5)]
  from spends assms(4) have "previous_output i \<in> set (tx_spends L tx)" by simp
  with assms(3) have "previous_output i \<in> set (block_spends L (blks ! h))"
    unfolding block_spends_def by (auto intro!: bexI [of _ tx])
  with assms(2) have "previous_output i \<in> dom (chain_outputs L blks)" by (auto simp: connectable_heights_def)
  then show "chain_outputs L blks (previous_output i) = Some (the (chain_outputs L blks (previous_output i)))" by auto
  with agree show "resolved fs L td (db_block_index db) (db_blk_file db) i = Some (the (chain_outputs L blks (previous_output i)))"
    and "\<not> is_null L (previous_output i)" by simp_all
qed

lemma index_spends:
  assumes "coinbase_doc L" and "index_agrees fs L td db blks" and "h \<in> connectable_heights L blks" and "tx \<in> set (txdata (blks ! h))"
  shows "map (\<lambda>p. the (map_option conv (chain_outputs L blks p))) (tx_spends L tx)
    = (if is_coinbase L tx then [] else map (\<lambda>i. conv (the (chain_outputs L blks (previous_output i)))) (tx_input tx))"
proof (cases "is_coinbase L tx")
  case False
  note agree = index_agrees_found [OF assms(2-4) _ False]
  have "tx_spends L tx = map previous_output (tx_input tx)"
    unfolding tx_spends_def using agree(2) by (auto intro!: filter_True)
  moreover have "the (map_option conv (chain_outputs L blks (previous_output i))) = conv (the (chain_outputs L blks (previous_output i)))"
    if "i \<in> set (tx_input tx)" for i
    using agree(3) [OF that] by (metis option.distinct(1) option.map_sel)
  ultimately show ?thesis using False by simp
qed (simp add: coinbase_spends [OF assms(1)])

lemma get_connected_block_at:
  assumes "p2pk_doc S" and "rayon_doc R" and "coinbase_doc L" and "mask_ok (bf_xor_mask (db_blk_file db))"
    and "genesis_readable fs L (db_block_index db) (db_blk_file db)" and "db_tx_db db = Some td"
    and "index_agrees fs L td db blks" and "h \<in> connectable_heights L blks" and blk: "get_block fs L Ok db h = Ok (blks ! h)"
  shows "get_connected_block fs L (full_connected_block_connect R fs L S) db h = Ok (full_ideal L S blks (blks ! h))"
    and "get_connected_block fs L (compact_connected_block_connect R fs L S) db h = Ok (compact_ideal L S blks (blks ! h))"
proof -
  let ?out = "\<lambda>i. the (chain_outputs L blks (previous_output i))"
  note agree = index_agrees_found(1) [OF assms(7,8)] and spends = index_spends [OF assms(3,7,8)]
  have "full_connected_block_connect R fs L S (blks ! h) td (db_block_index db) (db_blk_file db)
      = Ok (full_connected_block_of L (blk_header (blks ! h)) (map (\<lambda>tx. full_connected_of L S tx
          (if is_coinbase L tx then [] else map (\<lambda>i. full_txout_of S (?out i)) (tx_input tx))) (txdata (blks ! h))))"
    by (rule full_blk.bconnect_resolved [OF assms(1,4,5,2,3)]) (rule agree)
  moreover have "compact_connected_block_connect R fs L S (blks ! h) td (db_block_index db) (db_blk_file db)
      = Ok (compact_connected_block_of L (blk_header (blks ! h)) (map (\<lambda>tx. compact_connected_of L S tx
          (if is_coinbase L tx then [] else map (\<lambda>i. compact_txout_of S (?out i)) (tx_input tx))) (txdata (blks ! h))))"
    by (rule compact_blk.bconnect_resolved [OF assms(1,4,5,2,3)]) (rule agree)
  ultimately show "get_connected_block fs L (full_connected_block_connect R fs L S) db h = Ok (full_ideal L S blks (blks ! h))"
    and "get_connected_block fs L (compact_connected_block_connect R fs L S) db h = Ok (compact_ideal L S blks (blks ! h))"
    by (simp_all add: get_connected_block_def assms(6) blk full_ideal_def compact_ideal_def connected_of_def spends
        cong: map_cong)
qed

text \<open>
  Both ways to connected blocks agree: on a valid chain that the transaction index knows,
  \<open>get_connected_block\<close>, which looks every input up in the index, returns for each height the block
  that the iterator yields there from its cache of unspent outputs, in the full and in the compact
  format.
\<close>

theorem get_connected_block_agrees:
  assumes "p2pk_doc S" and "rayon_doc R" and "coinbase_doc L" and "mask_ok (bf_xor_mask (db_blk_file db))"
    and "genesis_readable fs L (db_block_index db) (db_blk_file db)" and "db_tx_db db = Some td"
    and "chain_readable fs L db blks" and "index_agrees fs L td db blks" and "h \<in> connectable_heights L blks"
  shows "get_connected_block fs L (full_connected_block_connect R fs L S) db h = Ok (full_ideal L S blks (blks ! h))
    \<and> get_connected_block fs L (compact_connected_block_connect R fs L S) db h = Ok (compact_ideal L S blks (blks ! h))"
  using get_connected_block_at [OF assms(1-6,8,9)] assms(7,9) by (simp add: chain_readable_def connectable_heights_def)

text \<open>A block with an input that spends nothing is an error both ways.\<close>

lemma get_connected_block_missing:
  assumes "p2pk_doc S" and "rayon_doc R" and "coinbase_doc L" and "mask_ok (bf_xor_mask (db_blk_file db))"
    and "genesis_readable fs L (db_block_index db) (db_blk_file db)" and "db_tx_db db = Some td"
    and "index_agrees fs L td db blks" and "h < length blks" and "h \<notin> connectable_heights L blks"
    and blk: "get_block fs L Ok db h = Ok (blks ! h)"
  shows "\<exists>e. get_connected_block fs L (full_connected_block_connect R fs L S) db h = Err e"
    and "\<exists>e. get_connected_block fs L (compact_connected_block_connect R fs L S) db h = Err e"
proof -
  from assms(8,9) obtain tx p where tx: "tx \<in> set (txdata (blks ! h))" "p \<in> set (tx_spends L tx)" "chain_outputs L blks p = None"
    by (auto simp: connectable_heights_def block_spends_def)
  then have cb: "\<not> is_coinbase L tx" using coinbase_spends [OF assms(3), of tx] by auto
  from tx(2) obtain i where i: "i \<in> set (tx_input tx)" "p = previous_output i" by (auto simp: tx_spends_def)
  have "blks ! h \<in> set blks" using assms(8) by simp
  from index_agreesD(1) [OF assms(7) this tx(1) i(1) cb] tx(3) i(2)
  have none: "resolved fs L td (db_block_index db) (db_blk_file db) i = None" by simp
  show "\<exists>e. get_connected_block fs L (full_connected_block_connect R fs L S) db h = Err e"
    using full_blk.bconnect_missing [OF assms(1,4,5,2,3) tx(1) cb i(1) none]
    by (auto simp: get_connected_block_def assms(6) blk)
  show "\<exists>e. get_connected_block fs L (compact_connected_block_connect R fs L S) db h = Err e"
    using compact_blk.bconnect_missing [OF assms(1,4,5,2,3) tx(1) cb i(1) none]
    by (auto simp: get_connected_block_def assms(6) blk)
qed

text \<open>A transaction of a connectable block, connected on its own, is the one of the connected block.\<close>

lemma get_connected_transaction_at:
  assumes "p2pk_doc S" and "rayon_doc R" and "coinbase_doc L" and "mask_ok (bf_xor_mask (db_blk_file db))"
    and "genesis_readable fs L (db_block_index db) (db_blk_file db)" and "db_tx_db db = Some td"
    and "index_agrees fs L td db blks" and "h \<in> connectable_heights L blks" and "tx \<in> set (txdata (blks ! h))"
    and "get_transaction fs L Ok db txid = Ok tx"
  shows "get_connected_transaction fs L (full_connected_tx_connect R fs L S) db txid
      = Ok (full_connected_of L S tx (map (\<lambda>p. the (map_option (full_txout_of S) (chain_outputs L blks p))) (tx_spends L tx)))"
    and "get_connected_transaction fs L (compact_connected_tx_connect R fs L S) db txid
      = Ok (compact_connected_of L S tx (map (\<lambda>p. the (map_option (compact_txout_of S) (chain_outputs L blks p))) (tx_spends L tx)))"
proof -
  let ?out = "\<lambda>i. the (chain_outputs L blks (previous_output i))" and ?ins = "if is_coinbase L tx then [] else tx_input tx"
  note agree = index_agrees_found [OF assms(7-9)]
  have found: "\<not> is_coinbase L tx \<Longrightarrow> \<forall>i \<in> set (tx_input tx). resolved fs L td (db_block_index db) (db_blk_file db) i \<noteq> None"
    using agree(1) by blast
  have "full_connected_tx_connect R fs L S tx td (db_block_index db) (db_blk_file db)
      = Ok (full_connected_of L S tx (map (\<lambda>i. full_txout_of S (?out i)) ?ins))"
    using full_tx.connect_all_or_error [OF assms(1,4,5,2,3), of tx td] found agree(1)
    by (auto simp: Let_def cong: map_cong)
  moreover have "compact_connected_tx_connect R fs L S tx td (db_block_index db) (db_blk_file db)
      = Ok (compact_connected_of L S tx (map (\<lambda>i. compact_txout_of S (?out i)) ?ins))"
    using compact_tx.connect_all_or_error [OF assms(1,4,5,2,3), of tx td] found agree(1)
    by (auto simp: Let_def cong: map_cong)
  ultimately show "get_connected_transaction fs L (full_connected_tx_connect R fs L S) db txid
      = Ok (full_connected_of L S tx (map (\<lambda>p. the (map_option (full_txout_of S) (chain_outputs L blks p))) (tx_spends L tx)))"
    and "get_connected_transaction fs L (compact_connected_tx_connect R fs L S) db txid
      = Ok (compact_connected_of L S tx (map (\<lambda>p. the (map_option (compact_txout_of S) (chain_outputs L blks p))) (tx_spends L tx)))"
    by (auto simp: get_connected_transaction_def assms(6,10) index_spends [OF assms(3,7-9)])
qed

lemma spend_raw_blocks:
  "read_block spend_fs spend_lib sample_blk_file 0 4 = Ok (spend_chain ! 0)"
  using spend_readable
  by (auto simp: chain_readable_def spend_chain_def get_block_def spend_handle_def slice_get_def)

lemma spend_genesis: "genesis_readable spend_fs spend_lib (db_block_index spend_handle) (db_blk_file spend_handle)"
  using spend_raw_blocks by (simp add: genesis_readable_def spend_handle_def spend_chain_def)

lemma spend_coinbase_doc: "coinbase_doc spend_lib"
  using sample_coinbase_doc by (simp add: coinbase_doc_def spend_lib_def)

lemma spend_lookup:
  "blk_view spend_fs (db_blk_file spend_handle) 0 = Some ([1, 0, 0, 0, 5, 1, 0, 0, 0, 6] @ replicate 90 5)"
  "mask_ok (bf_xor_mask (db_blk_file spend_handle))"
  "ldb_get (td_db sample_td) (0x74 # sample_hash 5) = Inr (Some (varint_bytes 0 @ varint_bytes 8 @ varint_bytes 5 @ []))"
  "\<not> is_genesis_tx sample_td (sample_hash 5)"
  using sample_mask_ok
  by (simp_all add: blk_view_def spend_fs_def spend_handle_def sample_blk_file_def unmask_def sample_td_def sample_db_def
      varint_bytes_def is_genesis_tx_def)

lemma spend_decode:
  "decode_transaction spend_lib (drop (8 + 5 + 80) ([1, 0, 0, 0, 5, 1, 0, 0, 0, 6] @ replicate 90 5)) = Inr (sample_tx 5 [], replicate 6 5)"
proof -
  have "drop (8 + 5 + 80) ([1, 0, 0, 0, 5, 1, 0, 0, 0, 6] @ replicate 90 (5 :: byte)) = 5 # replicate 6 5"
    by (simp add: eval_nat_numeral)
  then show ?thesis by (simp add: spend_lib_def)
qed

lemma spend_resolved:
  "resolved spend_fs spend_lib sample_td (db_block_index spend_handle) (db_blk_file spend_handle) (sample_in 5 0)
     = Some \<lparr>txo_value = 5, script_pubkey = []\<rparr>"
proof -
  have "connect_input spend_fs spend_lib sample_td (db_block_index spend_handle) (db_blk_file spend_handle) (sample_in 5 0)
      = Ok (Some \<lparr>txo_value = 5, script_pubkey = []\<rparr>)"
    using connect_input_at_position [where i = "sample_in 5 0" and fileno = 0 and pos = 8 and off = 5 and bs = "[]",
        OF spend_lookup(2) _ _ _ _ _ _ spend_decode] spend_lookup
    by simp
  then show ?thesis by (simp add: resolved_def)
qed

lemma spend_agrees: "index_agrees spend_fs spend_lib sample_td spend_handle spend_chain"
  using spend_resolved spend_chain_outputs by (simp add: index_agrees_def spend_chain_def)

lemma spend_connectable: "connectable_heights spend_lib spend_chain = {..<2}"
  using spend_valid by (simp add: valid_chain_def) (simp add: spend_chain_def)

theorem get_connected_block_agrees_witness:
  "get_connected_block spend_fs spend_lib (full_connected_block_connect sample_rayon spend_fs spend_lib sample_script_lib)
     spend_handle 1 = Ok (full_ideal spend_lib sample_script_lib spend_chain (spend_chain ! 1))"
  using get_connected_block_agrees [OF sample_p2pk_doc sample_rayon_doc spend_coinbase_doc _ spend_genesis _ spend_readable
      spend_agrees, of 1] sample_mask_ok
  by (simp add: spend_handle_def spend_connectable)

theorem connected_block_typed_witness:
  "\<exists>cb blk. get_connected_block spend_fs spend_lib (full_connected_block_connect sample_rayon spend_fs spend_lib sample_script_lib)
     spend_handle 1 = Ok cb
   \<and> get_block spend_fs spend_lib Ok spend_handle 1 = Ok blk \<and> length (fcb_txdata cb) = length (txdata blk)"
proof -
  obtain cb where cb: "get_connected_block spend_fs spend_lib (full_connected_block_connect sample_rayon spend_fs spend_lib sample_script_lib)
     spend_handle 1 = Ok cb"
    using get_connected_block_at(1) [OF sample_p2pk_doc sample_rayon_doc spend_coinbase_doc spend_lookup(2) spend_genesis _
        spend_agrees, of 1] spend_readable by (simp add: spend_connectable) (simp add: spend_handle_def chain_readable_def spend_chain_def)
  from connected_block_typed [OF sample_p2pk_doc sample_rayon_doc spend_coinbase_doc spend_lookup(2) spend_genesis cb]
  obtain blk where "get_block spend_fs spend_lib Ok spend_handle 1 = Ok blk" "length (txdata blk) = length (fcb_txdata cb)"
    by (blast dest: list_all2_lengthD)
  with cb show ?thesis by (intro exI [of _ cb] exI [of _ blk]) simp
qed

end
