(* ===== verification/Interleave.thy ===== *)
theory Interleave
  imports Pipeline
begin

text \<open>
  \<open>iter/connected_block_iter.rs\<close> once more, at the grain at which the threads really interleave. A call
  of \<open>connect_outpoints\<close> is no longer one step: a worker goes from one access of the shared cache to the
  next (a critical section of a lock, an operation of the database), and other workers of either stage
  may come in between. \<open>fine_step\<close> is that system over any kind of worker; the locale \<open>fine_cache\<close>
  states what a backend promises, with the non-interference of the workers in the style of Owicki and
  Gries; the lemmas give the result of every interleaving and show that every run can be completed.
  \<open>Utxo_Mem_Locks\<close> and \<open>Utxo_Disk_Ops\<close> provide the two backends.
\<close>

section \<open>The system\<close>

record ('s, 'w) fine_pipeline =
  fp_cache :: 's
  fp_blocks :: "nat \<rightharpoonup> block option"
  fp_workers :: "nat \<rightharpoonup> 'w"

definition fine_init :: "'s \<Rightarrow> ('s, 'w) fine_pipeline" where
  "fine_init unspent = \<lparr>fp_cache = unspent, fp_blocks = Map.empty, fp_workers = Map.empty\<rparr>"

text \<open>
  \<open>insert\<close>: a worker of the first stage inserts block \<open>h\<close> (one critical section, after reading it).
  \<open>start\<close>: a worker of the second stage takes block \<open>h\<close>, which the first stage hands on in order.
  \<open>work\<close>: it does its next access.
\<close>

inductive fine_step ::
  "(nat \<Rightarrow> 's \<Rightarrow> (block option \<times> 's) result) \<Rightarrow> (block \<Rightarrow> 'w) \<Rightarrow> ('w \<Rightarrow> 's \<Rightarrow> ('w \<times> 's) result)
     \<Rightarrow> ('w \<Rightarrow> 'blk option option) \<Rightarrow> nat \<Rightarrow> ('s, 'w) fine_pipeline \<Rightarrow> ('s, 'w) fine_pipeline \<Rightarrow> bool"
  for update start wstep finished n where
  insert: "h < n \<Longrightarrow> fp_blocks st h = None \<Longrightarrow> update h (fp_cache st) = Ok (r, s') \<Longrightarrow>
    fine_step update start wstep finished n st (st\<lparr>fp_cache := s', fp_blocks := (fp_blocks st)(h \<mapsto> r)\<rparr>)"
| start: "fp_blocks st h = Some (Some blk) \<Longrightarrow> \<forall>k < h. \<exists>b. fp_blocks st k = Some (Some b) \<Longrightarrow>
    fp_workers st h = None \<Longrightarrow>
    fine_step update start wstep finished n st (st\<lparr>fp_workers := (fp_workers st)(h \<mapsto> start blk)\<rparr>)"
| work: "fp_workers st h = Some w \<Longrightarrow> finished w = None \<Longrightarrow> wstep w (fp_cache st) = Ok (w', s') \<Longrightarrow>
    fine_step update start wstep finished n st (st\<lparr>fp_cache := s', fp_workers := (fp_workers st)(h \<mapsto> w')\<rparr>)"

inductive_cases fine_stepE: "fine_step update start wstep finished n st st'"

text \<open>What the workers of the second stage have returned.\<close>

definition fine_done :: "('w \<Rightarrow> 'blk option option) \<Rightarrow> ('s, 'w) fine_pipeline \<Rightarrow> nat \<rightharpoonup> 'blk option" where
  "fine_done finished st h = Option.bind (fp_workers st h) finished"

section \<open>Readable heights\<close>

text \<open>
  \<open>R\<close> are the heights below \<open>n\<close> whose block can be read; the others fail in the first stage. The
  iterator can only yield the blocks below the first height that fails.
\<close>

definition reads_some ::
  "(block \<Rightarrow> 's \<Rightarrow> (block option \<times> 's) result) \<Rightarrow> block list \<Rightarrow> nat set \<Rightarrow> nat \<Rightarrow> (nat \<Rightarrow> 's \<Rightarrow> (block option \<times> 's) result) \<Rightarrow> bool" where
  "reads_some insert_block blks R n update \<longleftrightarrow> R \<subseteq> {..<length blks}
     \<and> (\<forall>h < n. \<forall>s. update h s = (if h \<in> R then insert_block (blks ! h) s else Ok (None, s)))"

definition readable_prefix :: "nat set \<Rightarrow> nat \<Rightarrow> nat" where
  "readable_prefix R n = length (takeWhile (\<lambda>h. h \<in> R) [0..<n])"

lemma readable_prefix_le: "readable_prefix R n \<le> n"
  using length_takeWhile_le [of "\<lambda>h. h \<in> R" "[0..<n]"] by (simp add: readable_prefix_def)

lemma readable_prefix_less: "h < readable_prefix R n \<Longrightarrow> h < n \<and> {..h} \<subseteq> R"
proof -
  assume h: "h < readable_prefix R n"
  have "k \<in> R" if "k \<le> h" for k
  proof -
    have k: "k < length (takeWhile (\<lambda>h. h \<in> R) [0..<n])" using that h by (simp add: readable_prefix_def)
    from nth_mem [OF this] have "takeWhile (\<lambda>h. h \<in> R) [0..<n] ! k \<in> R" by (rule set_takeWhileD [THEN conjunct2])
    moreover have "takeWhile (\<lambda>h. h \<in> R) [0..<n] ! k = k"
      using takeWhile_nth [OF k] k h readable_prefix_le [of R n] that by simp
    ultimately show ?thesis by simp
  qed
  with h readable_prefix_le [of R n] show ?thesis by auto
qed

lemma readable_prefix_end: "readable_prefix R n < n \<Longrightarrow> readable_prefix R n \<notin> R"
  using nth_length_takeWhile [of "\<lambda>h. h \<in> R" "[0..<n]"] by (simp add: readable_prefix_def)

lemma readable_prefix_length: "R \<subseteq> {..<m} \<Longrightarrow> readable_prefix R n \<le> m"
  using readable_prefix_less [of "m" R n] by (cases "m < readable_prefix R n") auto

lemma readable_prefix_all: "{..<n} \<subseteq> R \<Longrightarrow> readable_prefix R n = n"
  using readable_prefix_end [of R n] readable_prefix_le [of R n]
  by (metis lessThan_iff nless_le subsetD)

text \<open>
  The blocks that the iterator can yield: below the first height that cannot be read or whose block
  spends an output the chain does not have. On a valid chain the second does not happen.
\<close>

definition connected_prefix :: "bitcoin_lib \<Rightarrow> block list \<Rightarrow> nat set \<Rightarrow> nat \<Rightarrow> nat" where
  "connected_prefix L blks R n = readable_prefix (R \<inter> connectable_heights L blks) n"

lemma valid_connected_prefix: "valid_chain L blks \<Longrightarrow> R \<subseteq> {..<length blks} \<Longrightarrow> connected_prefix L blks R n = readable_prefix R n"
  by (simp add: connected_prefix_def valid_chain_connectable)

lemma connected_prefix_length: "connected_prefix L blks R n \<le> length blks"
  unfolding connected_prefix_def by (rule readable_prefix_length) (auto simp: connectable_heights_def)

lemma connected_prefix_le: "connected_prefix L blks R n \<le> n"
  unfolding connected_prefix_def by (rule readable_prefix_le)

lemma map_nth_take: "m \<le> length xs \<Longrightarrow> map (\<lambda>h. f (xs ! h)) [0..<m] = map f (take m xs)"
  by (intro nth_equalityI) simp_all

section \<open>What a backend promises\<close>

text \<open>
  \<open>pending w\<close> are the outpoints a worker has not looked for yet. \<open>wok b V w s\<close> says that \<open>w\<close>, in cache
  \<open>s\<close>, is on its way to connect block \<open>b\<close> to the outputs \<open>V\<close>, or to fail if \<open>V\<close> has not all of them. It
  has to survive the insertion of blocks it does not spend from and the steps of other workers. A step
  disposes of some pending outpoints, most often of one or none; when a worker fails, of all.
\<close>

definition available :: "(outpoint \<rightharpoonup> 'out) \<Rightarrow> (outpoint \<rightharpoonup> 'out) \<Rightarrow> outpoint list \<Rightarrow> bool" where
  "available view V ps \<longleftrightarrow> (\<forall>p \<in> set ps. view p = V p)"

text \<open>What is returned for block \<open>b\<close>: it connected to the outputs \<open>V\<close>, or an error when one is not there.\<close>

definition connected_or_none ::
  "bitcoin_lib \<Rightarrow> (transaction \<Rightarrow> 'out list \<Rightarrow> 'tx) \<Rightarrow> (header \<Rightarrow> 'tx list \<Rightarrow> 'blk) \<Rightarrow> (outpoint \<rightharpoonup> 'out) \<Rightarrow> block \<Rightarrow> 'blk option" where
  "connected_or_none L build mk V b =
     (if set (block_spends L b) \<subseteq> dom V then Some (connected_of L build mk V b) else None)"

lemma connected_or_none_cong:
  assumes "\<And>p. p \<in> set (block_spends L b) \<Longrightarrow> v p = v' p"
  shows "connected_or_none L build mk v b = connected_or_none L build mk v' b"
proof -
  have "set (block_spends L b) \<subseteq> dom v \<longleftrightarrow> set (block_spends L b) \<subseteq> dom v'"
    using assms by (auto simp: domIff subset_iff)
  moreover have "connected_of L build mk v b = connected_of L build mk v' b" by (rule connected_of_cong) (rule assms)
  ultimately show ?thesis by (simp add: connected_or_none_def)
qed

locale fine_cache =
  fixes good :: bool
    and L :: bitcoin_lib
    and conv :: "txout \<Rightarrow> 'out"
    and build :: "transaction \<Rightarrow> 'out list \<Rightarrow> 'tx"
    and mk :: "header \<Rightarrow> 'tx list \<Rightarrow> 'blk"
    and ok :: "'s \<Rightarrow> bool"
    and view :: "'s \<Rightarrow> outpoint \<Rightarrow> 'out option"
    and insert_block :: "block \<Rightarrow> 's \<Rightarrow> (block option \<times> 's) result"
    and start :: "block \<Rightarrow> 'w"
    and wstep :: "'w \<Rightarrow> 's \<Rightarrow> ('w \<times> 's) result"
    and finished :: "'w \<Rightarrow> 'blk option option"
    and pending :: "'w \<Rightarrow> outpoint list"
    and wsize :: "'w \<Rightarrow> nat"
    and wok :: "block \<Rightarrow> (outpoint \<Rightarrow> 'out option) \<Rightarrow> 'w \<Rightarrow> 's \<Rightarrow> bool"
  assumes insert_ok: "good \<Longrightarrow> ok s \<Longrightarrow> insertable L conv (view s) blk \<Longrightarrow>
      \<exists>s'. insert_block blk s = Ok (Some blk, s') \<and> ok s'
         \<and> view s' = view s ++ (\<lambda>p. map_option conv (map_of (block_outputs L blk) p))"
    and insert_wok: "good \<Longrightarrow> ok s \<Longrightarrow> insert_block blk s = Ok (r, s') \<Longrightarrow> wok b V w s \<Longrightarrow>
      \<forall>p \<in> set (block_spends L b). op_txid p \<notin> block_txids L blk \<Longrightarrow> wok b V w s'"
    and start_ok: "good \<Longrightarrow> wok blk V (start blk) s \<and> pending (start blk) = block_spends L blk"
    and step_ok: "good \<Longrightarrow> ok s \<Longrightarrow> wok b V w s \<Longrightarrow> finished w = None \<Longrightarrow> available (view s) V (pending w) \<Longrightarrow>
      \<exists>w' s' gone. wstep w s = Ok (w', s') \<and> ok s' \<and> wok b V w' s' \<and> wsize w' < wsize w
         \<and> pending w = gone @ pending w' \<and> view s' \<subseteq>\<^sub>m view s \<and> (\<forall>p. p \<notin> set gone \<longrightarrow> view s' p = view s p)
         \<and> (finished w' \<noteq> Some None \<longrightarrow> (\<forall>p \<in> set gone. view s' p = None))"
    and step_wok: "good \<Longrightarrow> ok s \<Longrightarrow> wok b V w s \<Longrightarrow> finished w = None \<Longrightarrow> wstep w s = Ok (w', s') \<Longrightarrow>
      wok b2 V w2 s \<Longrightarrow> wok b2 V w2 s'"
    and finished_ok: "good \<Longrightarrow> wok b V w s \<Longrightarrow> finished w = Some res \<Longrightarrow> res = connected_or_none L build mk V b"
    and finished_pending: "good \<Longrightarrow> finished w = Some res \<Longrightarrow> pending w = []"

section \<open>The invariant\<close>

text \<open>
  An outpoint is taken when a worker has it no longer pending. The cache holds nothing but outputs of the
  chain, among them those that the inserted blocks created and no worker has taken; every worker is well
  on its way and waits for outpoints of its own.
\<close>

definition taken :: "bitcoin_lib \<Rightarrow> ('w \<Rightarrow> outpoint list) \<Rightarrow> block list \<Rightarrow> (nat \<rightharpoonup> 'w) \<Rightarrow> outpoint \<Rightarrow> bool" where
  "taken L pending blks ws p \<longleftrightarrow>
     (\<exists>h w. ws h = Some w \<and> p \<in> set (block_spends L (blks ! h)) \<and> p \<notin> set (pending w))"

definition fine_inv ::
  "bitcoin_lib \<Rightarrow> ('s \<Rightarrow> bool) \<Rightarrow> ('s \<Rightarrow> outpoint \<rightharpoonup> 'out) \<Rightarrow> ('w \<Rightarrow> outpoint list)
     \<Rightarrow> (block \<Rightarrow> (outpoint \<rightharpoonup> 'out) \<Rightarrow> 'w \<Rightarrow> 's \<Rightarrow> bool) \<Rightarrow> block list \<Rightarrow> nat set \<Rightarrow> nat \<Rightarrow> (outpoint \<rightharpoonup> 'out)
     \<Rightarrow> ('s, 'w) fine_pipeline \<Rightarrow> bool" where
  "fine_inv L ok view pending wok blks R n V st \<longleftrightarrow>
     ok (fp_cache st)
     \<and> (\<forall>h r. fp_blocks st h = Some r \<longrightarrow> h < n \<and> r = (if h \<in> R then Some (blks ! h) else None))
     \<and> (\<forall>h w. fp_workers st h = Some w \<longrightarrow> {..h} \<subseteq> R \<inter> dom (fp_blocks st) \<and> wok (blks ! h) V w (fp_cache st)
          \<and> (\<exists>gone. block_spends L (blks ! h) = gone @ pending w))
     \<and> view (fp_cache st) \<subseteq>\<^sub>m V
     \<and> (\<forall>p. created L blks (R \<inter> dom (fp_blocks st)) p \<longrightarrow> \<not> taken L pending blks (fp_workers st) p \<longrightarrow> view (fp_cache st) p = V p)"

lemma fine_invD:
  assumes "fine_inv L ok view pending wok blks R n V st"
  shows "ok (fp_cache st)"
    and "fp_blocks st h = Some r \<Longrightarrow> h < n \<and> r = (if h \<in> R then Some (blks ! h) else None)"
    and "fp_workers st h = Some w \<Longrightarrow> {..h} \<subseteq> R \<inter> dom (fp_blocks st)"
    and "fp_workers st h = Some w \<Longrightarrow> wok (blks ! h) V w (fp_cache st)"
    and "fp_workers st h = Some w \<Longrightarrow> \<exists>gone. block_spends L (blks ! h) = gone @ pending w"
    and "view (fp_cache st) \<subseteq>\<^sub>m V"
    and "created L blks (R \<inter> dom (fp_blocks st)) p \<Longrightarrow> \<not> taken L pending blks (fp_workers st) p \<Longrightarrow> view (fp_cache st) p = V p"
  using assms unfolding fine_inv_def by blast+

lemma fine_invI:
  assumes "fp_cache st = c" and "fp_blocks st = bs" and "fp_workers st = ws" and "ok c"
    and "\<And>h r. bs h = Some r \<Longrightarrow> h < n \<and> r = (if h \<in> R then Some (blks ! h) else None)"
    and "\<And>h w. ws h = Some w \<Longrightarrow> {..h} \<subseteq> R \<inter> dom bs \<and> wok (blks ! h) V w c
          \<and> (\<exists>gone. block_spends L (blks ! h) = gone @ pending w)"
    and "view c \<subseteq>\<^sub>m V"
    and "\<And>p. created L blks (R \<inter> dom bs) p \<Longrightarrow> \<not> taken L pending blks ws p \<Longrightarrow> view c p = V p"
  shows "fine_inv L ok view pending wok blks R n V st"
  unfolding fine_inv_def assms(1-3) using assms(4-8) by blast

lemma fine_inv_init:
  "ok s \<Longrightarrow> view s = Map.empty \<Longrightarrow> fine_inv L ok view pending wok blks R n V (fine_init s)"
  by (simp add: fine_inv_def fine_init_def created_def)

lemma taken_upd:
  assumes "ws h = Some w" and "p \<notin> set (block_spends L (blks ! h))"
  shows "taken L pending blks (ws(h \<mapsto> w')) p \<longleftrightarrow> taken L pending blks ws p"
  using assms unfolding taken_def by (metis fun_upd_apply option.sel)

lemma taken_owner:
  assumes "ws h = Some w" and "p \<in> set (block_spends L (blks ! h))"
    and "\<And>j v. ws j = Some v \<Longrightarrow> p \<in> set (block_spends L (blks ! j)) \<Longrightarrow> j = h"
  shows "taken L pending blks ws p \<longleftrightarrow> p \<notin> set (pending w)"
  using assms unfolding taken_def by (metis option.sel)

text \<open>What is pending is in the cache if the chain has it, since no other block spends it.\<close>

lemma fine_inv_available:
  assumes "fine_inv L ok view pending wok blks R n (chain_view L conv blks) st" and "sound_chain L blks"
    and "R \<subseteq> {..<length blks}" and "fp_workers st h = Some w"
  shows "available (view (fp_cache st)) (chain_view L conv blks) (pending w)"
  unfolding available_def
proof (intro ballI)
  fix p assume p: "p \<in> set (pending w)"
  note inv = fine_invD [OF assms(1)]
  from inv(3,5) [OF assms(4)] obtain gone where below: "{..h} \<subseteq> R \<inter> dom (fp_blocks st)"
    and gone: "block_spends L (blks ! h) = gone @ pending w" by blast
  from below assms(3) have h: "h < length blks" by auto
  from gone p have spends: "p \<in> set (block_spends L (blks ! h))" by simp
  show "view (fp_cache st) p = chain_view L conv blks p"
  proof (cases "p \<in> dom (chain_outputs L blks)")
    case False
    then have none: "chain_view L conv blks p = None" by (simp add: chain_view_def domIff)
    with map_leD [OF inv(6), of p] show ?thesis by (cases "view (fp_cache st) p") auto
  next
    case True
    from sound_chain_created [OF assms(2) h spends this] obtain k where
      "k \<le> h" "p \<in> fst ` set (block_outputs L (blks ! k))" by blast
    with below have "created L blks (R \<inter> dom (fp_blocks st)) p" by (auto simp: created_def)
    moreover have "\<not> taken L pending blks (fp_workers st) p"
    proof
      assume "taken L pending blks (fp_workers st) p"
      then obtain j v where j: "fp_workers st j = Some v" "p \<in> set (block_spends L (blks ! j))" "p \<notin> set (pending v)"
        by (auto simp: taken_def)
      from inv(3) [OF j(1)] assms(3) have "j < length blks" by auto
      moreover from j p assms(4) have "j \<noteq> h" by auto
      ultimately show False using sound_chain_spends(2) [OF assms(2) h, of j] j(2) spends by blast
    qed
    ultimately show ?thesis by (rule inv(7))
  qed
qed

section \<open>Every step keeps the invariant and can be done\<close>

lemma fine_inv_insert_bad:
  assumes "fine_inv L ok view pending wok blks R n V st" and "h < n" and "h \<notin> R"
  shows "fine_inv L ok view pending wok blks R n V (st\<lparr>fp_blocks := (fp_blocks st)(h \<mapsto> None)\<rparr>)"
proof -
  have "R \<inter> insert h (dom (fp_blocks st)) = R \<inter> dom (fp_blocks st)" using assms(3) by blast
  with assms show ?thesis by (auto simp: fine_inv_def)
qed

text \<open>A running worker spends nothing of a block that is still to be inserted.\<close>

lemma fine_inv_spends_inserted:
  assumes "fine_inv L ok view pending wok blks R n V st" and "sound_chain L blks" and "R \<subseteq> {..<length blks}"
    and "h < length blks" and "h \<notin> R \<inter> dom (fp_blocks st)" and "fp_workers st j = Some w"
  shows "\<forall>p \<in> set (block_spends L (blks ! j)). op_txid p \<notin> block_txids L (blks ! h)"
proof (intro ballI notI)
  fix p assume p: "p \<in> set (block_spends L (blks ! j))" and "op_txid p \<in> block_txids L (blks ! h)"
  from fine_invD(3) [OF assms(1,6)] have below: "{..j} \<subseteq> R \<inter> dom (fp_blocks st)" .
  with assms(3) have "j < length blks" by auto
  from sound_chain_spends(3) [OF assms(2) this p assms(4)] \<open>op_txid p \<in> _\<close> have "h \<le> j" by blast
  with below assms(5) show False by auto
qed

context fine_cache
begin

lemma fine_inv_insert:
  assumes "good" and "sound_chain L blks" and "R \<subseteq> {..<length blks}" and "h < n" and "h \<in> R" and "fp_blocks st h = None"
    and inv: "fine_inv L ok view pending wok blks R n (chain_view L conv blks) st"
  shows "\<exists>s'. insert_block (blks ! h) (fp_cache st) = Ok (Some (blks ! h), s')
    \<and> fine_inv L ok view pending wok blks R n (chain_view L conv blks)
        (st\<lparr>fp_cache := s', fp_blocks := (fp_blocks st)(h \<mapsto> Some (blks ! h))\<rparr>)"
proof -
  let ?I = "R \<inter> dom (fp_blocks st)"
  have h: "h < length blks" and new: "h \<notin> ?I" and I: "?I \<subseteq> {..<length blks}" using assms(3,5,6) by auto
  have I': "R \<inter> dom ((fp_blocks st)(h \<mapsto> Some (blks ! h))) = insert h ?I" using assms(5) by auto
  note blocks = sound_chain_blocks [OF assms(2)] and le = fine_invD(6) [OF inv]
  obtain s' where s': "insert_block (blks ! h) (fp_cache st) = Ok (Some (blks ! h), s')" "ok s'"
    "view s' = view (fp_cache st) ++ (\<lambda>p. map_option conv (map_of (block_outputs L (blks ! h)) p))"
    using insert_ok [OF assms(1) fine_invD(1) [OF inv] chain_insertable [OF blocks h le]]
    by blast
  note view' = chain_insert_view [OF blocks h le s'(3)]
  have vw: "view s' p = chain_view L conv blks p"
    if "created L blks (insert h ?I) p" "\<not> taken L pending blks (fp_workers st) p" for p
    using that fine_invD(7) [OF inv, of p] by (auto simp: view'(2))
  have "wok (blks ! j) (chain_view L conv blks) w s'" if "fp_workers st j = Some w" for j w
    by (rule insert_wok [OF assms(1) fine_invD(1) [OF inv] s'(1) fine_invD(4) [OF inv that]
        fine_inv_spends_inserted [OF inv assms(2,3) h new that]])
  then have workers: "{..j} \<subseteq> insert h ?I \<and> wok (blks ! j) (chain_view L conv blks) w s'
      \<and> (\<exists>gone. block_spends L (blks ! j) = gone @ pending w)" if "fp_workers st j = Some w" for j w
    using fine_invD(3,5) [OF inv that] that by blast
  have "fine_inv L ok view pending wok blks R n (chain_view L conv blks)
       (st\<lparr>fp_cache := s', fp_blocks := (fp_blocks st)(h \<mapsto> Some (blks ! h))\<rparr>)"
  proof (rule fine_invI [where c = s' and bs = "(fp_blocks st)(h \<mapsto> Some (blks ! h))" and ws = "fp_workers st"])
    show "k < n \<and> r = (if k \<in> R then Some (blks ! k) else None)"
      if "((fp_blocks st)(h \<mapsto> Some (blks ! h))) k = Some r" for k r
      using that fine_invD(2) [OF inv, of k r] assms(4,5) by (auto split: if_splits)
  qed (simp_all only: I', simp_all add: s'(2) workers vw view'(1) del: fun_upd_apply created_insert)
  with s'(1) show ?thesis by blast
qed

lemma fine_inv_start:
  assumes "good" and "{..h} \<subseteq> R \<inter> dom (fp_blocks st)" and "fp_workers st h = None"
    and inv: "fine_inv L ok view pending wok blks R n V st"
  shows "fine_inv L ok view pending wok blks R n V (st\<lparr>fp_workers := (fp_workers st)(h \<mapsto> start (blks ! h))\<rparr>)"
proof -
  note st = start_ok [OF assms(1), of "blks ! h" V "fp_cache st"]
  have same: "taken L pending blks ((fp_workers st)(h \<mapsto> start (blks ! h))) p \<longleftrightarrow> taken L pending blks (fp_workers st) p" for p
    unfolding taken_def using assms(3) st by (metis fun_upd_apply option.distinct(1) option.sel)
  show ?thesis
  proof (rule fine_invI [where c = "fp_cache st" and bs = "fp_blocks st" and ws = "(fp_workers st)(h \<mapsto> start (blks ! h))"])
    show "{..j} \<subseteq> R \<inter> dom (fp_blocks st) \<and> wok (blks ! j) V w (fp_cache st)
        \<and> (\<exists>gone. block_spends L (blks ! j) = gone @ pending w)"
      if "((fp_workers st)(h \<mapsto> start (blks ! h))) j = Some w" for j w
      using that st assms(2) fine_invD(3-5) [OF inv, of j w] by (cases "j = h") auto
  qed (simp_all add: same fine_invD(1,6) [OF inv] fine_invD(2) [OF inv] fine_invD(7) [OF inv] del: fun_upd_apply)
qed

lemma fine_inv_work:
  assumes "good" and "sound_chain L blks" and "R \<subseteq> {..<length blks}" and "fp_workers st h = Some w" and "finished w = None"
    and inv: "fine_inv L ok view pending wok blks R n (chain_view L conv blks) st"
  shows "\<exists>w' s'. wstep w (fp_cache st) = Ok (w', s') \<and> wsize w' < wsize w
    \<and> fine_inv L ok view pending wok blks R n (chain_view L conv blks)
        (st\<lparr>fp_cache := s', fp_workers := (fp_workers st)(h \<mapsto> w')\<rparr>)"
proof -
  let ?V = "chain_view L conv blks" and ?ws = "fp_workers st"
  note avail = fine_inv_available [OF inv assms(2,3)]
  have h: "h < length blks" using fine_invD(3) [OF inv assms(4)] assms(3) by auto
  obtain gone where gone: "block_spends L (blks ! h) = gone @ pending w"
    using fine_invD(5) [OF inv assms(4)] by blast
  obtain w' s' t where w': "wstep w (fp_cache st) = Ok (w', s')" "ok s'" "wok (blks ! h) ?V w' s'" "wsize w' < wsize w"
    "pending w = t @ pending w'" "view s' \<subseteq>\<^sub>m view (fp_cache st)" "\<forall>p. p \<notin> set t \<longrightarrow> view s' p = view (fp_cache st) p"
    using step_ok [OF assms(1) fine_invD(1) [OF inv] fine_invD(4) [OF inv assms(4)] assms(5) avail [OF assms(4)]] by meson
  have "distinct (block_spends L (blks ! h))" by (rule sound_chain_spends(1) [OF assms(2) h])
  then have t: "set t \<inter> set (pending w') = {}" by (simp add: gone w'(5))
  have taken': "taken L pending blks (?ws(h \<mapsto> w')) p \<longleftrightarrow> taken L pending blks ?ws p \<or> p \<in> set t" for p
  proof (cases "p \<in> set (block_spends L (blks ! h))")
    case True
    then have owner: "j = h" if "?ws j = Some v" "p \<in> set (block_spends L (blks ! j))" for j v
      using sound_chain_spends(2) [OF assms(2) h, of j] fine_invD(3) [OF inv that(1)] assms(3) that(2) by blast
    then have "taken L pending blks (?ws(h \<mapsto> w')) p \<longleftrightarrow> p \<notin> set (pending w')"
      by (intro taken_owner [OF _ True]) (auto split: if_splits)
    moreover have "taken L pending blks ?ws p \<longleftrightarrow> p \<notin> set (pending w)"
      by (rule taken_owner [where h = h]) (use assms(4) True owner in blast)+
    ultimately show ?thesis using w'(5) t by auto
  next
    case False
    with taken_upd [of ?ws h w p L blks pending w'] assms(4) gone w'(5) show ?thesis by auto
  qed
  have vw: "view s' p = ?V p"
    if "created L blks (R \<inter> dom (fp_blocks st)) p" "\<not> taken L pending blks (?ws(h \<mapsto> w')) p" for p
    using that fine_invD(7) [OF inv, of p] w'(7) by (simp add: taken')
  have le: "view s' \<subseteq>\<^sub>m ?V" by (rule map_le_trans [OF w'(6) fine_invD(6) [OF inv]])
  have "wok (blks ! j) ?V v s'" if "?ws j = Some v" for j v
    by (rule step_wok [OF assms(1) fine_invD(1) [OF inv] fine_invD(4) [OF inv assms(4)] assms(5) w'(1) fine_invD(4) [OF inv that]])
  moreover have "\<exists>gone. block_spends L (blks ! h) = gone @ pending w'"
    using gone w'(5) by (metis append.assoc)
  ultimately have workers: "{..j} \<subseteq> R \<inter> dom (fp_blocks st) \<and> wok (blks ! j) ?V v s'
      \<and> (\<exists>gone. block_spends L (blks ! j) = gone @ pending v)" if "(?ws(h \<mapsto> w')) j = Some v" for j v
    using that w'(3) fine_invD(3) [OF inv assms(4)] fine_invD(3,5) [OF inv, of j v] by (cases "j = h") auto
  have "fine_inv L ok view pending wok blks R n ?V (st\<lparr>fp_cache := s', fp_workers := ?ws(h \<mapsto> w')\<rparr>)"
  proof (rule fine_invI [where c = s' and bs = "fp_blocks st" and ws = "?ws(h \<mapsto> w')"])
    show "{..j} \<subseteq> R \<inter> dom (fp_blocks st) \<and> wok (blks ! j) ?V v s' \<and> (\<exists>gone. block_spends L (blks ! j) = gone @ pending v)"
      if "(?ws(h \<mapsto> w')) j = Some v" for j v
      using that by (rule workers)
  qed (simp_all add: w'(2) fine_invD(2) [OF inv] vw le del: fun_upd_apply)
  with w'(1,4) show ?thesis by blast
qed

end

text \<open>How much is left to do: each step does a part of it.\<close>

definition fine_measure :: "(block \<Rightarrow> 'w) \<Rightarrow> ('w \<Rightarrow> nat) \<Rightarrow> (nat \<Rightarrow> block) \<Rightarrow> nat \<Rightarrow> ('s, 'w) fine_pipeline \<Rightarrow> nat" where
  "fine_measure start wsize blk_at n st =
     (\<Sum>h < n. (case fp_blocks st h of None \<Rightarrow> 1 | Some r \<Rightarrow> 0)
        + (case fp_workers st h of None \<Rightarrow> Suc (wsize (start (blk_at h))) | Some w \<Rightarrow> wsize w))"

lemma sum_less_at:
  fixes f g :: "nat \<Rightarrow> nat"
  assumes "h < n" and "f h < g h" and "\<And>k. k \<noteq> h \<Longrightarrow> f k = g k"
  shows "(\<Sum>k < n. f k) < (\<Sum>k < n. g k)"
proof (rule sum_strict_mono_ex1)
  show "\<forall>k \<in> {..<n}. f k \<le> g k"
  proof
    fix k assume "k \<in> {..<n}"
    show "f k \<le> g k" by (cases "k = h") (use assms(2,3) in simp_all)
  qed
qed (use assms(1,2) in auto)

text \<open>
  Runs are finite whatever the blocks are, as long as the block at a height does not depend on the
  cache and each access of a worker brings it closer to its end.
\<close>

definition fine_shape :: "(nat \<Rightarrow> block) \<Rightarrow> nat \<Rightarrow> ('s, 'w) fine_pipeline \<Rightarrow> bool" where
  "fine_shape blk_at n st \<longleftrightarrow>
     (\<forall>h r. fp_blocks st h = Some r \<longrightarrow> h < n \<and> (r = None \<or> r = Some (blk_at h)))
     \<and> dom (fp_workers st) \<subseteq> {..<n}"

lemma fine_step_measure:
  assumes "\<And>h s r s'. h < n \<Longrightarrow> update h s = Ok (r, s') \<Longrightarrow> r = None \<or> r = Some (blk_at h)"
    and "\<And>w s w' s'. finished w = None \<Longrightarrow> wstep w s = Ok (w', s') \<Longrightarrow> wsize w' < wsize w"
    and shape: "fine_shape blk_at n st" and "fine_step update start wstep finished n st st'"
  shows "fine_shape blk_at n st' \<and> fine_measure start wsize blk_at n st' < fine_measure start wsize blk_at n st"
  using assms(4)
proof (cases rule: fine_step.cases)
  case (insert h r s')
  have "fine_shape blk_at n st'"
    using shape assms(1) [OF insert(2,4)] insert(1,2) by (auto simp: fine_shape_def)
  moreover have "fine_measure start wsize blk_at n st' < fine_measure start wsize blk_at n st"
    unfolding fine_measure_def by (rule sum_less_at [OF insert(2)]) (simp_all add: insert(1,3))
  ultimately show ?thesis by blast
next
  case (start h blk)
  have h: "h < n" "blk = blk_at h" using shape start(2) by (auto simp: fine_shape_def)
  have "fine_shape blk_at n st'" using shape start(1) h(1) by (auto simp: fine_shape_def)
  moreover have "fine_measure start wsize blk_at n st' < fine_measure start wsize blk_at n st"
    unfolding fine_measure_def by (rule sum_less_at [OF h(1)]) (simp_all add: start(1,4) h(2))
  ultimately show ?thesis by blast
next
  case (work h w w' s')
  have h: "h < n" using shape work(2) by (auto simp: fine_shape_def)
  have "fine_shape blk_at n st'" using shape work(1) h by (auto simp: fine_shape_def)
  moreover have "fine_measure start wsize blk_at n st' < fine_measure start wsize blk_at n st"
    unfolding fine_measure_def by (rule sum_less_at [OF h]) (simp_all add: work(1,2) assms(2) [OF work(3,4)])
  ultimately show ?thesis by blast
qed

lemma fine_run_bounded:
  assumes "\<And>h s r s'. h < n \<Longrightarrow> update h s = Ok (r, s') \<Longrightarrow> r = None \<or> r = Some (blk_at h)"
    and "\<And>w s w' s'. finished w = None \<Longrightarrow> wstep w s = Ok (w', s') \<Longrightarrow> wsize w' < wsize w"
    and "(fine_step update start wstep finished n ^^ k) (fine_init s) st"
  shows "k \<le> (\<Sum>h < n. 2 + wsize (start (blk_at h)))"
proof -
  have "fine_shape blk_at n st \<and> fine_measure start wsize blk_at n st + k \<le> fine_measure start wsize blk_at n (fine_init s)"
    using assms(3)
  proof (induction k arbitrary: st)
    case (Suc k)
    then obtain mid where mid: "(fine_step update start wstep finished n ^^ k) (fine_init s) mid"
      and step: "fine_step update start wstep finished n mid st" by auto
    from Suc.IH [OF mid] fine_step_measure [of n update blk_at finished wstep wsize, OF assms(1,2) _ step] show ?case by force
  qed (simp add: fine_shape_def fine_init_def)
  then show ?thesis by (simp add: fine_measure_def fine_init_def)
qed

context fine_cache
begin

lemma fine_inv_step:
  assumes "good" and "sound_chain L blks" and "reads_some insert_block blks R n update"
    and inv: "fine_inv L ok view pending wok blks R n (chain_view L conv blks) st"
    and "fine_step update start wstep finished n st st'"
  shows "fine_inv L ok view pending wok blks R n (chain_view L conv blks) st'
    \<and> fine_measure start wsize ((!) blks) n st' < fine_measure start wsize ((!) blks) n st"
proof -
  from assms(3) have R: "R \<subseteq> {..<length blks}" by (simp add: reads_some_def)
  from assms(5) show ?thesis
  proof (cases rule: fine_step.cases)
    case (insert h r s')
    have "fine_inv L ok view pending wok blks R n (chain_view L conv blks) st'"
    proof (cases "h \<in> R")
      case True
      with assms(3) insert(2,4) have "insert_block (blks ! h) (fp_cache st) = Ok (r, s')" by (simp add: reads_some_def)
      with fine_inv_insert [OF assms(1,2) R insert(2) True insert(3) inv] insert(1) show ?thesis by auto
    next
      case False
      with assms(3) insert(2,4) have "r = None" "s' = fp_cache st" by (auto simp: reads_some_def)
      with fine_inv_insert_bad [OF inv insert(2) False] insert(1) show ?thesis by simp
    qed
    moreover have "fine_measure start wsize ((!) blks) n st' < fine_measure start wsize ((!) blks) n st"
      unfolding fine_measure_def by (rule sum_less_at [OF insert(2)]) (simp_all add: insert(1,3))
    ultimately show ?thesis by blast
  next
    case (start h blk)
    have below: "{..h} \<subseteq> R \<inter> dom (fp_blocks st)"
    proof
      fix k assume "k \<in> {..h}"
      then have "k < h \<or> k = h" by auto
      with start(2,3) obtain b where "fp_blocks st k = Some (Some b)" by blast
      with fine_invD(2) [OF inv this] show "k \<in> R \<inter> dom (fp_blocks st)" by (auto split: if_splits)
    qed
    from fine_invD(2) [OF inv start(2)] have "h < n" "blk = blks ! h" by (auto split: if_splits)
    moreover from this start(1) fine_inv_start [OF assms(1) below start(4) inv]
    have "fine_inv L ok view pending wok blks R n (chain_view L conv blks) st'" by simp
    moreover have "fine_measure start wsize ((!) blks) n st' < fine_measure start wsize ((!) blks) n st"
      unfolding fine_measure_def by (rule sum_less_at [OF \<open>h < n\<close>]) (simp_all add: start(1,4) \<open>blk = blks ! h\<close>)
    ultimately show ?thesis by blast
  next
    case (work h w w' s')
    from fine_inv_work [OF assms(1,2) R work(2,3) inv] work(1,4) have
      "fine_inv L ok view pending wok blks R n (chain_view L conv blks) st'" and less: "wsize w' < wsize w" by auto
    moreover from fine_invD(3) [OF inv work(2)] have "h \<in> dom (fp_blocks st)" by auto
    with fine_invD(2) [OF inv] have "h < n" by blast
    have "fine_measure start wsize ((!) blks) n st' < fine_measure start wsize ((!) blks) n st"
      unfolding fine_measure_def by (rule sum_less_at [OF \<open>h < n\<close>]) (simp_all add: work(1,2) less)
    ultimately show ?thesis by blast
  qed
qed

lemma fine_inv_run:
  assumes "good" and "sound_chain L blks" and "reads_some insert_block blks R n update"
    and "fine_inv L ok view pending wok blks R n (chain_view L conv blks) st"
    and "(fine_step update start wstep finished n ^^ k) st st'"
  shows "fine_inv L ok view pending wok blks R n (chain_view L conv blks) st'
    \<and> fine_measure start wsize ((!) blks) n st' + k \<le> fine_measure start wsize ((!) blks) n st"
  using assms(5)
proof (induction k arbitrary: st')
  case 0
  with assms(4) show ?case by simp
next
  case (Suc k)
  then obtain mid where mid: "(fine_step update start wstep finished n ^^ k) st mid"
    and step: "fine_step update start wstep finished n mid st'" by auto
  from Suc.IH [OF mid] fine_inv_step [OF assms(1-3) _ step] show ?case by force
qed

text \<open>
  What a worker returns is the block of the chain, or an error when it cannot be connected, and a
  worker that has not returned has a step.
\<close>

lemma fine_inv_done:
  assumes "good" and "R \<subseteq> {..<length blks}" and "fine_inv L ok view pending wok blks R n (chain_view L conv blks) st"
    and "fine_done finished st h = Some r"
  shows "{..h} \<subseteq> R \<and> r = (if h \<in> R \<inter> connectable_heights L blks
      then Some (connected_of L build mk (chain_view L conv blks) (blks ! h)) else None)"
proof -
  from assms(4) obtain w where w: "fp_workers st h = Some w" "finished w = Some r"
    by (auto simp: fine_done_def bind_eq_Some_conv)
  from fine_invD(3) [OF assms(3) w(1)] have below: "{..h} \<subseteq> R" by blast
  then have "h \<in> R" "h < length blks" using assms(2) by auto
  with finished_ok [OF assms(1) fine_invD(4) [OF assms(3) w(1)] w(2)] below show ?thesis
    by (simp add: connected_or_none_def connectable_heights_def)
qed

lemma fine_stuck:
  assumes "good" and "sound_chain L blks" and "reads_some insert_block blks R n update"
    and inv: "fine_inv L ok view pending wok blks R n (chain_view L conv blks) st"
    and stuck: "\<nexists>st'. fine_step update start wstep finished n st st'"
  shows "h < n \<Longrightarrow> fp_blocks st h \<noteq> None"
    and "h < n \<Longrightarrow> {..h} \<subseteq> R \<Longrightarrow> fine_done finished st h \<noteq> None"
proof -
  from assms(3) have R: "R \<subseteq> {..<length blks}" by (simp add: reads_some_def)
  have all: "fp_blocks st h \<noteq> None" if "h < n" for h
  proof
    assume none: "fp_blocks st h = None"
    have "\<exists>r s'. update h (fp_cache st) = Ok (r, s')"
    proof (cases "h \<in> R")
      case True
      with fine_inv_insert [OF assms(1,2) R that True none inv] assms(3) that show ?thesis
        by (auto simp: reads_some_def)
    qed (use assms(3) that in \<open>simp add: reads_some_def\<close>)
    with stuck fine_step.insert [where update = update, OF that none] show False by blast
  qed
  then show "h < n \<Longrightarrow> fp_blocks st h \<noteq> None" .
  assume h: "h < n" "{..h} \<subseteq> R"
  have inserted: "fp_blocks st k = Some (Some (blks ! k))" if "k \<le> h" for k
    using all [of k] that h fine_invD(2) [OF inv, of k] by auto
  then have "fp_workers st h \<noteq> None"
    using stuck fine_step.start [where update = update and n = n, of st h "blks ! h"] by (metis less_imp_le order.refl)
  then obtain w where w: "fp_workers st h = Some w" by blast
  have "finished w \<noteq> None"
    using stuck fine_step.work [where update = update and n = n, OF w]
      fine_inv_work [OF assms(1,2) R w _ inv] by blast
  with w show "fine_done finished st h \<noteq> None" by (simp add: fine_done_def)
qed

text \<open>
  The results. At any time the iterator has yielded blocks of the chain, in order, connected to the
  outputs they spend; when no step is left it has yielded all below the first height that cannot be
  read or connected; and from any state on the way it gets there.
\<close>

lemma fine_output_prefix:
  assumes "good" and "reads_some insert_block blks R n update"
    and "fine_inv L ok view pending wok blks R n (chain_view L conv blks) st"
  shows "\<exists>k \<le> connected_prefix L blks R n. pipeline_output (fine_done finished st) 0 n
    = map (connected_of L build mk (chain_view L conv blks)) (take k blks)"
proof -
  let ?Q = "R \<inter> connectable_heights L blks"
  let ?f = "\<lambda>h. connected_of L build mk (chain_view L conv blks) (blks ! h)" and ?m = "connected_prefix L blks R n"
  let ?k = "length (takeWhile (\<lambda>h. fine_done finished st h \<noteq> None) [0..<?m])"
  have R: "R \<subseteq> {..<length blks}" using assms(2) by (simp add: reads_some_def)
  note res = fine_inv_done [OF assms(1) R assms(3)]
  have le: "?k \<le> ?m" using length_takeWhile_le [of "\<lambda>h. fine_done finished st h \<noteq> None" "[0..<?m]"] by simp
  have "fine_done finished st h = Some (Some (?f h))" if "h < ?k" for h
  proof -
    have "takeWhile (\<lambda>h. fine_done finished st h \<noteq> None) [0..<?m] ! h \<in> {h. fine_done finished st h \<noteq> None}"
      using nth_mem [OF that] by (auto dest: set_takeWhileD)
    moreover have "takeWhile (\<lambda>h. fine_done finished st h \<noteq> None) [0..<?m] ! h = h"
      using takeWhile_nth [OF that] that le by simp
    moreover have "h \<in> ?Q"
      using that le readable_prefix_less [of h ?Q n] by (auto simp: connected_prefix_def)
    ultimately show ?thesis using res [of h] by auto
  qed
  moreover have "fine_done finished st ?k = None \<or> fine_done finished st ?k = Some None" if "?k < n"
  proof (cases "?k < ?m")
    case True
    then show ?thesis
      using nth_length_takeWhile [of "\<lambda>h. fine_done finished st h \<noteq> None" "[0..<?m]"] by simp
  next
    case False
    with le that have "?k = ?m" "?m \<notin> ?Q"
      using readable_prefix_end [of ?Q n] by (simp_all add: connected_prefix_def)
    then show ?thesis using res [of ?k] by (cases "fine_done finished st ?k") auto
  qed
  ultimately have "pipeline_output (fine_done finished st) 0 n = map ?f [0..<?k]"
    using le connected_prefix_le [of L blks R n] by (intro pipeline_output_prefix) auto
  also have "\<dots> = map (connected_of L build mk (chain_view L conv blks)) (take ?k blks)"
    using le connected_prefix_length [of L blks R n] by (intro map_nth_take) simp
  finally show ?thesis using le by blast
qed

lemma fine_output_complete:
  assumes "good" and "sound_chain L blks" and "reads_some insert_block blks R n update"
    and inv: "fine_inv L ok view pending wok blks R n (chain_view L conv blks) st"
    and stuck: "\<nexists>st'. fine_step update start wstep finished n st st'"
  shows "pipeline_output (fine_done finished st) 0 n
    = map (connected_of L build mk (chain_view L conv blks)) (take (connected_prefix L blks R n) blks)"
proof -
  let ?Q = "R \<inter> connectable_heights L blks"
  let ?f = "\<lambda>h. connected_of L build mk (chain_view L conv blks) (blks ! h)" and ?m = "readable_prefix ?Q n"
  have R: "R \<subseteq> {..<length blks}" using assms(3) by (simp add: reads_some_def)
  note res = fine_inv_done [OF assms(1) R inv]
  have "fine_done finished st h = Some (Some (?f h))" if "h < ?m" for h
  proof -
    from readable_prefix_less [OF that] have h: "h < n" "{..h} \<subseteq> ?Q" by auto
    then have "fine_done finished st h \<noteq> None" using fine_stuck(2) [OF assms, of h] by auto
    with res [of h] h(2) show ?thesis by auto
  qed
  moreover have "fine_done finished st ?m = None \<or> fine_done finished st ?m = Some None" if "?m < n"
    using res [of ?m] readable_prefix_end [OF that] by (cases "fine_done finished st ?m") auto
  ultimately have "pipeline_output (fine_done finished st) 0 n = map ?f [0..<?m]"
    using readable_prefix_le [of ?Q n] by (intro pipeline_output_prefix) auto
  also have "\<dots> = map (connected_of L build mk (chain_view L conv blks)) (take ?m blks)"
    using connected_prefix_length [of L blks R n] by (intro map_nth_take) (simp add: connected_prefix_def)
  finally show ?thesis by (simp add: connected_prefix_def)
qed

lemma fine_completes:
  assumes "good" and "sound_chain L blks" and "reads_some insert_block blks R n update"
    and "fine_inv L ok view pending wok blks R n (chain_view L conv blks) st"
  shows "\<exists>st'. (fine_step update start wstep finished n)\<^sup>*\<^sup>* st st' \<and> (\<nexists>st''. fine_step update start wstep finished n st' st'')"
  using assms(4)
proof (induction "fine_measure start wsize ((!) blks) n st" arbitrary: st rule: less_induct)
  case less
  show ?case
  proof (cases "\<exists>st'. fine_step update start wstep finished n st st'")
    case True
    then obtain st1 where step: "fine_step update start wstep finished n st st1" by blast
    from fine_inv_step [OF assms(1-3) less.prems step] less.hyps [of st1] show ?thesis
      by (meson converse_rtranclp_into_rtranclp step)
  qed blast
qed

lemma fine_reachable:
  assumes "good" and "sound_chain L blks" and "reads_some insert_block blks R n update" and "ok s" and "view s = Map.empty"
    and "(fine_step update start wstep finished n)\<^sup>*\<^sup>* (fine_init s) st"
  shows "fine_inv L ok view pending wok blks R n (chain_view L conv blks) st"
proof -
  from assms(6) obtain k where "(fine_step update start wstep finished n ^^ k) (fine_init s) st"
    by (meson rtranclp_imp_relpowp)
  from fine_inv_run [OF assms(1-3) fine_inv_init [of ok s view, OF assms(4,5)] this] show ?thesis by blast
qed

lemma fine_result:
  assumes "good" and "sound_chain L blks" and "reads_some insert_block blks R n update" and "ok s" and "view s = Map.empty"
    and "(fine_step update start wstep finished n)\<^sup>*\<^sup>* (fine_init s) st"
  shows "(\<exists>k \<le> connected_prefix L blks R n. pipeline_output (fine_done finished st) 0 n
        = map (connected_of L build mk (chain_view L conv blks)) (take k blks))
    \<and> ((\<nexists>st'. fine_step update start wstep finished n st st') \<longrightarrow>
        pipeline_output (fine_done finished st) 0 n
          = map (connected_of L build mk (chain_view L conv blks)) (take (connected_prefix L blks R n) blks))"
  using fine_output_prefix [OF assms(1,3)] fine_output_complete [OF assms(1-3)] fine_reachable [OF assms] by blast

lemma fine_liveness:
  assumes "good" and "sound_chain L blks" and "reads_some insert_block blks R n update" and "ok s" and "view s = Map.empty"
    and "(fine_step update start wstep finished n)\<^sup>*\<^sup>* (fine_init s) st"
  shows "\<exists>st'. (fine_step update start wstep finished n)\<^sup>*\<^sup>* st st'
    \<and> pipeline_output (fine_done finished st') 0 n
        = map (connected_of L build mk (chain_view L conv blks)) (take (connected_prefix L blks R n) blks)"
proof -
  obtain st' where st': "(fine_step update start wstep finished n)\<^sup>*\<^sup>* st st'" "\<nexists>st''. fine_step update start wstep finished n st' st''"
    using fine_completes [OF assms(1-3) fine_reachable [OF assms]] by blast
  with fine_result [OF assms(1-5), of st'] assms(6) show ?thesis by (meson rtranclp_trans)
qed

end

section \<open>What the database can read\<close>

text \<open>The heights that can be read, as the database answers.\<close>

definition chain_readable_at :: "filesystem \<Rightarrow> bitcoin_lib \<Rightarrow> bitcoin_db \<Rightarrow> block list \<Rightarrow> nat set \<Rightarrow> nat \<Rightarrow> bool" where
  "chain_readable_at fs L db blks R n \<longleftrightarrow> R \<subseteq> {..<length blks}
     \<and> (\<forall>h < n. if h \<in> R then get_block fs L Ok db h = Ok (blks ! h) else (\<exists>e. get_block fs L Ok db h = Err e))"

text \<open>The sample chain of \<open>Pipeline\<close>, asked for one block more than there is.\<close>

lemma spend_readable_at: "chain_readable_at spend_fs spend_lib spend_handle spend_chain {0, 1} 3"
proof -
  have "get_block spend_fs spend_lib Ok spend_handle h = Ok (spend_chain ! h)" if "h \<in> {0, 1}" for h
    using spend_readable that by (auto simp: chain_readable_def spend_chain_def)
  moreover have "\<exists>e. get_block spend_fs spend_lib Ok spend_handle 2 = Err e"
    by (simp add: get_block_def spend_handle_def slice_get_def)
  ultimately show ?thesis
    by (auto simp: chain_readable_at_def spend_chain_def less_Suc_eq numeral_3_eq_3 numeral_2_eq_2)
qed

lemma spend_blocks:
  "get_block spend_fs spend_lib Ok spend_handle 0 = Ok (spend_chain ! 0)"
  "get_block spend_fs spend_lib Ok spend_handle (Suc 0) = Ok (spend_chain ! Suc 0)"
  "\<exists>e. get_block spend_fs spend_lib Ok spend_handle (Suc (Suc 0)) = Err e"
  using spend_readable_at by (auto simp: chain_readable_at_def dest: spec [of _ 0] spec [of _ "Suc 0"] spec [of _ "Suc (Suc 0)"])

lemma spend_prefix: "readable_prefix {0, 1} 3 = 2"
  by (simp add: readable_prefix_def upt_rec)

lemma spend_connected_prefix: "connected_prefix spend_lib spend_chain {0, 1} 3 = 2"
proof -
  have "{0, 1} \<subseteq> {..<length spend_chain}" by (simp add: spend_chain_def)
  from valid_connected_prefix [OF spend_valid this] show ?thesis by (simp only: spend_prefix)
qed

end
