(* ===== verification/Chain_Samples.thy ===== *)
theory Chain_Samples
  imports Interleave
begin

text \<open>
  Small data directories for the witnesses of the pipeline: a chain is a list of bytes, one for each
  block, and a block has one transaction. Byte 5 creates an output, byte 4 is a block with the
  same transaction once more, bytes 6 and 8 spend its output, byte 7 spends what is not there.
\<close>

definition toy_tx :: "byte \<Rightarrow> transaction" where
  "toy_tx b = sample_tx (if b = 4 then 5 else ucast b)
     (if b = 4 \<or> b = 5 then [] else if b = 7 then [sample_in 99 0] else [sample_in 5 0])"

definition toy_block :: "byte \<Rightarrow> block" where
  "toy_block b = \<lparr>blk_header = sample_header (ucast b) 0, txdata = [toy_tx b]\<rparr>"

definition toy_lib :: bitcoin_lib where
  "toy_lib = sample_lib\<lparr>decode_block := (\<lambda>bs. case bs of [] \<Rightarrow> Inl ''eof'' | b # r \<Rightarrow> Inr (toy_block b, r))\<rparr>"

definition toy_file :: "byte list \<Rightarrow> byte list" where
  "toy_file bs = concat (map (\<lambda>b. [1, 0, 0, 0, b]) bs)"

definition toy_fs :: "byte list \<Rightarrow> filesystem" where
  "toy_fs bs = sample_fs\<lparr>fs_open := (\<lambda>_. Inr (toy_file bs))\<rparr>"

definition toy_handle :: "nat \<Rightarrow> bitcoin_db" where
  "toy_handle n = \<lparr>db_blk_file = sample_blk_file,
     db_block_index = \<lparr>bi_records = map (\<lambda>h. sample_record 0 0 0 (word_of_nat (5 * h + 4))) [0..<n],
       bi_hash_to_height = Map.empty\<rparr>,
     db_tx_db = None\<rparr>"

lemma toy_lib_simps [simp]:
  "block_hash toy_lib h = sample_hash (hdr_nonce h)" "compute_txid toy_lib tx = sample_hash (tx_lock_time tx)"
  "is_null toy_lib p \<longleftrightarrow> op_vout p = 0xFFFFFFFF" "encode_txout toy_lib = encode_txout sample_lib"
  "decode_txout toy_lib = decode_txout sample_lib"
  by (simp_all add: toy_lib_def)

lemma toy_file_drop: "drop (5 * h) (toy_file bs) = toy_file (drop h bs)"
proof (induction h arbitrary: bs)
  case (Suc h)
  have "drop (5 * Suc h) ([1, 0, 0, 0, b] @ r) = drop (5 * h) r" for b :: byte and r by (simp add: eval_nat_numeral)
  with Suc show ?case by (cases bs) (simp_all add: toy_file_def)
qed simp

lemma toy_get_block:
  assumes "5 * length bs + 4 < 2 ^ 32"
  shows "get_block (toy_fs bs) toy_lib Ok (toy_handle (length bs)) h
    = (if h < length bs then Ok (toy_block (bs ! h)) else Err (BlockIndexRecordNotFound h))"
proof (cases "h < length bs")
  case True
  have view: "blk_view (toy_fs bs) sample_blk_file 0 = Some (toy_file bs)"
    by (simp add: blk_view_def toy_fs_def sample_blk_file_def unmask_def)
  from True assms have pos: "unat (word_of_nat (5 * h + 4) :: u32) = 5 * h + 4"
    by (simp only: unat_of_nat) simp
  have "drop (5 * h) (toy_file bs) = [1, 0, 0, 0, bs ! h] @ toy_file (drop (Suc h) bs)"
    using True by (simp add: toy_file_drop Cons_nth_drop_Suc [OF True, symmetric]) (simp add: toy_file_def)
  then have "raw_block_spec (toy_file bs) (5 * h + 4) = Ok [bs ! h]"
    by (simp add: raw_block_spec_def le_u32_def)
  then have "read_raw_block (toy_fs bs) sample_blk_file 0 (word_of_nat (5 * h + 4)) = Ok [bs ! h]"
    using read_raw_block_eq [OF sample_mask_ok view, of "word_of_nat (5 * h + 4)"] by (simp only: pos)
  from read_block_of_raw [OF this, of toy_lib] True show ?thesis
    by (simp add: get_block_def toy_handle_def slice_get_def toy_lib_def)
qed (simp add: get_block_def toy_handle_def slice_get_def)

lemma toy_readable:
  "5 * length bs + 4 < 2 ^ 32 \<Longrightarrow>
     chain_readable_at (toy_fs bs) toy_lib (toy_handle (length bs)) (map toy_block bs) {..<length bs} n"
  by (auto simp: chain_readable_at_def toy_get_block)

lemma toy_disk_good: "disk_good sample_rocks (\<lambda>d. d) toy_lib"
  using sample_txout_codec by (simp add: disk_good_def rocks_doc_def sample_rocks_def txout_codec_def)

section \<open>A chain with a transaction twice and an input that spends nothing\<close>

definition odd_bytes :: "byte list" where
  "odd_bytes = [5, 4, 6, 7]"

definition odd_chain :: "block list" where
  "odd_chain = map toy_block odd_bytes"

lemma odd_readable: "chain_readable_at (toy_fs odd_bytes) toy_lib (toy_handle 4) odd_chain {..<4} 5"
proof -
  have len: "length odd_bytes = 4" by (simp add: odd_bytes_def)
  show ?thesis using toy_readable [of odd_bytes 5] by (simp add: len odd_chain_def)
qed

lemma odd_chain_nth:
  "length odd_chain = 4"
  "odd_chain ! 0 = toy_block 5" "odd_chain ! Suc 0 = toy_block 4" "odd_chain ! Suc (Suc 0) = toy_block 6"
  "odd_chain ! Suc (Suc (Suc 0)) = toy_block 7"
  by (simp_all add: odd_chain_def odd_bytes_def)

lemma toy_spends:
  "block_spends toy_lib (toy_block 5) = []" "block_spends toy_lib (toy_block 4) = []"
  "block_spends toy_lib (toy_block 6) = [\<lparr>op_txid = sample_hash 5, op_vout = 0\<rparr>]"
  "block_spends toy_lib (toy_block 7) = [\<lparr>op_txid = sample_hash 99, op_vout = 0\<rparr>]"
  "block_spends toy_lib (toy_block 8) = [\<lparr>op_txid = sample_hash 5, op_vout = 0\<rparr>]"
  by (simp_all add: block_spends_def tx_spends_def toy_block_def toy_tx_def)

lemma toy_txids:
  "block_txids toy_lib (toy_block 5) = {sample_hash 5}" "block_txids toy_lib (toy_block 4) = {sample_hash 5}"
  "block_txids toy_lib (toy_block 6) = {sample_hash 6}" "block_txids toy_lib (toy_block 7) = {sample_hash 7}"
  by (simp_all add: block_txids_def toy_block_def toy_tx_def)

lemma odd_chain_outputs:
  "chain_outputs toy_lib odd_chain \<lparr>op_txid = sample_hash 5, op_vout = 0\<rparr> = Some \<lparr>txo_value = 5, script_pubkey = []\<rparr>"
  "chain_outputs toy_lib odd_chain \<lparr>op_txid = sample_hash 99, op_vout = 0\<rparr> = None"
  by (simp_all add: chain_outputs_def odd_chain_def odd_bytes_def block_outputs_def tx_outputs_def toy_block_def toy_tx_def)

lemma odd_sound: "sound_chain toy_lib odd_chain"
  unfolding sound_chain_def
proof (intro conjI)
  show "sound_blocks toy_lib odd_chain"
    by (simp add: sound_blocks_def chain_txs_def odd_chain_def odd_bytes_def toy_block_def toy_tx_def)
  show "distinct (concat (map (block_spends toy_lib) odd_chain))"
    by (simp add: odd_chain_def odd_bytes_def toy_spends)
  show "\<forall>h < length odd_chain. \<forall>p \<in> set (block_spends toy_lib (odd_chain ! h)).
      \<forall>j < length odd_chain. op_txid p \<in> block_txids toy_lib (odd_chain ! j) \<longrightarrow> j \<le> h"
    by (auto simp: odd_chain_nth less_Suc_eq eval_nat_numeral toy_spends toy_txids)
qed

lemma odd_connectable: "connectable_heights toy_lib odd_chain = {..<3}"
proof -
  have "h \<in> connectable_heights toy_lib odd_chain \<longleftrightarrow> h < 3" for h
    using odd_chain_outputs
    by (cases "h < 4") (auto simp: connectable_heights_def odd_chain_nth less_Suc_eq eval_nat_numeral toy_spends)
  then show ?thesis by auto
qed

lemma odd_prefix: "connected_prefix toy_lib odd_chain {..<4} 5 = 3"
  by (simp add: connected_prefix_def odd_connectable readable_prefix_def upt_rec)

end
