(* ===== verification/Utxo_Mem_Locks.thy ===== *)
theory Utxo_Mem_Locks
  imports Chain_Samples
begin

text \<open>
  \<open>iter/fetch_connected_async.rs\<close>, module \<open>in_mem_utxo\<close>, with its locks. The cache is a map from txids
  to \<open>Arc\<close>s, which are addresses of a store of \<open>VecMap\<close>s; a worker takes the lock of the map to clone an
  \<open>Arc\<close>, then the lock of that \<open>VecMap\<close> to remove an output, then the lock of the map again to drop
  an entry that has become empty. Each of the three is one step of the worker. (No lock is held while
  another is taken, so a critical section is a step.)
\<close>

section \<open>The shared cache\<close>

record 'out lock_cache =
  lc_map :: "hash256 \<rightharpoonup> nat"
  lc_store :: "'out vec_map list"

definition lock_cache_new :: "'out lock_cache" where
  "lock_cache_new = \<lparr>lc_map = Map.empty, lc_store = []\<rparr>"

text \<open>\<open>update_unspent_cache\<close>: new \<open>Arc\<close>s, and one critical section that adds them all (\<open>extend\<close>).\<close>

definition lock_add :: "'out lock_cache \<Rightarrow> hash256 \<times> 'out vec_map \<Rightarrow> 'out lock_cache" where
  "lock_add s entry = \<lparr>lc_map = (lc_map s)(fst entry \<mapsto> length (lc_store s)), lc_store = lc_store s @ [snd entry]\<rparr>"

definition lock_insert_block ::
  "bitcoin_lib \<Rightarrow> ('tx, 'out) connected_tx_impl \<Rightarrow> block \<Rightarrow> 'out lock_cache \<Rightarrow> (block option \<times> 'out lock_cache) result" where
  "lock_insert_block L T blk s =
     bind_result (mapM_result (mem_new_unspent L T) (txdata blk)) (\<lambda>new_unspent_cache.
       Ok (Some blk, foldl lock_add s new_unspent_cache))"

definition lock_update_unspent_cache ::
  "filesystem \<Rightarrow> bitcoin_lib \<Rightarrow> ('tx, 'out) connected_tx_impl \<Rightarrow> bitcoin_db \<Rightarrow> nat \<Rightarrow> 'out lock_cache
     \<Rightarrow> (block option \<times> 'out lock_cache) result" where
  "lock_update_unspent_cache fs L T db height s =
     (case get_block fs L Ok db height of
        Err e \<Rightarrow> Ok (None, s)
      | Panic \<Rightarrow> Panic
      | Diverge \<Rightarrow> Diverge
      | Ok blk \<Rightarrow> lock_insert_block L T blk s)"

section \<open>A worker of connect_outpoints\<close>

text \<open>
  Where a worker is: between transactions; before the next input of a transaction; with the \<open>Arc\<close> of
  the spent transaction in hand; with the output taken, and whether that left the \<open>VecMap\<close> empty;
  returned. The components are the block built so far, the transactions still to do, the transaction
  built so far, its inputs still to do.
\<close>

datatype ('tx, 'blk, 'out) mem_worker =
    At_Tx 'blk "transaction list"
  | At_Input 'blk "transaction list" 'tx "txin list"
  | Got_Arc 'blk "transaction list" 'tx "txin list" outpoint nat
  | Took_Out 'blk "transaction list" 'tx "txin list" outpoint "'out option" bool
  | Returned "'blk option"

definition lock_start :: "bitcoin_lib \<Rightarrow> ('blk, 'tx) connected_block_impl \<Rightarrow> block \<Rightarrow> ('tx, 'blk, 'out) mem_worker" where
  "lock_start L B blk = At_Tx (cbk_from B (blk_header blk) (block_hash L (blk_header blk))) (txdata blk)"

fun lock_wstep ::
  "bitcoin_lib \<Rightarrow> ('tx, 'out) connected_tx_impl \<Rightarrow> ('blk, 'tx) connected_block_impl \<Rightarrow> ('tx, 'blk, 'out) mem_worker
     \<Rightarrow> 'out lock_cache \<Rightarrow> (('tx, 'blk, 'out) mem_worker \<times> 'out lock_cache) result" where
  "lock_wstep L T B (At_Tx output_block []) s = Ok (Returned (Some output_block), s)"
| "lock_wstep L T B (At_Tx output_block (tx # txs)) s =
     bind_result (ctx_from T tx) (\<lambda>output_tx. Ok (At_Input output_block txs output_tx (tx_input tx), s))"
| "lock_wstep L T B (At_Input output_block txs output_tx []) s =
     Ok (At_Tx (cbk_add_tx B output_tx output_block) txs, s)"
| "lock_wstep L T B (At_Input output_block txs output_tx (input # inputs)) s =
     (if is_null L (previous_output input) then Ok (At_Input output_block txs output_tx inputs, s)
      else case lc_map s (op_txid (previous_output input)) of
             Some prev_tx \<Rightarrow> Ok (Got_Arc output_block txs output_tx inputs (previous_output input) prev_tx, s)
           | None \<Rightarrow> Ok (Returned None, s))"
| "lock_wstep L T B (Got_Arc output_block txs output_tx inputs p prev_tx) s =
     (let (tx_out, vm) = vec_map_remove (unat (op_vout p)) (lc_store s ! prev_tx)
      in Ok (Took_Out output_block txs output_tx inputs p tx_out (vec_map_is_empty vm),
             s\<lparr>lc_store := (lc_store s)[prev_tx := vm]\<rparr>))"
| "lock_wstep L T B (Took_Out output_block txs output_tx inputs p tx_out is_empty) s =
     (let s = (if is_empty then s\<lparr>lc_map := (lc_map s)(op_txid p := None)\<rparr> else s)
      in case tx_out of
           Some out \<Rightarrow> Ok (At_Input output_block txs (ctx_add_input T out output_tx) inputs, s)
         | None \<Rightarrow> Ok (Returned None, s))"
| "lock_wstep L T B (Returned r) s = Ok (Returned r, s)"

fun lock_finished :: "('tx, 'blk, 'out) mem_worker \<Rightarrow> 'blk option option" where
  "lock_finished (Returned r) = Some r"
| "lock_finished w = None"

text \<open>The outpoints not taken yet, and a bound on the steps left.\<close>

definition input_spends :: "bitcoin_lib \<Rightarrow> txin list \<Rightarrow> outpoint list" where
  "input_spends L inputs = filter (\<lambda>p. \<not> is_null L p) (map previous_output inputs)"

fun lock_pending :: "bitcoin_lib \<Rightarrow> ('tx, 'blk, 'out) mem_worker \<Rightarrow> outpoint list" where
  "lock_pending L (At_Tx output_block txs) = concat (map (tx_spends L) txs)"
| "lock_pending L (At_Input output_block txs output_tx inputs) = input_spends L inputs @ concat (map (tx_spends L) txs)"
| "lock_pending L (Got_Arc output_block txs output_tx inputs p prev_tx) = p # input_spends L inputs @ concat (map (tx_spends L) txs)"
| "lock_pending L (Took_Out output_block txs output_tx inputs p tx_out is_empty) = input_spends L inputs @ concat (map (tx_spends L) txs)"
| "lock_pending L (Returned r) = []"

definition txs_size :: "transaction list \<Rightarrow> nat" where
  "txs_size txs = 1 + (\<Sum>tx \<leftarrow> txs. 2 + 3 * length (tx_input tx))"

fun lock_wsize :: "('tx, 'blk, 'out) mem_worker \<Rightarrow> nat" where
  "lock_wsize (At_Tx output_block txs) = txs_size txs"
| "lock_wsize (At_Input output_block txs output_tx inputs) = txs_size txs + 3 * length inputs + 1"
| "lock_wsize (Got_Arc output_block txs output_tx inputs p prev_tx) = txs_size txs + 3 * length inputs + 3"
| "lock_wsize (Took_Out output_block txs output_tx inputs p tx_out is_empty) = txs_size txs + 3 * length inputs + 2"
| "lock_wsize (Returned r) = 0"

section \<open>The cache behind the locks\<close>

text \<open>
  Following the addresses gives the cache of \<open>Utxo_Mem\<close>. No two txids share an \<open>Arc\<close>, and every \<open>Arc\<close>
  of the map is in the store.
\<close>

definition lock_flat :: "'out lock_cache \<Rightarrow> 'out mem_cache" where
  "lock_flat s txid = map_option (\<lambda>a. lc_store s ! a) (lc_map s txid)"

definition lock_ok :: "'out lock_cache \<Rightarrow> bool" where
  "lock_ok s \<longleftrightarrow> mem_ok (lock_flat s) \<and> inj_on (lc_map s) (dom (lc_map s))
     \<and> (\<forall>txid a. lc_map s txid = Some a \<longrightarrow> a < length (lc_store s))"

definition lock_view :: "'out lock_cache \<Rightarrow> outpoint \<Rightarrow> 'out option" where
  "lock_view s = mem_view (lock_flat s)"

lemma lock_okD:
  assumes "lock_ok s" and "lc_map s t = Some a"
  shows "a < length (lc_store s)" and "lock_flat s t = Some (lc_store s ! a)" and "vec_map_ok (lc_store s ! a)"
  using assms by (auto simp: lock_ok_def lock_flat_def mem_ok_def)

lemma lock_inj: "lock_ok s \<Longrightarrow> lc_map s t = Some a \<Longrightarrow> lc_map s t' = Some a \<Longrightarrow> t' = t"
  unfolding lock_ok_def inj_on_def by (metis domI)

lemma lock_flat_new [simp]: "lock_flat lock_cache_new = Map.empty"
  by (simp add: lock_flat_def lock_cache_new_def fun_eq_iff)

lemma lock_ok_new: "lock_ok lock_cache_new"
  by (simp add: lock_ok_def mem_ok_def) (simp add: lock_cache_new_def)

lemma lock_view_new: "lock_view lock_cache_new = Map.empty"
  by (simp add: lock_view_def mem_view_def fun_eq_iff)

text \<open>The three critical sections, on the cache behind.\<close>

lemma lock_add_flat:
  assumes "lock_ok s"
  shows "lock_flat (lock_add s e) = (lock_flat s)(fst e \<mapsto> snd e)"
    and "vec_map_ok (snd e) \<Longrightarrow> lock_ok (lock_add s e)"
proof -
  have bound: "a < length (lc_store s)" if "lc_map s t = Some a" for t a
    by (rule lock_okD(1) [OF assms that])
  show flat: "lock_flat (lock_add s e) = (lock_flat s)(fst e \<mapsto> snd e)"
    using bound by (auto simp: lock_flat_def lock_add_def fun_eq_iff nth_append map_option_case split: option.split)
  have "inj_on (lc_map (lock_add s e)) (dom (lc_map (lock_add s e)))"
  proof (rule inj_onI)
    fix t t'
    assume "t \<in> dom (lc_map (lock_add s e))" and "lc_map (lock_add s e) t = lc_map (lock_add s e) t'"
    then show "t = t'"
      using bound [of t] bound [of t'] lock_inj [OF assms, of t' _ t]
      by (fastforce simp: lock_add_def split: if_splits)
  qed
  moreover assume "vec_map_ok (snd e)"
  ultimately show "lock_ok (lock_add s e)"
    using assms bound unfolding lock_ok_def flat
    by (auto simp: mem_ok_def lock_add_def less_Suc_eq)
qed

lemma lock_remove_flat:
  assumes "lock_ok s" and "lc_map s t = Some a"
  shows "lock_flat (s\<lparr>lc_store := (lc_store s)[a := vm]\<rparr>) = (lock_flat s)(t \<mapsto> vm)"
    and "vec_map_ok vm \<Longrightarrow> lock_ok (s\<lparr>lc_store := (lc_store s)[a := vm]\<rparr>)"
proof -
  show flat: "lock_flat (s\<lparr>lc_store := (lc_store s)[a := vm]\<rparr>) = (lock_flat s)(t \<mapsto> vm)"
  proof
    fix t'
    show "lock_flat (s\<lparr>lc_store := (lc_store s)[a := vm]\<rparr>) t' = ((lock_flat s)(t \<mapsto> vm)) t'"
      using lock_okD(1) [OF assms] lock_inj [OF assms, of t'] assms(2)
      by (cases "lc_map s t'") (auto simp: lock_flat_def nth_list_update)
  qed
  assume "vec_map_ok vm"
  then show "lock_ok (s\<lparr>lc_store := (lc_store s)[a := vm]\<rparr>)"
    using assms unfolding lock_ok_def flat by (auto simp: mem_ok_def)
qed

lemma lock_drop_flat:
  assumes "lock_ok s"
  shows "lock_flat (s\<lparr>lc_map := (lc_map s)(t := None)\<rparr>) = (lock_flat s)(t := None)"
    and "lock_ok (s\<lparr>lc_map := (lc_map s)(t := None)\<rparr>)"
proof -
  show flat: "lock_flat (s\<lparr>lc_map := (lc_map s)(t := None)\<rparr>) = (lock_flat s)(t := None)"
    by (simp add: lock_flat_def fun_eq_iff)
  have "inj_on ((lc_map s)(t := None)) (dom ((lc_map s)(t := None)))"
    using assms by (auto simp: lock_ok_def inj_on_def)
  then show "lock_ok (s\<lparr>lc_map := (lc_map s)(t := None)\<rparr>)"
    using assms unfolding lock_ok_def flat by (auto simp: mem_ok_drop split: if_splits)
qed

lemma lock_insert_fold:
  assumes "lock_ok s" and "\<And>e. e \<in> set es \<Longrightarrow> vec_map_ok (snd e)"
  shows "lock_flat (foldl lock_add s es) = foldl (\<lambda>m (txid, v). m(txid \<mapsto> v)) (lock_flat s) es
    \<and> lock_ok (foldl lock_add s es)"
  using assms
proof (induction es arbitrary: s)
  case (Cons e es)
  from lock_add_flat [OF Cons.prems(1), of e] Cons.IH [of "lock_add s e"] Cons.prems(2) show ?case
    by (simp add: split_beta)
qed simp

lemma lock_insert_keep:
  "t \<notin> fst ` set es \<Longrightarrow> lc_map (foldl lock_add s es) t = lc_map s t"
  "a < length (lc_store s) \<Longrightarrow> lc_store (foldl lock_add s es) ! a = lc_store s ! a"
  "length (lc_store s) \<le> length (lc_store (foldl lock_add s es))"
proof -
  show "t \<notin> fst ` set es \<Longrightarrow> lc_map (foldl lock_add s es) t = lc_map s t"
    and "a < length (lc_store s) \<Longrightarrow> lc_store (foldl lock_add s es) ! a = lc_store s ! a"
    by (induction es arbitrary: s) (simp_all add: lock_add_def nth_append)
  show "length (lc_store s) \<le> length (lc_store (foldl lock_add s es))"
  proof (induction es arbitrary: s)
    case (Cons e es)
    from Cons [of "lock_add s e"] show ?case by (simp add: lock_add_def)
  qed simp
qed

section \<open>A worker on its way\<close>

text \<open>
  In transaction \<open>tx\<close> of the block, \<open>rest\<close> are the outpoints still to be taken for it: the
  transactions before \<open>tx\<close> are connected to the outputs \<open>V\<close>, and so are the inputs of \<open>tx\<close> so far.
  A worker returns an error once it has looked for an output that \<open>V\<close> does not have.
\<close>

definition txs_connected ::
  "bitcoin_lib \<Rightarrow> (transaction \<Rightarrow> 'out list \<Rightarrow> 'tx) \<Rightarrow> (outpoint \<rightharpoonup> 'out) \<Rightarrow> transaction list \<Rightarrow> 'tx list" where
  "txs_connected L build V txs = map (\<lambda>tx. build tx (map (\<lambda>p. the (V p)) (tx_spends L tx))) txs"

definition lock_between ::
  "bitcoin_lib \<Rightarrow> (transaction \<Rightarrow> 'out list \<Rightarrow> 'tx) \<Rightarrow> (header \<Rightarrow> 'tx list \<Rightarrow> 'blk) \<Rightarrow> block \<Rightarrow> (outpoint \<rightharpoonup> 'out)
     \<Rightarrow> 'blk \<Rightarrow> transaction list \<Rightarrow> bool" where
  "lock_between L build mk blk V output_block txs \<longleftrightarrow>
     (\<exists>fin. txdata blk = fin @ txs \<and> output_block = mk (blk_header blk) (txs_connected L build V fin)
        \<and> set (concat (map (tx_spends L) fin)) \<subseteq> dom V)"

definition lock_inside ::
  "bitcoin_lib \<Rightarrow> (transaction \<Rightarrow> 'out list \<Rightarrow> 'tx) \<Rightarrow> (header \<Rightarrow> 'tx list \<Rightarrow> 'blk) \<Rightarrow> block \<Rightarrow> (outpoint \<rightharpoonup> 'out)
     \<Rightarrow> 'blk \<Rightarrow> transaction list \<Rightarrow> 'tx \<Rightarrow> outpoint list \<Rightarrow> bool" where
  "lock_inside L build mk blk V output_block txs output_tx rest \<longleftrightarrow>
     (\<exists>tx gone. lock_between L build mk blk V output_block (tx # txs) \<and> tx_spends L tx = gone @ rest
        \<and> output_tx = build tx (map (\<lambda>p. the (V p)) gone) \<and> set gone \<subseteq> dom V)"

fun lock_way ::
  "bitcoin_lib \<Rightarrow> (transaction \<Rightarrow> 'out list \<Rightarrow> 'tx) \<Rightarrow> (header \<Rightarrow> 'tx list \<Rightarrow> 'blk) \<Rightarrow> block \<Rightarrow> (outpoint \<rightharpoonup> 'out)
     \<Rightarrow> ('tx, 'blk, 'out) mem_worker \<Rightarrow> bool" where
  "lock_way L build mk blk V (At_Tx output_block txs) \<longleftrightarrow> lock_between L build mk blk V output_block txs"
| "lock_way L build mk blk V (At_Input output_block txs output_tx inputs) \<longleftrightarrow>
     lock_inside L build mk blk V output_block txs output_tx (input_spends L inputs)"
| "lock_way L build mk blk V (Got_Arc output_block txs output_tx inputs p prev_tx) \<longleftrightarrow>
     lock_inside L build mk blk V output_block txs output_tx (p # input_spends L inputs)"
| "lock_way L build mk blk V (Took_Out output_block txs output_tx inputs p tx_out is_empty) \<longleftrightarrow>
     lock_inside L build mk blk V output_block txs output_tx (p # input_spends L inputs) \<and> tx_out = V p"
| "lock_way L build mk blk V (Returned r) \<longleftrightarrow> r = connected_or_none L build mk V blk"

text \<open>
  What a worker relies on in the cache: an \<open>Arc\<close> in hand is still the one in the map, or has been
  dropped by another worker that saw it empty; and an entry seen empty is empty or has been dropped.
\<close>

fun lock_sees :: "('tx, 'blk, 'out) mem_worker \<Rightarrow> 'out lock_cache \<Rightarrow> bool" where
  "lock_sees (Got_Arc output_block txs output_tx inputs p prev_tx) s \<longleftrightarrow> lc_map s (op_txid p) = Some prev_tx
     \<or> lc_map s (op_txid p) = None \<and> prev_tx < length (lc_store s) \<and> vec_map_ok (lc_store s ! prev_tx)
         \<and> vec_map_is_empty (lc_store s ! prev_tx)"
| "lock_sees (Took_Out output_block txs output_tx inputs p tx_out is_empty) s \<longleftrightarrow>
     (is_empty \<longrightarrow> (\<forall>a. lc_map s (op_txid p) = Some a \<longrightarrow> vec_map_is_empty (lc_store s ! a)))"
| "lock_sees w s \<longleftrightarrow> True"

definition lock_wok ::
  "bitcoin_lib \<Rightarrow> (transaction \<Rightarrow> 'out list \<Rightarrow> 'tx) \<Rightarrow> (header \<Rightarrow> 'tx list \<Rightarrow> 'blk) \<Rightarrow> block \<Rightarrow> (outpoint \<rightharpoonup> 'out)
     \<Rightarrow> ('tx, 'blk, 'out) mem_worker \<Rightarrow> 'out lock_cache \<Rightarrow> bool" where
  "lock_wok L build mk blk V w s \<longleftrightarrow> lock_way L build mk blk V w \<and> lock_sees w s"

lemma lock_between_spends:
  "lock_between L build mk blk V ob (tx # txs) \<Longrightarrow> p \<in> set (tx_spends L tx) \<Longrightarrow> p \<in> set (block_spends L blk)"
  by (auto simp: lock_between_def block_spends_def)

lemma lock_inside_spends:
  "lock_inside L build mk blk V ob txs otx rest \<Longrightarrow> p \<in> set rest \<Longrightarrow> p \<in> set (block_spends L blk)"
  unfolding lock_inside_def using lock_between_spends by (metis Un_iff set_append)

lemma input_spends_simps [simp]:
  "input_spends L [] = []"
  "input_spends L (i # is) =
     (if is_null L (previous_output i) then input_spends L is else previous_output i # input_spends L is)"
  by (simp_all add: input_spends_def)

lemma tx_spends_input: "tx_spends L tx = input_spends L (tx_input tx)"
  by (simp add: tx_spends_def input_spends_def)

lemma txs_size_Cons [simp]: "txs_size (tx # txs) = txs_size txs + 3 * length (tx_input tx) + 2" "txs_size [] = 1"
  by (simp_all add: txs_size_def)

text \<open>The steps of another worker leave what a worker sees.\<close>

lemma vec_map_remove_empty:
  assumes "vec_map_ok vm" and "vec_map_is_empty vm"
  shows "vec_map_remove i vm = (None, vm)"
proof -
  have none: "vm_view vm i = None" using vec_map_is_empty_iff [OF assms(1)] assms(2) by simp
  show ?thesis
  proof (cases "length (vm_inner vm) \<le> i")
    case False
    with none have "vm_inner vm ! i = None" by (simp add: vm_view_def)
    then show ?thesis using False list_update_id [of "vm_inner vm" i] by (simp add: vec_map_remove_def)
  qed (simp add: vec_map_remove_def)
qed

lemma lock_sees_remove:
  assumes "lock_ok s" and "vec_map_ok (lc_store s ! a)" and "a < length (lc_store s)" and "lock_sees w s"
  shows "lock_sees w (s\<lparr>lc_store := (lc_store s)[a := snd (vec_map_remove n (lc_store s ! a))]\<rparr>)"
proof -
  let ?vm = "snd (vec_map_remove n (lc_store s ! a))"
  have keep: "vec_map_is_empty (lc_store s ! a) \<Longrightarrow> vec_map_is_empty ?vm" and ok: "vec_map_ok ?vm"
    using vec_map_remove_empty [OF assms(2), of n] vec_map_remove_ok [OF assms(2), of n] by simp_all
  show ?thesis
  proof (cases w)
    case (Got_Arc ob txs otx ins p a')
    then show ?thesis using assms(3,4) keep ok by (cases "a' = a") (auto simp: nth_list_update)
  next
    case (Took_Out ob txs otx ins p out e)
    then show ?thesis using assms(3,4) keep by (auto simp: nth_list_update)
  qed simp_all
qed

lemma lock_sees_drop:
  assumes "lock_ok s" and "lock_sees w s"
    and "\<forall>a. lc_map s t = Some a \<longrightarrow> vec_map_is_empty (lc_store s ! a)"
  shows "lock_sees w (s\<lparr>lc_map := (lc_map s)(t := None)\<rparr>)"
proof (cases w)
  case (Got_Arc ob txs otx ins p a)
  then show ?thesis
    using assms(2,3) lock_okD(1,3) [OF assms(1), of "op_txid p" a] by auto
qed (use assms(2) in auto)

section \<open>The contract holds\<close>

context connected_block
begin

lemma lock_new_entries:
  assumes "good"
  shows "mapM_result (mem_new_unspent L T) txs
    = Ok (map (\<lambda>tx. (compute_txid L tx, vec_map_from_vec (map Some (map conv (tx_output tx))))) txs)"
  by (rule mapM_result_Ok)
     (simp add: mem_new_unspent_def mapM_result_Ok [where g = "\<lambda>out. Some (conv out)"] out_ok [OF assms] comp_def)

lemma lock_insert_flat:
  assumes "good" and "lock_ok s" and "\<forall>tx \<in> set (txdata blk). length (tx_output tx) < 2 ^ 32"
  shows "\<exists>s'. lock_insert_block L T blk s = Ok (Some blk, s') \<and> lock_ok s'
    \<and> mem_insert_block L T blk (lock_flat s) = Ok (Some blk, lock_flat s')"
proof -
  let ?es = "map (\<lambda>tx. (compute_txid L tx, vec_map_from_vec (map Some (map conv (tx_output tx))))) (txdata blk)"
  have "vec_map_ok (snd e)" if "e \<in> set ?es" for e
  proof -
    from that obtain tx where "tx \<in> set (txdata blk)" "e = (compute_txid L tx, vec_map_from_vec (map Some (map conv (tx_output tx))))"
      by auto
    with assms(3) vec_map_from_vec_ok(1) [of "map conv (tx_output tx)"] show ?thesis by simp
  qed
  then have "lock_flat (foldl lock_add s ?es) = foldl (\<lambda>m (txid, v). m(txid \<mapsto> v)) (lock_flat s) ?es
      \<and> lock_ok (foldl lock_add s ?es)"
    by (rule lock_insert_fold [OF assms(2)])
  then show ?thesis
    by (simp add: lock_insert_block_def mem_insert_block_def lock_new_entries [OF assms(1)] del: map_map)
qed

lemma lock_insert_ok:
  assumes "good" and "lock_ok s" and "insertable L conv (lock_view s) blk"
  shows "\<exists>s'. lock_insert_block L T blk s = Ok (Some blk, s') \<and> lock_ok s'
    \<and> lock_view s' = lock_view s ++ (\<lambda>p. map_option conv (map_of (block_outputs L blk) p))"
proof -
  have "\<forall>tx \<in> set (txdata blk). length (tx_output tx) < 2 ^ 32" using assms(3) by (simp add: insertable_def)
  from lock_insert_flat [OF assms(1,2) this] obtain s' where s': "lock_insert_block L T blk s = Ok (Some blk, s')"
    "lock_ok s'" "mem_insert_block L T blk (lock_flat s) = Ok (Some blk, lock_flat s')" by blast
  moreover have "mem_ok (lock_flat s)" using assms(2) by (simp add: lock_ok_def)
  ultimately show ?thesis
    using mem_insert_ok [OF assms(1), of "lock_flat s" blk] assms(3) by (auto simp: lock_view_def)
qed

lemma lock_insert_wok:
  assumes "good" and "lock_ok s" and "lock_insert_block L T blk s = Ok (r, s')" and "lock_wok L build mk b V w s"
    and "\<forall>p \<in> set (block_spends L b). op_txid p \<notin> block_txids L blk"
  shows "lock_wok L build mk b V w s'"
proof -
  let ?es = "map (\<lambda>tx. (compute_txid L tx, vec_map_from_vec (map Some (map conv (tx_output tx))))) (txdata blk)"
  have s': "s' = foldl lock_add s ?es"
    using assms(3) by (simp add: lock_insert_block_def lock_new_entries [OF assms(1)])
  have keep: "lc_map s' (op_txid p) = lc_map s (op_txid p)" if "p \<in> set (block_spends L b)" for p
    unfolding s' by (rule lock_insert_keep(1)) (use assms(5) that in \<open>auto simp: block_txids_def simp del: map_map\<close>)
  have len: "length (lc_store s) \<le> length (lc_store s')"
    unfolding s' by (rule lock_insert_keep(3))
  have store: "lc_store s' ! a = lc_store s ! a" if "a < length (lc_store s)" for a
    unfolding s' by (rule lock_insert_keep(2) [OF that])
  show ?thesis
  proof (cases w)
    case (Got_Arc ob txs otx ins p a)
    with assms(4) have "p \<in> set (block_spends L b)"
      using lock_inside_spends [of L build mk b V ob txs otx "p # input_spends L ins" p] by (simp add: lock_wok_def)
    with Got_Arc assms(4) keep [of p] len store [of a] show ?thesis by (auto simp: lock_wok_def)
  next
    case (Took_Out ob txs otx ins p out e)
    with assms(4) have "p \<in> set (block_spends L b)"
      using lock_inside_spends [of L build mk b V ob txs otx "p # input_spends L ins" p] by (simp add: lock_wok_def)
    with Took_Out assms(4) keep [of p] store lock_okD(1) [OF assms(2), of "op_txid p"] show ?thesis by (auto simp: lock_wok_def)
  qed (use assms(4) in \<open>simp_all add: lock_wok_def\<close>)
qed

lemma lock_start_ok:
  "lock_wok L build mk blk V (lock_start L B blk) s \<and> lock_pending L (lock_start L B blk) = block_spends L blk"
  by (simp add: lock_wok_def lock_start_def lock_between_def block_from txs_connected_def block_spends_def)

lemma lock_finished_ok: "lock_wok L build mk b V w s \<Longrightarrow> lock_finished w = Some r \<Longrightarrow> r = connected_or_none L build mk V b"
  by (cases w) (auto simp: lock_wok_def)

lemma lock_finished_pending: "lock_finished w = Some r \<Longrightarrow> lock_pending L w = []"
  by (cases w) simp_all

text \<open>The local moves of a worker: into a transaction, past an input, out of the transaction.\<close>

lemma lock_between_end: "lock_between L build mk blk V ob [] \<Longrightarrow> Some ob = connected_or_none L build mk V blk"
  by (simp add: lock_between_def connected_or_none_def connected_of_def txs_connected_def block_spends_def)

text \<open>An error is returned when an output is not there.\<close>

lemma lock_inside_missing:
  "lock_inside L build mk blk V ob txs otx (p # rest) \<Longrightarrow> V p = None \<Longrightarrow> connected_or_none L build mk V blk = None"
  using lock_inside_spends [of L build mk blk V ob txs otx "p # rest" p] by (auto simp: connected_or_none_def)

lemma lock_inside_begin:
  "lock_between L build mk blk V ob (tx # txs) \<Longrightarrow> lock_inside L build mk blk V ob txs (build tx []) (input_spends L (tx_input tx))"
  unfolding lock_inside_def by (intro exI [of _ tx] exI [of _ "[]"]) (simp add: tx_spends_input)

lemma lock_inside_next:
  assumes "lock_inside L build mk blk V ob txs otx (p # rest)" and "V p = Some out"
  shows "lock_inside L build mk blk V ob txs (ctx_add_input T out otx) rest"
proof -
  from assms(1) obtain tx gone where "lock_between L build mk blk V ob (tx # txs)" "tx_spends L tx = gone @ p # rest"
    "otx = build tx (map (\<lambda>p. the (V p)) gone)" "set gone \<subseteq> dom V" by (auto simp: lock_inside_def)
  then show ?thesis
    unfolding lock_inside_def using assms(2)
    by (intro exI [of _ tx] exI [of _ "gone @ [p]"]) (auto simp: add_input)
qed

lemma lock_inside_end:
  assumes "lock_inside L build mk blk V ob txs otx []"
  shows "lock_between L build mk blk V (cbk_add_tx B otx ob) txs"
proof -
  from assms obtain tx fin where "txdata blk = fin @ tx # txs" "ob = mk (blk_header blk) (txs_connected L build V fin)"
    "otx = build tx (map (\<lambda>p. the (V p)) (tx_spends L tx))" "set (tx_spends L tx) \<subseteq> dom V"
    "set (concat (map (tx_spends L) fin)) \<subseteq> dom V" by (auto simp: lock_inside_def lock_between_def)
  then show ?thesis
    unfolding lock_between_def by (intro exI [of _ "fin @ [tx]"]) (simp add: block_add_tx txs_connected_def)
qed

text \<open>The accesses of a worker one by one.\<close>

lemma lock_step_local:
  assumes "good" and "lock_wok L build mk b V w s" and "available (lock_view s) V (lock_pending L w)"
    and "\<And>ob txs otx ins p a. w \<noteq> Got_Arc ob txs otx ins p a" and "\<And>ob txs otx ins p out e. w \<noteq> Took_Out ob txs otx ins p out e"
    and "lock_finished w = None"
  shows "\<exists>w' gone. lock_wstep L T B w s = Ok (w', s) \<and> lock_wok L build mk b V w' s
    \<and> lock_wsize w' < lock_wsize w \<and> lock_pending L w = gone @ lock_pending L w'
    \<and> (lock_finished w' \<noteq> Some None \<longrightarrow> gone = [])"
proof (cases w)
  case (At_Tx ob txs)
  then show ?thesis
  proof (cases txs)
    case Nil
    with At_Tx assms(2) lock_between_end [of b V ob] show ?thesis by (auto simp: lock_wok_def)
  next
    case (Cons tx rest)
    with At_Tx assms(2) lock_inside_begin [of b V ob tx rest] show ?thesis
      by (simp add: lock_wok_def from_ok [OF assms(1)] tx_spends_input)
  qed
next
  case (At_Input ob txs otx ins)
  then show ?thesis
  proof (cases ins)
    case Nil
    with At_Input assms(2) lock_inside_end [of b V ob txs otx] show ?thesis by (simp add: lock_wok_def)
  next
    case (Cons i rest)
    let ?p = "previous_output i"
    show ?thesis
    proof (cases "is_null L ?p")
      case True
      with At_Input Cons assms(2) show ?thesis by (simp add: lock_wok_def)
    next
      case False
      with At_Input Cons assms(2,3) have inside: "lock_inside L build mk b V ob txs otx (?p # input_spends L rest)"
        and view: "lock_view s ?p = V ?p" by (simp_all add: lock_wok_def available_def)
      show ?thesis
      proof (cases "lc_map s (op_txid ?p)")
        case None
        with view have "V ?p = None" by (simp add: lock_view_def mem_view_def lock_flat_def)
        with At_Input Cons False None lock_inside_missing [OF inside] show ?thesis by (simp add: lock_wok_def)
      next
        case (Some a)
        with At_Input Cons False inside show ?thesis by (simp add: lock_wok_def)
      qed
    qed
  qed
qed (use assms(4-6) in simp_all)

lemma lock_step_remove:
  assumes ok: "lock_ok s" and wok: "lock_wok L build mk b V (Got_Arc ob txs otx ins p a) s" and view: "lock_view s p = V p"
  shows "\<exists>w' s'. lock_wstep L T B (Got_Arc ob txs otx ins p a) s = Ok (w', s') \<and> lock_ok s' \<and> lock_wok L build mk b V w' s'
    \<and> lock_wsize w' < lock_wsize (Got_Arc ob txs otx ins p a)
    \<and> lock_pending L (Got_Arc ob txs otx ins p a) = [p] @ lock_pending L w'
    \<and> lock_view s' \<subseteq>\<^sub>m lock_view s \<and> (\<forall>q. q \<noteq> p \<longrightarrow> lock_view s' q = lock_view s q) \<and> lock_view s' p = None"
proof (cases "lc_map s (op_txid p) = Some a")
  case a: True
  let ?n = "unat (op_vout p)"
  let ?vm = "snd (vec_map_remove ?n (lc_store s ! a))"
  let ?s = "s\<lparr>lc_store := (lc_store s)[a := ?vm]\<rparr>"
  have flat: "lock_flat s (op_txid p) = Some (lc_store s ! a)" by (rule lock_okD(2) [OF ok a])
  have "lock_ok ?s"
    by (rule lock_remove_flat(2) [OF ok a vec_map_remove_ok [OF lock_okD(3) [OF ok a]]])
  moreover have "lock_view ?s = (lock_view s)(p := None)"
    using mem_view_remove [of "lock_flat s" p, OF flat] by (simp add: lock_view_def lock_remove_flat(1) [OF ok a])
  moreover have "fst (vec_map_remove ?n (lc_store s ! a)) = V p"
    using view by (simp add: lock_view_def mem_view_def flat vec_map_remove_view)
  moreover have "lock_wstep L T B (Got_Arc ob txs otx ins p a) s
      = Ok (Took_Out ob txs otx ins p (fst (vec_map_remove ?n (lc_store s ! a))) (vec_map_is_empty ?vm), ?s)"
    by (simp add: split_beta)
  ultimately show ?thesis
    using wok a lock_okD(1) [OF ok a]
    by (intro exI [of _ "Took_Out ob txs otx ins p (fst (vec_map_remove ?n (lc_store s ! a))) (vec_map_is_empty ?vm)"]
        exI [of _ ?s]) (auto simp: lock_wok_def map_le_def)
next
  case False
  with wok have none: "lc_map s (op_txid p) = None" and gone: "vec_map_ok (lc_store s ! a)" "vec_map_is_empty (lc_store s ! a)"
    by (auto simp: lock_wok_def)
  have here: "lock_view s p = None" using none by (simp add: lock_view_def mem_view_def lock_flat_def)
  with view have "V p = None" by simp
  with none wok have "lock_wok L build mk b V (Took_Out ob txs otx ins p None (vec_map_is_empty (lc_store s ! a))) s"
    by (simp add: lock_wok_def)
  moreover have "lock_wstep L T B (Got_Arc ob txs otx ins p a) s
      = Ok (Took_Out ob txs otx ins p None (vec_map_is_empty (lc_store s ! a)), s)"
    by (simp add: vec_map_remove_empty [OF gone])
  ultimately show ?thesis
    using ok here
    by (intro exI [of _ "Took_Out ob txs otx ins p None (vec_map_is_empty (lc_store s ! a))"] exI [of _ s]) simp
qed

lemma lock_step_after:
  assumes ok: "lock_ok s" and wok: "lock_wok L build mk b V (Took_Out ob txs otx ins p out e) s"
  shows "\<exists>w' s' gone. lock_wstep L T B (Took_Out ob txs otx ins p out e) s = Ok (w', s') \<and> lock_ok s' \<and> lock_wok L build mk b V w' s'
    \<and> lock_wsize w' < lock_wsize (Took_Out ob txs otx ins p out e)
    \<and> lock_pending L (Took_Out ob txs otx ins p out e) = gone @ lock_pending L w' \<and> lock_view s' = lock_view s
    \<and> (lock_finished w' \<noteq> Some None \<longrightarrow> gone = [])"
proof -
  let ?s = "if e then s\<lparr>lc_map := (lc_map s)(op_txid p := None)\<rparr> else s"
  from wok have out: "out = V p" and inside: "lock_inside L build mk b V ob txs otx (p # input_spends L ins)"
    and empty: "e \<longrightarrow> (\<forall>a. lc_map s (op_txid p) = Some a \<longrightarrow> vec_map_is_empty (lc_store s ! a))"
    by (simp_all add: lock_wok_def)
  have ok': "lock_ok ?s" using ok lock_drop_flat(2) [OF ok, of "op_txid p"] by (simp split: if_split)
  have vw: "lock_view ?s = lock_view s"
  proof (cases "e \<and> lc_map s (op_txid p) \<noteq> None")
    case True
    then obtain a where a: "lc_map s (op_txid p) = Some a" by blast
    show ?thesis
      using mem_view_drop [of "lc_store s ! a" "lock_flat s" "op_txid p"] lock_okD(2,3) [OF ok a] True a empty
      by (simp add: lock_view_def lock_drop_flat(1) [OF ok])
  next
    case False
    then have "e \<Longrightarrow> (lc_map s)(op_txid p := None) = lc_map s" by (simp add: fun_upd_idem)
    then show ?thesis by simp
  qed
  show ?thesis
  proof (cases out)
    case None
    then have "lock_wstep L T B (Took_Out ob txs otx ins p out e) s = Ok (Returned None, ?s)" by (simp add: Let_def)
    moreover have "lock_wok L build mk b V (Returned None) ?s"
      using lock_inside_missing [OF inside] None out by (simp add: lock_wok_def)
    ultimately show ?thesis using ok' vw by (intro exI [of _ "Returned None"] exI [of _ ?s]) simp
  next
    case (Some v)
    then have "lock_wstep L T B (Took_Out ob txs otx ins p out e) s = Ok (At_Input ob txs (ctx_add_input T v otx) ins, ?s)"
      by (simp add: Let_def)
    moreover have "lock_wok L build mk b V (At_Input ob txs (ctx_add_input T v otx) ins) ?s"
      using lock_inside_next [OF inside] Some out by (simp add: lock_wok_def)
    ultimately show ?thesis
      using ok' vw by (intro exI [of _ "At_Input ob txs (ctx_add_input T v otx) ins"] exI [of _ ?s]) simp
  qed
qed

lemma lock_step_ok:
  assumes "good" and "lock_ok s" and "lock_wok L build mk b V w s" and "lock_finished w = None"
    and "available (lock_view s) V (lock_pending L w)"
  shows "\<exists>w' s' gone. lock_wstep L T B w s = Ok (w', s') \<and> lock_ok s' \<and> lock_wok L build mk b V w' s'
    \<and> lock_wsize w' < lock_wsize w \<and> lock_pending L w = gone @ lock_pending L w'
    \<and> lock_view s' \<subseteq>\<^sub>m lock_view s \<and> (\<forall>p. p \<notin> set gone \<longrightarrow> lock_view s' p = lock_view s p)
    \<and> (lock_finished w' \<noteq> Some None \<longrightarrow> (\<forall>p \<in> set gone. lock_view s' p = None))"
proof (cases w)
  case (Got_Arc ob txs otx ins p a)
  with assms(5) have "lock_view s p = V p" by (simp add: available_def)
  from lock_step_remove [OF assms(2) assms(3) [unfolded Got_Arc] this] show ?thesis
    unfolding Got_Arc by (elim exE conjE, intro exI [of _ "[p]"] exI conjI) (assumption | simp)+
next
  case (Took_Out ob txs otx ins p out e)
  from lock_step_after [OF assms(2) assms(3) [unfolded Took_Out]] show ?thesis
    unfolding Took_Out by (metis empty_iff list.set(1) map_le_refl)
qed (use lock_step_local [OF assms(1,3,5) _ _ assms(4)] assms(2) in
    \<open>metis empty_iff list.set(1) map_le_refl mem_worker.distinct\<close>)+

lemma lock_step_wok:
  assumes "lock_ok s" and "lock_wok L build mk b V w s"
    and "lock_wstep L T B w s = Ok (w', s')" and "lock_wok L build mk b2 V w2 s"
  shows "lock_wok L build mk b2 V w2 s'"
proof -
  from assms(4) have way: "lock_way L build mk b2 V w2" and sees: "lock_sees w2 s" by (simp_all add: lock_wok_def)
  have "lock_sees w2 s'"
  proof (cases w)
    case (At_Tx ob txs)
    with assms(3) sees show ?thesis by (cases txs) (auto simp: bind_result_eq_Ok)
  next
    case (At_Input ob txs otx ins)
    with assms(3) sees show ?thesis by (cases ins) (auto split: if_splits option.splits)
  next
    case (Got_Arc ob txs otx ins p a)
    with assms(2) have "vec_map_ok (lc_store s ! a)" "a < length (lc_store s)"
      using lock_okD(1,3) [OF assms(1), of "op_txid p" a] by (auto simp: lock_wok_def)
    from lock_sees_remove [OF assms(1) this sees] Got_Arc assms(3) show ?thesis by (simp add: split_beta) auto
  next
    case (Took_Out ob txs otx ins p out e)
    have keep: "lock_sees w2 (s\<lparr>lc_map := (lc_map s)(op_txid p := None)\<rparr>)" if e
      by (rule lock_sees_drop [OF assms(1) sees]) (use Took_Out assms(2) that in \<open>simp add: lock_wok_def\<close>)
    from Took_Out assms(3) have "s' = (if e then s\<lparr>lc_map := (lc_map s)(op_txid p := None)\<rparr> else s)"
      by (auto simp: Let_def split: option.splits)
    with keep sees show ?thesis by simp
  qed (use assms(3) sees in auto)
  with way show ?thesis by (simp add: lock_wok_def)
qed

end

sublocale connected_block \<subseteq> mem_lock: fine_cache good L conv build mk lock_ok lock_view
  "lock_insert_block L T" "lock_start L B" "lock_wstep L T B" lock_finished "lock_pending L" lock_wsize "lock_wok L build mk"
  by unfold_locales
     (rule lock_insert_ok lock_insert_wok lock_start_ok lock_step_ok lock_step_wok lock_finished_ok lock_finished_pending; assumption)+

section \<open>A worker alone\<close>

text \<open>
  A worker that is not interrupted does what \<open>mem_connect_outpoints\<close> says, on every cache and for
  every block, valid or not.
\<close>

definition lock_alone ::
  "bitcoin_lib \<Rightarrow> ('tx, 'out) connected_tx_impl \<Rightarrow> ('blk, 'tx) connected_block_impl
     \<Rightarrow> ('tx, 'blk, 'out) mem_worker \<times> 'out lock_cache \<Rightarrow> ('tx, 'blk, 'out) mem_worker \<times> 'out lock_cache \<Rightarrow> bool" where
  "lock_alone L T B c c' \<longleftrightarrow> lock_wstep L T B (fst c) (snd c) = Ok c'"

lemma lock_alone_step:
  "lock_wstep L T B w s = Ok c \<Longrightarrow> (lock_alone L T B)\<^sup>*\<^sup>* c c' \<Longrightarrow> (lock_alone L T B)\<^sup>*\<^sup>* (w, s) c'"
  by (rule converse_rtranclp_into_rtranclp [where b = c]) (simp_all add: lock_alone_def)

text \<open>The three critical sections of one input amount to \<open>mem_spend\<close>.\<close>

lemma lock_alone_spend:
  assumes "lock_ok s" and "\<not> is_null L (previous_output i)" and "mem_spend (previous_output i) (lock_flat s) = (r, m)"
  shows "\<exists>s'. lock_ok s' \<and> lock_flat s' = m
    \<and> (lock_alone L T B)\<^sup>*\<^sup>* (At_Input ob txs otx (i # ins), s)
        (case r of Some out \<Rightarrow> At_Input ob txs (ctx_add_input T out otx) ins | None \<Rightarrow> Returned None, s')"
proof (cases "lc_map s (op_txid (previous_output i))")
  case None
  then have "r = None" "m = lock_flat s"
    using assms(3) by (simp_all add: mem_spend_def lock_flat_def)
  moreover have "(lock_alone L T B)\<^sup>*\<^sup>* (At_Input ob txs otx (i # ins), s) (Returned None, s)"
    by (rule lock_alone_step [OF _ rtranclp.rtrancl_refl]) (use None assms(2) in simp)
  ultimately show ?thesis using assms(1) by auto
next
  case (Some a)
  let ?p = "previous_output i"
  let ?t = "op_txid ?p" and ?vm = "snd (vec_map_remove (unat (op_vout ?p)) (lc_store s ! a))"
  let ?e = "vec_map_is_empty ?vm" and ?s1 = "s\<lparr>lc_store := (lc_store s)[a := ?vm]\<rparr>"
  let ?s2 = "if ?e then ?s1\<lparr>lc_map := (lc_map ?s1)(?t := None)\<rparr> else ?s1"
  have ok1: "lock_ok ?s1" and flat1: "lock_flat ?s1 = (lock_flat s)(?t \<mapsto> ?vm)"
    using lock_remove_flat [OF assms(1) Some, of ?vm] vec_map_remove_ok [OF lock_okD(3) [OF assms(1) Some]] by simp_all
  have r: "r = fst (vec_map_remove (unat (op_vout ?p)) (lc_store s ! a))"
    and m: "m = (if ?e then (lock_flat ?s1)(?t := None) else lock_flat ?s1)"
    using assms(3) lock_okD(2) [OF assms(1) Some] unfolding flat1
    by (auto simp: mem_spend_def Let_def split_beta)
  have "lock_ok ?s2" and "lock_flat ?s2 = m"
    using ok1 lock_drop_flat [OF ok1, of ?t] unfolding m by (simp_all split: if_split)
  moreover have "(lock_alone L T B)\<^sup>*\<^sup>* (At_Input ob txs otx (i # ins), s)
      (case r of Some out \<Rightarrow> At_Input ob txs (ctx_add_input T out otx) ins | None \<Rightarrow> Returned None, ?s2)"
  proof (rule lock_alone_step)
    show "lock_wstep L T B (At_Input ob txs otx (i # ins)) s = Ok (Got_Arc ob txs otx ins ?p a, s)"
      using Some assms(2) by simp
    show "(lock_alone L T B)\<^sup>*\<^sup>* (Got_Arc ob txs otx ins ?p a, s)
        (case r of Some out \<Rightarrow> At_Input ob txs (ctx_add_input T out otx) ins | None \<Rightarrow> Returned None, ?s2)"
    proof (rule lock_alone_step)
      show "lock_wstep L T B (Got_Arc ob txs otx ins ?p a) s = Ok (Took_Out ob txs otx ins ?p r ?e, ?s1)"
        by (simp add: r split_beta)
      show "(lock_alone L T B)\<^sup>*\<^sup>* (Took_Out ob txs otx ins ?p r ?e, ?s1)
          (case r of Some out \<Rightarrow> At_Input ob txs (ctx_add_input T out otx) ins | None \<Rightarrow> Returned None, ?s2)"
        by (rule lock_alone_step [OF _ rtranclp.rtrancl_refl]) (cases r, simp_all add: Let_def)
    qed
  qed
  ultimately show ?thesis by blast
qed

lemma lock_alone_inputs:
  assumes "lock_ok s" and "mem_spend_inputs L T ins otx (lock_flat s) = (r, m)"
  shows "\<exists>s'. lock_ok s' \<and> lock_flat s' = m
    \<and> (lock_alone L T B)\<^sup>*\<^sup>* (At_Input ob txs otx ins, s)
        (case r of Some otx \<Rightarrow> At_Tx (cbk_add_tx B otx ob) txs | None \<Rightarrow> Returned None, s')"
  using assms
proof (induction ins arbitrary: otx s)
  case Nil
  then show ?case
    by (intro exI [of _ s]) (auto intro: lock_alone_step)
next
  case (Cons i ins)
  show ?case
  proof (cases "is_null L (previous_output i)")
    case True
    then have skip: "lock_wstep L T B (At_Input ob txs otx (i # ins)) s = Ok (At_Input ob txs otx ins, s)" by simp
    from True Cons.prems(2) have "mem_spend_inputs L T ins otx (lock_flat s) = (r, m)" by simp
    from Cons.IH [OF Cons.prems(1) this] lock_alone_step [OF skip] show ?thesis by blast
  next
    case False
    obtain o1 m1 where sp: "mem_spend (previous_output i) (lock_flat s) = (o1, m1)" by (cases "mem_spend (previous_output i) (lock_flat s)")
    from lock_alone_spend [OF Cons.prems(1) False sp, of T B ob txs otx ins] obtain s1 where
      s1: "lock_ok s1" "lock_flat s1 = m1" "(lock_alone L T B)\<^sup>*\<^sup>* (At_Input ob txs otx (i # ins), s)
        (case o1 of Some out \<Rightarrow> At_Input ob txs (ctx_add_input T out otx) ins | None \<Rightarrow> Returned None, s1)" by blast
    show ?thesis
    proof (cases o1)
      case None
      with Cons.prems(2) False sp s1 show ?thesis by auto
    next
      case (Some out)
      with Cons.prems(2) False sp s1(2) have "mem_spend_inputs L T ins (ctx_add_input T out otx) (lock_flat s1) = (r, m)" by simp
      from Cons.IH [OF s1(1) this] s1(3) Some show ?thesis by (auto intro: rtranclp_trans)
    qed
  qed
qed

lemma lock_alone_txs:
  assumes "lock_ok s" and "mem_connect_txs L T B txs ob (lock_flat s) = Ok (r, m)"
  shows "\<exists>s'. lock_ok s' \<and> lock_flat s' = m \<and> (lock_alone L T B)\<^sup>*\<^sup>* (At_Tx ob txs, s) (Returned r, s')"
  using assms
proof (induction txs arbitrary: ob s)
  case Nil
  then show ?case
    by (intro exI [of _ s]) (auto intro: lock_alone_step)
next
  case (Cons tx txs)
  from Cons.prems(2) obtain otx where otx: "ctx_from T tx = Ok otx" by (auto simp: bind_result_eq_Ok)
  obtain o1 m1 where sp: "mem_spend_inputs L T (tx_input tx) otx (lock_flat s) = (o1, m1)"
    by (cases "mem_spend_inputs L T (tx_input tx) otx (lock_flat s)")
  have first: "lock_wstep L T B (At_Tx ob (tx # txs)) s = Ok (At_Input ob txs otx (tx_input tx), s)"
    using otx by simp
  from lock_alone_inputs [OF Cons.prems(1) sp, of B ob txs] obtain s1 where
    s1: "lock_ok s1" "lock_flat s1 = m1" "(lock_alone L T B)\<^sup>*\<^sup>* (At_Input ob txs otx (tx_input tx), s)
      (case o1 of Some otx \<Rightarrow> At_Tx (cbk_add_tx B otx ob) txs | None \<Rightarrow> Returned None, s1)" by blast
  show ?case
  proof (cases o1)
    case None
    with Cons.prems(2) otx sp s1 lock_alone_step [OF first] show ?thesis by auto
  next
    case (Some otx')
    with Cons.prems(2) otx sp s1(2) have "mem_connect_txs L T B txs (cbk_add_tx B otx' ob) (lock_flat s1) = Ok (r, m)" by simp
    from Cons.IH [OF s1(1) this] s1(3) Some lock_alone_step [OF first] show ?thesis by (auto intro: rtranclp_trans)
  qed
qed

lemma lock_alone_connect:
  assumes "lock_ok s" and "mem_connect_outpoints L T B blk (lock_flat s) = Ok (r, m)"
  shows "\<exists>s'. lock_ok s' \<and> lock_flat s' = m \<and> (lock_alone L T B)\<^sup>*\<^sup>* (lock_start L B blk, s) (Returned r, s')"
  using lock_alone_txs [OF assms(1) assms(2) [unfolded mem_connect_outpoints_def Let_def]] by (simp add: lock_start_def)

section \<open>Properties\<close>

text \<open>
  C18. Left alone, a worker with its locks is \<open>connect_outpoints\<close> on the map behind the \<open>Arc\<close>s: from
  any well-formed cache and for any block, valid or not, its critical sections lead to the result
  and to the cache that the operation gives without locks, found outputs removed and empty entries
  dropped, up to the first input that finds nothing.
\<close>

theorem lock_worker_alone_refines:
  assumes "lock_ok s" and "mem_connect_outpoints L T B blk (lock_flat s) = Ok (r, m)"
  shows "\<exists>s'. (lock_alone L T B)\<^sup>*\<^sup>* (lock_start L B blk, s) (Returned r, s') \<and> lock_flat s' = m \<and> lock_ok s'"
  using lock_alone_connect [OF assms] by blast

lemma lock_reads_some:
  assumes "chain_readable_at fs L db blks R n"
  shows "reads_some (lock_insert_block L T) blks R n (lock_update_unspent_cache fs L T db)"
proof -
  have "lock_update_unspent_cache fs L T db h s = (if h \<in> R then lock_insert_block L T (blks ! h) s else Ok (None, s))"
    if "h < n" for h s
    using assms that by (cases "h \<in> R") (force simp: chain_readable_at_def lock_update_unspent_cache_def)+
  with assms show ?thesis by (simp add: chain_readable_at_def reads_some_def)
qed

text \<open>\<open>ConnectedBlockIter::new\<close> in memory, at the grain of the locks.\<close>

definition lock_iter_new :: "('out lock_cache, ('tx, 'blk, 'out) mem_worker) fine_pipeline" where
  "lock_iter_new = fine_init lock_cache_new"

text \<open>
  C1. The iterator of connected blocks is right under every interleaving of the critical sections of
  its threads. On a sound chain, where an output is spent at most once and not before the last copy of
  its transaction, and of which the heights \<open>R\<close> can be read, at any time it has yielded an initial
  part of the chain, each block with every input replaced by the output it spends; and when no thread
  can go on it has yielded all blocks below the first height that cannot be read or whose block has
  an input that spends nothing.
\<close>

theorem mem_locks_confluent:
  assumes "p2pk_doc S" and "sound_chain L blks" and "chain_readable_at fs L db blks R n"
    and "(fine_step (lock_update_unspent_cache fs L (full_tx_impl L S) db) (lock_start L full_block_impl)
        (lock_wstep L (full_tx_impl L S) full_block_impl) lock_finished n)\<^sup>*\<^sup>* lock_iter_new st"
  shows "(\<exists>k \<le> connected_prefix L blks R n.
        pipeline_output (fine_done lock_finished st) 0 n = map (full_ideal L S blks) (take k blks))
    \<and> ((\<nexists>st'. fine_step (lock_update_unspent_cache fs L (full_tx_impl L S) db) (lock_start L full_block_impl)
          (lock_wstep L (full_tx_impl L S) full_block_impl) lock_finished n st st') \<longrightarrow>
       pipeline_output (fine_done lock_finished st) 0 n = map (full_ideal L S blks) (take (connected_prefix L blks R n) blks))"
  unfolding full_ideal_eq
  by (rule full_blk.mem_lock.fine_result [OF assms(1,2) lock_reads_some [OF assms(3)] lock_ok_new lock_view_new
        assms(4) [unfolded lock_iter_new_def]])

text \<open>
  C6. On a sound chain the iterator never gets stuck: from whatever state the threads have reached, they can go on until
  every block below the first one that is unreadable or has an input that spends nothing has been yielded, connected.
\<close>

theorem mem_locks_live:
  assumes "p2pk_doc S" and "sound_chain L blks" and "chain_readable_at fs L db blks R n"
    and "(fine_step (lock_update_unspent_cache fs L (full_tx_impl L S) db) (lock_start L full_block_impl)
        (lock_wstep L (full_tx_impl L S) full_block_impl) lock_finished n)\<^sup>*\<^sup>* lock_iter_new st"
  shows "\<exists>st'. (fine_step (lock_update_unspent_cache fs L (full_tx_impl L S) db) (lock_start L full_block_impl)
        (lock_wstep L (full_tx_impl L S) full_block_impl) lock_finished n)\<^sup>*\<^sup>* st st'
    \<and> pipeline_output (fine_done lock_finished st') 0 n = map (full_ideal L S blks) (take (connected_prefix L blks R n) blks)"
  unfolding full_ideal_eq
  by (rule full_blk.mem_lock.fine_liveness [OF assms(1,2) lock_reads_some [OF assms(3)] lock_ok_new lock_view_new
        assms(4) [unfolded lock_iter_new_def]])

lemma lock_wsize_less:
  "lock_finished w = None \<Longrightarrow> lock_wstep L T B w s = Ok (w', s') \<Longrightarrow> lock_wsize w' < lock_wsize w"
proof (cases w)
  case (At_Tx ob txs)
  then show "lock_wstep L T B w s = Ok (w', s') \<Longrightarrow> lock_wsize w' < lock_wsize w"
    by (cases txs) (auto simp: bind_result_eq_Ok)
next
  case (At_Input ob txs otx ins)
  then show "lock_wstep L T B w s = Ok (w', s') \<Longrightarrow> lock_wsize w' < lock_wsize w"
    by (cases ins) (auto split: if_splits option.splits)
qed (auto simp: split_beta Let_def split: option.splits)

text \<open>The steps that connecting what is read at a height can take.\<close>

definition lock_steps :: "block result \<Rightarrow> nat" where
  "lock_steps r = (case r of Ok blk \<Rightarrow> txs_size (txdata blk) | _ \<Rightarrow> 0)"

text \<open>
  C27. The threads always come to an end: whatever the files hold and whatever the blocks spend, a run
  over the heights below \<open>n\<close> has at most three steps and the accesses of one pass over its inputs for
  each height.
\<close>

theorem mem_locks_terminate:
  fixes T :: "('tx, 'out) connected_tx_impl" and B :: "('blk, 'tx) connected_block_impl"
  assumes "(fine_step (lock_update_unspent_cache fs L T db) (lock_start L B) (lock_wstep L T B) lock_finished n ^^ k) lock_iter_new st"
  shows "k \<le> (\<Sum>h < n. 3 + lock_steps (get_block fs L Ok db h))"
proof -
  let ?blk = "\<lambda>h. case get_block fs L Ok db h of Ok blk \<Rightarrow> blk | _ \<Rightarrow> \<lparr>blk_header = undefined, txdata = []\<rparr>"
  have "r = None \<or> r = Some (?blk h)" if "lock_update_unspent_cache fs L T db h s = Ok (r, s')" for h s r s'
    using that by (auto simp: lock_update_unspent_cache_def lock_insert_block_def bind_result_eq_Ok split: result.splits)
  then have "k \<le> (\<Sum>h < n. 2 + lock_wsize (lock_start L B (?blk h) :: ('tx, 'blk, 'out) mem_worker))"
    by (intro fine_run_bounded [where wsize = lock_wsize and blk_at = ?blk, OF _ _ assms [unfolded lock_iter_new_def]])
       (blast, rule lock_wsize_less)
  also have "\<dots> \<le> (\<Sum>h < n. 3 + lock_steps (get_block fs L Ok db h))"
    by (rule sum_mono) (simp add: lock_start_def lock_steps_def split: result.split)
  finally show ?thesis .
qed

section \<open>Samples\<close>

definition sample_locks :: "(byte list) full_txout lock_cache" where
  "sample_locks = \<lparr>lc_map = [sample_hash 5 \<mapsto> 0],
     lc_store = [vec_map_from_vec [Some (full_txout_of sample_script_lib \<lparr>txo_value = 5, script_pubkey = []\<rparr>)]]\<rparr>"

lemma sample_locks_ok: "lock_flat sample_locks = sample_mem" "lock_ok sample_locks"
proof -
  show flat: "lock_flat sample_locks = sample_mem"
    by (simp add: lock_flat_def sample_locks_def sample_mem_def fun_eq_iff)
  show "lock_ok sample_locks"
    unfolding lock_ok_def flat by (simp add: sample_mem_ok) (simp add: sample_locks_def)
qed

theorem lock_worker_alone_refines_witness:
  "\<exists>s'. (lock_alone sample_lib (full_tx_impl sample_lib sample_script_lib) full_block_impl)\<^sup>*\<^sup>*
      (lock_start sample_lib full_block_impl
         \<lparr>blk_header = sample_header 1 0, txdata = [sample_tx 7 [sample_in 5 0, sample_in 5 0]]\<rparr>, sample_locks)
      (Returned None, s') \<and> lock_ok s'"
proof -
  let ?blk = "\<lparr>blk_header = sample_header 1 0, txdata = [sample_tx 7 [sample_in 5 0, sample_in 5 0]]\<rparr>"
  have "\<not> spendable sample_lib (mem_view sample_mem) ?blk"
    by (simp add: spendable_def block_spends_def tx_spends_def)
  with full_blk.mem_connect_exact [OF sample_p2pk_doc sample_mem_ok, of sample_lib ?blk] obtain m where
    "mem_connect_outpoints sample_lib (full_tx_impl sample_lib sample_script_lib) full_block_impl ?blk sample_mem = Ok (None, m)"
    by auto
  from lock_worker_alone_refines [OF sample_locks_ok(2), unfolded sample_locks_ok(1), OF this] show ?thesis by blast
qed

lemma odd_ideal_inputs:
  "map (\<lambda>b. map (\<lambda>tx. map fto_value (fct_input tx)) (fcb_txdata b))
     (map (full_ideal toy_lib sample_script_lib odd_chain) (take 3 odd_chain)) = [[[]], [[]], [[5]]]"
  using odd_chain_outputs(1) unfolding full_ideal_def connected_of_def
  by (simp add: odd_chain_def odd_bytes_def toy_block_def toy_tx_def full_connected_block_of_def full_connected_of_def
      tx_spends_def full_txout_of_def Let_def)

theorem mem_locks_live_witness:
  "\<exists>st'. (fine_step (lock_update_unspent_cache (toy_fs odd_bytes) toy_lib (full_tx_impl toy_lib sample_script_lib) (toy_handle 4))
        (lock_start toy_lib full_block_impl) (lock_wstep toy_lib (full_tx_impl toy_lib sample_script_lib) full_block_impl)
        lock_finished 5)\<^sup>*\<^sup>* lock_iter_new st'
    \<and> map (\<lambda>b. map (\<lambda>tx. map fto_value (fct_input tx)) (fcb_txdata b)) (pipeline_output (fine_done lock_finished st') 0 5)
      = [[[]], [[]], [[5]]]"
  using mem_locks_live [OF sample_p2pk_doc odd_sound odd_readable rtranclp.rtrancl_refl]
  unfolding odd_prefix odd_ideal_inputs [symmetric] by auto

theorem mem_locks_confluent_witness:
  "\<exists>st. (fine_step (lock_update_unspent_cache (toy_fs odd_bytes) toy_lib (full_tx_impl toy_lib sample_script_lib) (toy_handle 4))
        (lock_start toy_lib full_block_impl) (lock_wstep toy_lib (full_tx_impl toy_lib sample_script_lib) full_block_impl)
        lock_finished 5)\<^sup>*\<^sup>* lock_iter_new st
    \<and> map (\<lambda>b. map (\<lambda>tx. map fto_value (fct_input tx)) (fcb_txdata b)) (pipeline_output (fine_done lock_finished st) 0 5)
      = [[[]], [[]], [[5]]]"
proof -
  let ?step = "fine_step (lock_update_unspent_cache (toy_fs odd_bytes) toy_lib (full_tx_impl toy_lib sample_script_lib) (toy_handle 4))
    (lock_start toy_lib full_block_impl) (lock_wstep toy_lib (full_tx_impl toy_lib sample_script_lib) full_block_impl) lock_finished 5"
  note doc = sample_p2pk_doc odd_sound lock_reads_some [OF odd_readable]
  obtain st where st: "?step\<^sup>*\<^sup>* lock_iter_new st" "\<nexists>st'. ?step st st'"
    using full_blk.mem_lock.fine_completes [OF doc full_blk.mem_lock.fine_reachable [OF doc lock_ok_new lock_view_new rtranclp.rtrancl_refl]]
    unfolding lock_iter_new_def by blast
  with mem_locks_confluent [OF sample_p2pk_doc odd_sound odd_readable st(1)] show ?thesis
    unfolding odd_prefix odd_ideal_inputs [symmetric] by auto
qed

theorem mem_locks_terminate_witness:
  "\<exists>k st. (fine_step (lock_update_unspent_cache spend_fs spend_lib (full_tx_impl spend_lib sample_script_lib) spend_handle)
        (lock_start spend_lib full_block_impl) (lock_wstep spend_lib (full_tx_impl spend_lib sample_script_lib) full_block_impl)
        lock_finished 3 ^^ k) lock_iter_new st
    \<and> length (pipeline_output (fine_done lock_finished st) 0 3) = 2 \<and> k \<le> 18"
proof -
  let ?step = "fine_step (lock_update_unspent_cache spend_fs spend_lib (full_tx_impl spend_lib sample_script_lib) spend_handle)
    (lock_start spend_lib full_block_impl) (lock_wstep spend_lib (full_tx_impl spend_lib sample_script_lib) full_block_impl) lock_finished 3"
  obtain st where "?step\<^sup>*\<^sup>* lock_iter_new st" and out: "length (pipeline_output (fine_done lock_finished st) 0 3) = 2"
    using full_blk.mem_lock.fine_liveness [OF sample_p2pk_doc valid_chain_sound [OF spend_valid] lock_reads_some [OF spend_readable_at]
        lock_ok_new lock_view_new rtranclp.rtrancl_refl]
    unfolding lock_iter_new_def spend_connected_prefix by (auto simp: spend_chain_def)
  then obtain k where k: "(?step ^^ k) lock_iter_new st" by (meson rtranclp_imp_relpowp)
  have steps: "lock_steps (get_block spend_fs spend_lib Ok spend_handle 0) = 3"
    "lock_steps (get_block spend_fs spend_lib Ok spend_handle (Suc 0)) = 6"
    "lock_steps (get_block spend_fs spend_lib Ok spend_handle (Suc (Suc 0))) = 0"
    using spend_blocks by (auto simp: lock_steps_def spend_chain_def)
  from mem_locks_terminate [OF k] have "k \<le> 18"
    by (simp add: numeral_3_eq_3 lessThan_Suc steps)
  with k out show ?thesis by blast
qed

end
