(* ===== verification/Utxo_Disk_Ops.thy ===== *)
theory Utxo_Disk_Ops
  imports Chain_Samples
begin

text \<open>
  \<open>iter/fetch_connected_async.rs\<close>, module \<open>on_disk_utxo\<close>, one database operation at a time: a worker
  of the second stage first reads all the outputs its block spends (\<open>multi_get\<close>), then deletes their
  keys one by one, and then builds the block without the database. Workers of either stage may use
  the database between any two of these.
\<close>

section \<open>A worker of connect_outpoints\<close>

datatype 'blk disk_worker =
    Disk_Start block
  | Disk_Delete block "(string + byte list option) list" "byte list list"
  | Disk_Returned "'blk option"

fun disk_wstep ::
  "'db rocksdb \<Rightarrow> bitcoin_lib \<Rightarrow> ('tx, 'out) connected_tx_impl \<Rightarrow> ('blk, 'tx) connected_block_impl \<Rightarrow> 'blk disk_worker \<Rightarrow> 'db
     \<Rightarrow> ('blk disk_worker \<times> 'db) result" where
  "disk_wstep R L T B (Disk_Start blk) unspent =
     (let keys = disk_keys L (txdata blk);
          tx_outs = rdb_multi_get R keys unspent
      in Ok (Disk_Delete blk tx_outs keys, unspent))"
| "disk_wstep R L T B (Disk_Delete blk tx_outs (key # keys)) unspent =
     (case rdb_delete R key unspent of
        (Inl e, unspent) \<Rightarrow> Ok (Disk_Returned None, unspent)
      | (Inr _, unspent) \<Rightarrow> Ok (Disk_Delete blk tx_outs keys, unspent))"
| "disk_wstep R L T B (Disk_Delete blk tx_outs []) unspent =
     bind_result (disk_connect_txs L T B tx_outs (txdata blk) 0 (cbk_from B (blk_header blk) (block_hash L (blk_header blk))))
       (\<lambda>r. Ok (Disk_Returned r, unspent))"
| "disk_wstep R L T B (Disk_Returned r) unspent = Ok (Disk_Returned r, unspent)"

fun disk_finished :: "'blk disk_worker \<Rightarrow> 'blk option option" where
  "disk_finished (Disk_Returned r) = Some r"
| "disk_finished w = None"

text \<open>The outpoints whose keys are still in the database, and a bound on the steps left.\<close>

fun disk_pending :: "bitcoin_lib \<Rightarrow> 'blk disk_worker \<Rightarrow> outpoint list" where
  "disk_pending L (Disk_Start blk) = block_spends L blk"
| "disk_pending L (Disk_Delete blk tx_outs keys) =
     drop (length (block_spends L blk) - length keys) (block_spends L blk)"
| "disk_pending L (Disk_Returned r) = []"

fun disk_wsize :: "bitcoin_lib \<Rightarrow> 'blk disk_worker \<Rightarrow> nat" where
  "disk_wsize L (Disk_Start blk) = length (block_spends L blk) + 2"
| "disk_wsize L (Disk_Delete blk tx_outs keys) = length keys + 1"
| "disk_wsize L (Disk_Returned r) = 0"

text \<open>A worker on its way: what it read is what its block spends, and it deletes the keys in order.\<close>

fun disk_wok ::
  "bitcoin_lib \<Rightarrow> ('db \<Rightarrow> byte list \<rightharpoonup> byte list) \<Rightarrow> (txout \<Rightarrow> 'out) \<Rightarrow> (transaction \<Rightarrow> 'out list \<Rightarrow> 'tx)
     \<Rightarrow> (header \<Rightarrow> 'tx list \<Rightarrow> 'blk) \<Rightarrow> block \<Rightarrow> (outpoint \<rightharpoonup> 'out) \<Rightarrow> 'blk disk_worker \<Rightarrow> 'db \<Rightarrow> bool" where
  "disk_wok L rview conv build mk blk V (Disk_Start b) s \<longleftrightarrow> b = blk"
| "disk_wok L rview conv build mk blk V (Disk_Delete b tx_outs keys) s \<longleftrightarrow> b = blk
     \<and> (\<exists>d. tx_outs = map (\<lambda>p. Inr (rview d (outpoint_key p))) (block_spends L blk)
          \<and> available (disk_view L rview conv d) V (block_spends L blk))
     \<and> length keys \<le> length (block_spends L blk)
     \<and> keys = map outpoint_key (disk_pending L (Disk_Delete b tx_outs keys :: 'blk disk_worker))"
| "disk_wok L rview conv build mk blk V (Disk_Returned r) s \<longleftrightarrow> r = connected_or_none L build mk V blk"

lemma disk_wok_DeleteI:
  fixes mk :: "header \<Rightarrow> 'tx list \<Rightarrow> 'blk"
  assumes "tx_outs = map (\<lambda>p. Inr (rview d (outpoint_key p))) (block_spends L blk)"
    and "available (disk_view L rview conv d) V (block_spends L blk)" and "length keys \<le> length (block_spends L blk)"
    and "keys = map outpoint_key (drop (length (block_spends L blk) - length keys) (block_spends L blk))"
  shows "disk_wok L rview conv build mk blk V (Disk_Delete blk tx_outs keys :: 'blk disk_worker) s"
  unfolding disk_wok.simps disk_pending.simps by (intro conjI exI [of _ d]) (fact refl assms)+

section \<open>The contract holds\<close>

text \<open>What a step of a worker that has not finished comes to.\<close>

definition disk_progress ::
  "'db rocksdb \<Rightarrow> bitcoin_lib \<Rightarrow> ('tx, 'out) connected_tx_impl \<Rightarrow> ('blk, 'tx) connected_block_impl
     \<Rightarrow> ('db \<Rightarrow> byte list \<rightharpoonup> byte list) \<Rightarrow> (txout \<Rightarrow> 'out) \<Rightarrow> ('blk disk_worker \<Rightarrow> 'db \<Rightarrow> bool)
     \<Rightarrow> 'blk disk_worker \<Rightarrow> 'db \<Rightarrow> bool" where
  "disk_progress R L T B rview conv wok w d \<longleftrightarrow>
     (\<exists>w' d' gone. disk_wstep R L T B w d = Ok (w', d') \<and> wok w' d'
        \<and> disk_wsize L w' < disk_wsize L w \<and> disk_pending L w = gone @ disk_pending L w'
        \<and> disk_view L rview conv d' \<subseteq>\<^sub>m disk_view L rview conv d
        \<and> (\<forall>p. p \<notin> set gone \<longrightarrow> disk_view L rview conv d' p = disk_view L rview conv d p)
        \<and> (\<forall>p \<in> set gone. disk_view L rview conv d' p = None))"

lemma disk_progress_still:
  assumes "disk_wstep R L T B w d = Ok (w', d)" and "wok w' d" and "disk_wsize L w' < disk_wsize L w"
    and "disk_pending L w = disk_pending L w'"
  shows "disk_progress R L T B rview conv wok w d"
  unfolding disk_progress_def using assms by (intro exI [of _ w'] exI [of _ d] exI [of _ "[]"]) simp

context connected_block
begin

lemma disk_read_ok:
  assumes doc: "rocks_doc R rview" and avail: "available (disk_view L rview conv d) V (block_spends L b)"
  shows "disk_progress R L T B rview conv (disk_wok L rview conv build mk b V) (Disk_Start b) d"
proof (rule disk_progress_still)
  have keys: "disk_keys L (txdata b) = map outpoint_key (block_spends L b)"
    by (simp add: disk_keys_eq block_spends_def)
  show "disk_wstep R L T B (Disk_Start b) d = Ok (Disk_Delete b (map (\<lambda>p. Inr (rview d (outpoint_key p))) (block_spends L b))
      (map outpoint_key (block_spends L b)), d)"
    by (simp add: keys Let_def rocks_docD(2) [OF doc] comp_def)
  show "disk_wok L rview conv build mk b V (Disk_Delete b (map (\<lambda>p. Inr (rview d (outpoint_key p))) (block_spends L b))
      (map outpoint_key (block_spends L b)) :: 'blk disk_worker) d"
    using avail by (intro disk_wok_DeleteI [where d = d] refl) simp_all
qed simp_all

lemma disk_build_ok:
  assumes "good" and wok: "disk_wok L rview conv build mk b V (Disk_Delete blk tx_outs [] :: 'blk disk_worker) d"
  shows "disk_progress R L T B rview conv (disk_wok L rview conv build mk b V) (Disk_Delete blk tx_outs []) d"
proof -
  from wok obtain d0 where b: "blk = b" and outs: "tx_outs = map (\<lambda>p. Inr (rview d0 (outpoint_key p))) (block_spends L b)"
    and av0: "available (disk_view L rview conv d0) V (block_spends L b)" by auto
  have drop: "drop 0 tx_outs = map (\<lambda>p. Inr (rview d0 (outpoint_key p))) (concat (map (tx_spends L) (txdata b)))"
    by (simp add: outs block_spends_def)
  have same: "connected_or_none L build mk (disk_view L rview conv d0) b = connected_or_none L build mk V b"
    by (rule connected_or_none_cong) (use av0 in \<open>simp add: available_def\<close>)
  have "disk_connect_txs L T B tx_outs (txdata b) 0 (mk (blk_header b) [])
      = Ok (connected_or_none L build mk (disk_view L rview conv d0) b)"
    using disk_connect_txs_ok [where rview = rview and d = d0, OF assms(1) drop, of "blk_header b" "[]"]
      disk_connect_txs_bad [where rview = rview and d = d0, OF assms(1) drop]
    by (simp add: connected_or_none_def connected_of_def block_spends_def)
  then show ?thesis
    by (intro disk_progress_still [where w' = "Disk_Returned (connected_or_none L build mk V b)"])
      (simp_all add: b block_from same)
qed

lemma disk_delete_ok:
  assumes doc: "rocks_doc R rview"
    and wok: "disk_wok L rview conv build mk b V (Disk_Delete blk tx_outs (key # rest) :: 'blk disk_worker) d"
  shows "disk_progress R L T B rview conv (disk_wok L rview conv build mk b V) (Disk_Delete blk tx_outs (key # rest)) d"
proof -
  let ?k = "length (block_spends L b) - Suc (length rest)"
  from wok obtain d0 where b: "blk = b" and outs: "tx_outs = map (\<lambda>p. Inr (rview d0 (outpoint_key p))) (block_spends L b)"
    and av0: "available (disk_view L rview conv d0) V (block_spends L b)"
    and len: "Suc (length rest) \<le> length (block_spends L b)"
    and keys: "key # rest = map outpoint_key (drop ?k (block_spends L b))" by auto
  then have "?k < length (block_spends L b)" by (cases "block_spends L b") auto
  then have split: "drop ?k (block_spends L b) = block_spends L b ! ?k # drop (Suc ?k) (block_spends L b)"
    by (rule Cons_nth_drop_Suc [symmetric])
  have k: "length (block_spends L b) - length rest = Suc ?k" using len by simp
  from keys split have key: "key = outpoint_key (block_spends L b ! ?k)"
    and rest: "rest = map outpoint_key (drop (Suc ?k) (block_spends L b))" by simp_all
  from rocks_docD(3) [OF doc] obtain d' where d': "rdb_delete R key d = (Inr (), d')" "rview d' = (rview d)(key := None)"
    by blast
  have vw: "disk_view L rview conv d' = (disk_view L rview conv d)(block_spends L b ! ?k := None)"
    by (auto simp: disk_view_def disk_raw_view_def d'(2) key fun_eq_iff)
  have "disk_wok L rview conv build mk b V (Disk_Delete b tx_outs rest :: 'blk disk_worker) d'"
    using len rest k by (intro disk_wok_DeleteI [OF outs av0]) simp_all
  moreover have "disk_wstep R L T B (Disk_Delete blk tx_outs (key # rest)) d = Ok (Disk_Delete b tx_outs rest, d')"
    using d'(1) b by simp
  moreover have "disk_pending L (Disk_Delete blk tx_outs (key # rest) :: 'blk disk_worker)
      = [block_spends L b ! ?k] @ disk_pending L (Disk_Delete b tx_outs rest :: 'blk disk_worker)"
    unfolding disk_pending.simps b k using split by simp
  moreover have "disk_wsize L (Disk_Delete b tx_outs rest :: 'blk disk_worker)
      < disk_wsize L (Disk_Delete blk tx_outs (key # rest) :: 'blk disk_worker)" by simp
  moreover have "disk_view L rview conv d' \<subseteq>\<^sub>m disk_view L rview conv d"
    and "\<forall>p. p \<notin> set [block_spends L b ! ?k] \<longrightarrow> disk_view L rview conv d' p = disk_view L rview conv d p"
    and "\<forall>p \<in> set [block_spends L b ! ?k]. disk_view L rview conv d' p = None"
    by (simp_all add: vw map_le_def)
  ultimately show ?thesis unfolding disk_progress_def by blast
qed

lemma disk_step_ok:
  assumes "good" and doc: "disk_good R rview L" and wok: "disk_wok L rview conv build mk b V w d" and "disk_finished w = None"
    and avail: "available (disk_view L rview conv d) V (disk_pending L w)"
  shows "\<exists>w' d' gone. disk_wstep R L T B w d = Ok (w', d') \<and> disk_wok L rview conv build mk b V w' d'
    \<and> disk_wsize L w' < disk_wsize L w \<and> disk_pending L w = gone @ disk_pending L w'
    \<and> disk_view L rview conv d' \<subseteq>\<^sub>m disk_view L rview conv d
    \<and> (\<forall>p. p \<notin> set gone \<longrightarrow> disk_view L rview conv d' p = disk_view L rview conv d p)
    \<and> (\<forall>p \<in> set gone. disk_view L rview conv d' p = None)"
proof -
  have rocks: "rocks_doc R rview" using doc by (simp add: disk_good_def)
  have "disk_progress R L T B rview conv (disk_wok L rview conv build mk b V) w d"
  proof (cases w)
    case (Disk_Start blk)
    with wok avail disk_read_ok [OF rocks] show ?thesis by simp
  next
    case (Disk_Delete blk tx_outs keys)
    with wok disk_build_ok [OF assms(1)] disk_delete_ok [OF rocks] show ?thesis by (cases keys) (simp_all del: disk_wok.simps)
  qed (use assms(4) in simp)
  then show ?thesis by (simp add: disk_progress_def)
qed

lemma disk_fine_cache:
  "fine_cache (good \<and> disk_good R rview L) L conv build mk (\<lambda>_. True) (disk_view L rview conv) (disk_insert_block R L)
     Disk_Start (disk_wstep R L T B) disk_finished (disk_pending L) (disk_wsize L) (disk_wok L rview conv build mk)"
proof (unfold_locales, goal_cases)
  case (1 s blk)
  then show ?case using disk_insert_ok [of R rview s blk] by simp
next
  case (2 s blk r s' b V w)
  from 2(4) show ?case by (cases w) simp_all
next
  case (3 blk V s)
  show ?case by simp
next
  case (4 s b V w)
  from 4 disk_step_ok [of R rview b V w s] show ?case by blast
next
  case (5 s b V w w' s' b2 w2)
  from 5(6) show ?case by (cases w2) simp_all
next
  case (6 b V w s res)
  from 6(2,3) show ?case by (cases w) simp_all
next
  case (7 w res)
  from 7(2) show ?case by (cases w) simp_all
qed

end

interpretation compact_disk_ops: fine_cache "p2pk_doc S \<and> disk_good R rview L" L "compact_txout_of S" "compact_connected_of L S"
  "compact_connected_block_of L" "\<lambda>_. True" "disk_view L rview (compact_txout_of S)" "disk_insert_block R L"
  Disk_Start "disk_wstep R L (compact_tx_impl L S) compact_block_impl" disk_finished "disk_pending L" "disk_wsize L"
  "disk_wok L rview (compact_txout_of S) (compact_connected_of L S) (compact_connected_block_of L)" for S R rview L
  by (rule compact_blk.disk_fine_cache)

interpretation full_disk_ops: fine_cache "p2pk_doc S \<and> disk_good R rview L" L "full_txout_of S" "full_connected_of L S"
  "full_connected_block_of L" "\<lambda>_. True" "disk_view L rview (full_txout_of S)" "disk_insert_block R L"
  Disk_Start "disk_wstep R L (full_tx_impl L S) full_block_impl" disk_finished "disk_pending L" "disk_wsize L"
  "disk_wok L rview (full_txout_of S) (full_connected_of L S) (full_connected_block_of L)" for S R rview L
  by (rule full_blk.disk_fine_cache)

section \<open>Properties\<close>

lemma disk_reads_some:
  assumes "chain_readable_at fs L db blks R n"
  shows "reads_some (disk_insert_block D L) blks R n (disk_update_unspent_cache D fs L db)"
proof -
  have "disk_update_unspent_cache D fs L db h s = (if h \<in> R then disk_insert_block D L (blks ! h) s else Ok (None, s))"
    if "h < n" for h s
    using assms that by (cases "h \<in> R") (force simp: chain_readable_at_def disk_update_unspent_cache_def)+
  with assms show ?thesis by (simp add: chain_readable_at_def reads_some_def)
qed

lemma disk_view_empty: "rview d = Map.empty \<Longrightarrow> disk_view L rview conv d = Map.empty"
  by (simp add: disk_view_def disk_raw_view_def fun_eq_iff)

text \<open>
  C2. On disk the iterator is right under every interleaving of the database operations of its threads,
  and never stuck: on a sound chain of which the heights \<open>R\<close> can be read, it has at any time yielded
  an initial part of the chain, connected to the outputs spent; it has yielded all blocks below the
  first one that is unreadable or has an input that spends nothing when no thread can go on; and the
  threads can always go on until then.
\<close>

theorem disk_ops_confluent:
  assumes "p2pk_doc S" and "disk_good D rview L" and "sound_chain L blks" and "chain_readable_at fs L db blks R n"
    and "rview d = Map.empty"
    and "(fine_step (disk_update_unspent_cache D fs L db) Disk_Start
        (disk_wstep D L (compact_tx_impl L S) compact_block_impl) disk_finished n)\<^sup>*\<^sup>* (fine_init d) st"
  shows "(\<exists>k \<le> connected_prefix L blks R n.
        pipeline_output (fine_done disk_finished st) 0 n = map (compact_ideal L S blks) (take k blks))
    \<and> ((\<nexists>st'. fine_step (disk_update_unspent_cache D fs L db) Disk_Start
          (disk_wstep D L (compact_tx_impl L S) compact_block_impl) disk_finished n st st') \<longrightarrow>
       pipeline_output (fine_done disk_finished st) 0 n = map (compact_ideal L S blks) (take (connected_prefix L blks R n) blks))
    \<and> (\<exists>st'. (fine_step (disk_update_unspent_cache D fs L db) Disk_Start
          (disk_wstep D L (compact_tx_impl L S) compact_block_impl) disk_finished n)\<^sup>*\<^sup>* st st'
       \<and> pipeline_output (fine_done disk_finished st') 0 n = map (compact_ideal L S blks) (take (connected_prefix L blks R n) blks))"
proof -
  note facts = conjI [OF assms(1,2)] assms(3) disk_reads_some [OF assms(4)] TrueI disk_view_empty [of rview d, OF assms(5)] assms(6)
  show ?thesis
    unfolding compact_ideal_eq
    using compact_disk_ops.fine_result [OF facts] compact_disk_ops.fine_liveness [OF facts] by blast
qed

section \<open>Samples\<close>

lemma odd_compact_inputs:
  "map (\<lambda>b. map (\<lambda>tx. map cto_value (cct_input tx)) (ccb_txdata b))
     (map (compact_ideal toy_lib sample_script_lib odd_chain) (take 3 odd_chain)) = [[[]], [[]], [[5]]]"
  using odd_chain_outputs(1) unfolding compact_ideal_def connected_of_def
  by (simp add: odd_chain_def odd_bytes_def toy_block_def toy_tx_def compact_connected_block_of_def compact_connected_of_def
      tx_spends_def compact_txout_of_def forget_txout_def full_txout_of_def Let_def)

theorem disk_ops_confluent_witness:
  "\<exists>st. (fine_step (disk_update_unspent_cache sample_rocks (toy_fs odd_bytes) toy_lib (toy_handle 4)) Disk_Start
        (disk_wstep sample_rocks toy_lib (compact_tx_impl toy_lib sample_script_lib) compact_block_impl) disk_finished 5)\<^sup>*\<^sup>*
        (fine_init Map.empty) st
    \<and> map (\<lambda>b. map (\<lambda>tx. map cto_value (cct_input tx)) (ccb_txdata b)) (pipeline_output (fine_done disk_finished st) 0 5)
      = [[[]], [[]], [[5]]]"
proof -
  let ?step = "fine_step (disk_update_unspent_cache sample_rocks (toy_fs odd_bytes) toy_lib (toy_handle 4)) Disk_Start
    (disk_wstep sample_rocks toy_lib (compact_tx_impl toy_lib sample_script_lib) compact_block_impl) disk_finished 5"
  obtain st where "?step\<^sup>*\<^sup>* (fine_init Map.empty) st"
    "pipeline_output (fine_done disk_finished st) 0 5 = map (compact_ideal toy_lib sample_script_lib odd_chain) (take 3 odd_chain)"
    using disk_ops_confluent [OF sample_p2pk_doc toy_disk_good odd_sound odd_readable _ rtranclp.rtrancl_refl, of Map.empty]
    unfolding odd_prefix by blast
  then show ?thesis by (intro exI [of _ st]) (simp only: odd_compact_inputs)
qed

end
