(* ===== verification/Connected_Iter.thy ===== *)
theory Connected_Iter
  imports Block_Iter Utxo_Mem_Locks Utxo_Disk_Ops
begin

text \<open>
  \<open>BitcoinDB::connected_block_iter\<close> as a whole: the constructor of \<open>ConnectedBlockIter\<close> for both
  backends, with the database it opens on the disk, and what is yielded once the threads have come
  to an end. Over whatever schedule, the two backends yield the same, and it is what \<open>get_connected_block\<close> returns
  height by height when the transaction index resolves the inputs as the chain does.
\<close>

section \<open>The database of the on-disk cache\<close>

text \<open>The options \<open>create_db\<close> sets; all others keep their defaults.\<close>

record rocks_options =
  create_if_missing :: bool
  max_background_jobs :: i32
  write_buffer_size :: nat
  level_zero_file_num_compaction_trigger :: i32
  max_bytes_for_level_base :: u64
  target_file_size_base :: u64
  max_bytes_for_level_multiplier :: nat
  prefix_extractor :: nat

definition create_db :: "(rocks_options \<Rightarrow> path \<Rightarrow> string + 'db) \<Rightarrow> nat \<Rightarrow> path \<Rightarrow> 'db option" where
  "create_db db_open num_cpus path =
     (let options = \<lparr>create_if_missing = True, max_background_jobs = word_of_nat num_cpus, write_buffer_size = 0x10000000,
        level_zero_file_num_compaction_trigger = 4, max_bytes_for_level_base = 0x40000000, target_file_size_base = 0x10000000,
        max_bytes_for_level_multiplier = 4, prefix_extractor = 8\<rparr>
      in case db_open options path of
           Inr db \<Rightarrow> Some db
         | Inl e \<Rightarrow> None)"

text \<open>The database the iterator works on, \<open>None\<close> when it is the one without any block (\<open>null\<close>).\<close>

definition disk_iter_db :: "(rocks_options \<Rightarrow> path \<Rightarrow> string + 'db) \<Rightarrow> nat \<Rightarrow> (io_error + path) \<Rightarrow> 'db option" where
  "disk_iter_db db_open num_cpus tempdir =
     (case tempdir of
        Inl e \<Rightarrow> None
      | Inr cache_dir \<Rightarrow> create_db db_open num_cpus cache_dir)"

section \<open>The iterator\<close>

text \<open>
  What the iterator can have yielded when its threads have come to an end: in memory, and on disk,
  where it yields nothing if the database could not be opened.
\<close>

definition mem_connected_block_iter ::
  "filesystem \<Rightarrow> bitcoin_lib \<Rightarrow> ('tx, 'out) connected_tx_impl \<Rightarrow> ('blk, 'tx) connected_block_impl \<Rightarrow> bitcoin_db \<Rightarrow> nat \<Rightarrow> 'blk list \<Rightarrow> bool" where
  "mem_connected_block_iter fs L T B db stop yielded \<longleftrightarrow>
     (let step = fine_step (lock_update_unspent_cache fs L T db) (lock_start L B) (lock_wstep L T B) lock_finished stop
      in \<exists>st. step\<^sup>*\<^sup>* lock_iter_new st \<and> (\<nexists>st'. step st st') \<and> yielded = pipeline_output (fine_done lock_finished st) 0 stop)"

definition disk_connected_block_iter ::
  "'db rocksdb \<Rightarrow> (rocks_options \<Rightarrow> path \<Rightarrow> string + 'db) \<Rightarrow> nat \<Rightarrow> (io_error + path) \<Rightarrow> filesystem \<Rightarrow> bitcoin_lib
     \<Rightarrow> ('tx, 'out) connected_tx_impl \<Rightarrow> ('blk, 'tx) connected_block_impl \<Rightarrow> bitcoin_db \<Rightarrow> nat \<Rightarrow> 'blk list \<Rightarrow> bool" where
  "disk_connected_block_iter D db_open num_cpus tempdir fs L T B db stop yielded \<longleftrightarrow>
     (case disk_iter_db db_open num_cpus tempdir of
        None \<Rightarrow> yielded = []
      | Some d \<Rightarrow>
          (let step = fine_step (disk_update_unspent_cache D fs L db) Disk_Start (disk_wstep D L T B) disk_finished stop
           in \<exists>st. step\<^sup>*\<^sup>* (fine_init d) st \<and> (\<nexists>st'. step st st') \<and> yielded = pipeline_output (fine_done disk_finished st) 0 stop))"

text \<open>\<open>Iterator::next\<close>.\<close>

definition connected_iter_next :: "'blk list \<Rightarrow> 'blk option \<times> 'blk list" where
  "connected_iter_next it = par_iter_next it"

text \<open>The test \<open>test_empty\<close>: the iterator without blocks (\<open>null\<close>) gives \<open>None\<close> a hundred times.\<close>

fun all_none :: "nat \<Rightarrow> 'blk list \<Rightarrow> bool" where
  "all_none 0 it = True"
| "all_none (Suc k) it = (let (b, it) = connected_iter_next it in b = None \<and> all_none k it)"

definition test_empty :: bool where
  "test_empty \<longleftrightarrow> all_none 100 ([] :: nat list)"

lemma all_none_null: "all_none k []"
  by (induction k) (simp_all add: connected_iter_next_def)

lemma test_empty_passes: test_empty
  unfolding test_empty_def by (rule all_none_null)

section \<open>What is yielded\<close>

lemma fine_cache_yields:
  assumes "fine_cache good L conv build mk ok view insert_block start wstep finished pending wsize wok"
    and "good" and "sound_chain L blks" and "reads_some insert_block blks R n update" and "ok s" and "view s = Map.empty"
  shows "(\<exists>st. (fine_step update start wstep finished n)\<^sup>*\<^sup>* (fine_init s) st
      \<and> (\<nexists>st'. fine_step update start wstep finished n st st') \<and> yielded = pipeline_output (fine_done finished st) 0 n)
    \<longleftrightarrow> yielded = map (connected_of L build mk (chain_view L conv blks)) (take (connected_prefix L blks R n) blks)"
    (is "?yields \<longleftrightarrow> yielded = ?all")
proof
  assume ?yields
  then show "yielded = ?all" using fine_cache.fine_result [OF assms] by blast
next
  assume "yielded = ?all"
  obtain st where st: "(fine_step update start wstep finished n)\<^sup>*\<^sup>* (fine_init s) st" "\<nexists>st'. fine_step update start wstep finished n st st'"
    using fine_cache.fine_completes [OF assms(1-4) fine_cache.fine_reachable [OF assms rtranclp.rtrancl_refl]] by blast
  from fine_cache.fine_result [OF assms st(1)] st(2) have "pipeline_output (fine_done finished st) 0 n = ?all" by blast
  with st \<open>yielded = ?all\<close> show ?yields by (intro exI [of _ st]) simp
qed

lemma mem_full_yields:
  assumes "p2pk_doc S" and "sound_chain L blks" and "chain_readable_at fs L db blks R n"
  shows "mem_connected_block_iter fs L (full_tx_impl L S) full_block_impl db n yielded
    \<longleftrightarrow> yielded = map (full_ideal L S blks) (take (connected_prefix L blks R n) blks)"
  unfolding mem_connected_block_iter_def Let_def lock_iter_new_def full_ideal_eq
  by (rule fine_cache_yields [OF full_blk.mem_lock.fine_cache_axioms assms(1,2) lock_reads_some [OF assms(3)] lock_ok_new lock_view_new])

lemma mem_compact_yields:
  assumes "p2pk_doc S" and "sound_chain L blks" and "chain_readable_at fs L db blks R n"
  shows "mem_connected_block_iter fs L (compact_tx_impl L S) compact_block_impl db n yielded
    \<longleftrightarrow> yielded = map (compact_ideal L S blks) (take (connected_prefix L blks R n) blks)"
  unfolding mem_connected_block_iter_def Let_def lock_iter_new_def compact_ideal_eq
  by (rule fine_cache_yields [OF compact_blk.mem_lock.fine_cache_axioms assms(1,2) lock_reads_some [OF assms(3)] lock_ok_new lock_view_new])

lemma disk_full_yields:
  assumes "p2pk_doc S" and "disk_good D rview L" and "sound_chain L blks" and "chain_readable_at fs L db blks R n"
    and "disk_iter_db db_open num_cpus tempdir = Some d" and "rview d = Map.empty"
  shows "disk_connected_block_iter D db_open num_cpus tempdir fs L (full_tx_impl L S) full_block_impl db n yielded
    \<longleftrightarrow> yielded = map (full_ideal L S blks) (take (connected_prefix L blks R n) blks)"
  unfolding disk_connected_block_iter_def Let_def assms(5) option.case full_ideal_eq
  by (rule fine_cache_yields [OF full_disk_ops.fine_cache_axioms conjI [OF assms(1,2)] assms(3) disk_reads_some [OF assms(4)]
        TrueI disk_view_empty [of rview d, OF assms(6)]])

lemma disk_compact_yields:
  assumes "p2pk_doc S" and "disk_good D rview L" and "sound_chain L blks" and "chain_readable_at fs L db blks R n"
    and "disk_iter_db db_open num_cpus tempdir = Some d" and "rview d = Map.empty"
  shows "disk_connected_block_iter D db_open num_cpus tempdir fs L (compact_tx_impl L S) compact_block_impl db n yielded
    \<longleftrightarrow> yielded = map (compact_ideal L S blks) (take (connected_prefix L blks R n) blks)"
  unfolding disk_connected_block_iter_def Let_def assms(5) option.case compact_ideal_eq
  by (rule fine_cache_yields [OF compact_disk_ops.fine_cache_axioms conjI [OF assms(1,2)] assms(3) disk_reads_some [OF assms(4)]
        TrueI disk_view_empty [of rview d, OF assms(6)]])

text \<open>Looking up height by height stops at the same place.\<close>

lemma takeWhile_prefix:
  assumes "R \<subseteq> {..<length blks}"
    and "\<And>h. h \<in> R \<inter> connectable_heights L blks \<Longrightarrow> h < n \<Longrightarrow> f h = Ok (g (blks ! h))"
    and "\<And>h. h \<notin> R \<inter> connectable_heights L blks \<Longrightarrow> h < n \<Longrightarrow> \<not> is_ok (f h)"
  shows "takeWhile is_ok (map f [0..<n]) = map Ok (map g (take (connected_prefix L blks R n) blks))"
proof -
  let ?Q = "R \<inter> connectable_heights L blks" and ?m = "connected_prefix L blks R n"
  have same: "is_ok (f h) \<longleftrightarrow> h \<in> ?Q" if "h < n" for h
    using assms(2,3) [OF _ that] by (cases "h \<in> ?Q") (auto simp: is_ok_def)
  have "takeWhile is_ok (map f [0..<n]) = map f (takeWhile (\<lambda>h. is_ok (f h)) [0..<n])"
    by (simp add: takeWhile_map comp_def)
  also have "takeWhile (\<lambda>h. is_ok (f h)) [0..<n] = takeWhile (\<lambda>h. h \<in> ?Q) [0..<n]"
    by (rule takeWhile_cong) (simp_all add: same)
  also have "\<dots> = [0..<?m]"
  proof (rule nth_equalityI)
    show len: "length (takeWhile (\<lambda>h. h \<in> ?Q) [0..<n]) = length [0..<?m]"
      by (simp add: connected_prefix_def readable_prefix_def)
    fix i assume i: "i < length (takeWhile (\<lambda>h. h \<in> ?Q) [0..<n])"
    with len connected_prefix_le [of L blks R n] show "takeWhile (\<lambda>h. h \<in> ?Q) [0..<n] ! i = [0..<?m] ! i"
      using takeWhile_nth [OF i] by simp
  qed
  also have "map f [0..<?m] = map (\<lambda>h. Ok (g (blks ! h))) [0..<?m]"
  proof (rule map_cong [OF refl])
    fix h assume "h \<in> set [0..<?m]"
    then have "h < readable_prefix ?Q n" by (simp add: connected_prefix_def)
    from readable_prefix_less [OF this] show "f h = Ok (g (blks ! h))" by (intro assms(2)) auto
  qed
  also have "\<dots> = map Ok (map g (take ?m blks))"
    using map_nth_take [OF connected_prefix_length [of L blks R n], of "\<lambda>b. Ok (g b)"] by simp
  finally show ?thesis .
qed

section \<open>Properties\<close>

text \<open>
  C10. The two backends are interchangeable: on a sound chain, with a database for the disk that starts
  empty, the iterator in memory and the iterator on disk yield the same, in the full and in the
  compact format, whatever the schedules, whatever heights cannot be read, and whatever inputs spend
  nothing. Each yields exactly one list, in either format.
\<close>

theorem connected_iter_backends_agree:
  assumes "p2pk_doc S" and "disk_good D rview L" and "sound_chain L blks" and "chain_readable_at fs L db blks R n"
    and "disk_iter_db db_open num_cpus tempdir = Some d" and "rview d = Map.empty"
  shows "(disk_connected_block_iter D db_open num_cpus tempdir fs L (full_tx_impl L S) full_block_impl db n yielded
      \<longleftrightarrow> mem_connected_block_iter fs L (full_tx_impl L S) full_block_impl db n yielded)
    \<and> (disk_connected_block_iter D db_open num_cpus tempdir fs L (compact_tx_impl L S) compact_block_impl db n cyielded
      \<longleftrightarrow> mem_connected_block_iter fs L (compact_tx_impl L S) compact_block_impl db n cyielded)
    \<and> (\<exists>!blks. mem_connected_block_iter fs L (full_tx_impl L S) full_block_impl db n blks)
    \<and> (\<exists>!blks. mem_connected_block_iter fs L (compact_tx_impl L S) compact_block_impl db n blks)"
  unfolding mem_full_yields [OF assms(1,3,4)] mem_compact_yields [OF assms(1,3,4)] disk_full_yields [OF assms]
    disk_compact_yields [OF assms]
  by simp

text \<open>
  Iterating is looking up, once the transaction index is known to resolve the inputs as the chain does: up to \<open>n\<close> the iterator
  yields, in order, exactly what \<open>get_connected_block\<close> returns height by height, up to the first height for which
  it returns an error, be it that the block cannot be read or that an input spends nothing. \<open>Data_Dir_Lookup\<close>
  shows that the index of a data directory is such an index.
\<close>

lemma connected_iter_is_lookup:
  assumes "p2pk_doc S" and "rayon_doc Ry" and "coinbase_doc L" and "mask_ok (bf_xor_mask (db_blk_file db))"
    and "genesis_readable fs L (db_block_index db) (db_blk_file db)" and "db_tx_db db = Some td"
    and "index_agrees fs L td db blks" and "sound_chain L blks" and "chain_readable_at fs L db blks R n"
  shows "(mem_connected_block_iter fs L (full_tx_impl L S) full_block_impl db n yielded \<longleftrightarrow>
      map Ok yielded = takeWhile is_ok (map (get_connected_block fs L (full_connected_block_connect Ry fs L S) db) [0..<n]))
    \<and> (mem_connected_block_iter fs L (compact_tx_impl L S) compact_block_impl db n cyielded \<longleftrightarrow>
      map Ok cyielded = takeWhile is_ok (map (get_connected_block fs L (compact_connected_block_connect Ry fs L S) db) [0..<n]))"
proof -
  let ?Q = "R \<inter> connectable_heights L blks"
  let ?full = "get_connected_block fs L (full_connected_block_connect Ry fs L S) db"
  let ?compact = "get_connected_block fs L (compact_connected_block_connect Ry fs L S) db"
  from assms(9) have R: "R \<subseteq> {..<length blks}" by (simp add: chain_readable_at_def)
  have blk: "get_block fs L Ok db h = Ok (blks ! h)" if "h \<in> R" "h < n" for h
    using that assms(9) by (auto simp: chain_readable_at_def)
  note at = get_connected_block_at [OF assms(1-7) _ blk] and missing = get_connected_block_missing [OF assms(1-7) _ _ blk]
  have ok: "?full h = Ok (full_ideal L S blks (blks ! h))" "?compact h = Ok (compact_ideal L S blks (blks ! h))"
    if "h \<in> ?Q" "h < n" for h
    using at [of h] that by simp_all
  have bad: "\<not> is_ok (?full h) \<and> \<not> is_ok (?compact h)" if "h \<notin> ?Q" "h < n" for h
  proof (cases "h \<in> R")
    case True
    then have "h < length blks" "h \<notin> connectable_heights L blks" using that(1) R by auto
    with missing [OF this True that(2)] show ?thesis by (auto simp: is_ok_def)
  next
    case False
    with that(2) assms(9) have "\<exists>e. get_block fs L Ok db h = Err e" unfolding chain_readable_at_def by metis
    then show ?thesis by (auto simp: get_connected_block_def assms(6) is_ok_def)
  qed
  have "takeWhile is_ok (map ?full [0..<n]) = map Ok (map (full_ideal L S blks) (take (connected_prefix L blks R n) blks))"
    and "takeWhile is_ok (map ?compact [0..<n]) = map Ok (map (compact_ideal L S blks) (take (connected_prefix L blks R n) blks))"
    by (rule takeWhile_prefix [OF R]; use ok bad in simp)+
  moreover have inj: "inj (Ok :: 'x \<Rightarrow> 'x result)" by (simp add: inj_on_def)
  ultimately show ?thesis
    unfolding mem_full_yields [OF assms(1,8,9)] mem_compact_yields [OF assms(1,8,9)]
    by (simp only: inj_map_eq_map [OF inj])
qed

section \<open>Samples\<close>

definition sample_db_open :: "rocks_options \<Rightarrow> path \<Rightarrow> string + (byte list \<rightharpoonup> byte list)" where
  "sample_db_open options path = (if create_if_missing options then Inr Map.empty else Inl ''missing'')"

lemma sample_iter_db: "disk_iter_db sample_db_open 8 (Inr [''tmp'']) = Some Map.empty"
  by (simp add: disk_iter_db_def create_db_def sample_db_open_def)

theorem connected_iter_backends_agree_witness:
  "\<exists>!blks. mem_connected_block_iter (toy_fs odd_bytes) toy_lib (full_tx_impl toy_lib sample_script_lib) full_block_impl (toy_handle 4) 5 blks"
  using connected_iter_backends_agree [OF sample_p2pk_doc toy_disk_good odd_sound odd_readable sample_iter_db] by simp

end
