(* ===== verification/Calls.thy ===== *)
theory Calls
  imports Connected_Iter
begin

text \<open>
  How the two grains of the pipeline relate. Every run of \<open>Pipeline\<close>, where a call is one step, is a run of the
  threads with their accesses one by one (\<open>Interleave\<close>), with the same results; so a result that the calls can
  have in some order is one that the iterator can have. The locale \<open>call_runs\<close> asks of a backend that a worker left alone
  does its call; both backends have it, whatever the blocks, and on disk whatever errors the database gives.
\<close>

section \<open>Calls as sequences of accesses\<close>

definition worker_alone :: "('w \<Rightarrow> 'c \<Rightarrow> ('w \<times> 'c) result) \<Rightarrow> 'w \<times> 'c \<Rightarrow> 'w \<times> 'c \<Rightarrow> bool" where
  "worker_alone wstep c c' \<longleftrightarrow> wstep (fst c) (snd c) = Ok c'"

text \<open>\<open>flat\<close> is the state of the calls that a state of the threads stands for.\<close>

definition same_results ::
  "('w \<Rightarrow> 'blk option option) \<Rightarrow> ('c \<Rightarrow> bool) \<Rightarrow> ('c \<Rightarrow> 's) \<Rightarrow> ('s, 'blk) pipeline \<Rightarrow> ('c, 'w) fine_pipeline \<Rightarrow> bool" where
  "same_results finished ok flat pst st \<longleftrightarrow> ok (fp_cache st) \<and> flat (fp_cache st) = pl_cache pst
     \<and> fp_blocks st = pl_blocks pst \<and> fine_done finished st = pl_done pst
     \<and> (\<forall>h w. fp_workers st h = Some w \<longrightarrow> finished w \<noteq> None)"

locale call_runs =
  fixes good :: bool
    and update :: "nat \<Rightarrow> 's \<Rightarrow> (block option \<times> 's) result"
    and connect :: "block \<Rightarrow> 's \<Rightarrow> ('blk option \<times> 's) result"
    and fupdate :: "nat \<Rightarrow> 'c \<Rightarrow> (block option \<times> 'c) result"
    and start :: "block \<Rightarrow> 'w"
    and wstep :: "'w \<Rightarrow> 'c \<Rightarrow> ('w \<times> 'c) result"
    and finished :: "'w \<Rightarrow> 'blk option option"
    and n :: nat
    and ok :: "'c \<Rightarrow> bool"
    and flat :: "'c \<Rightarrow> 's"
  assumes update_run: "good \<Longrightarrow> ok c \<Longrightarrow> h < n \<Longrightarrow> update h (flat c) = Ok (r, s') \<Longrightarrow>
      \<exists>c'. fupdate h c = Ok (r, c') \<and> ok c' \<and> flat c' = s'"
    and connect_run: "ok c \<Longrightarrow> connect blk (flat c) = Ok (b, s') \<Longrightarrow>
      \<exists>w c'. (worker_alone wstep)\<^sup>*\<^sup>* (start blk, c) (w, c') \<and> finished w = Some b \<and> ok c' \<and> flat c' = s'"
    and finished_stays: "finished w = Some b \<Longrightarrow> wstep w c = Ok (w', c') \<Longrightarrow> w' = w \<and> c' = c"
begin

lemma alone_work:
  assumes "(worker_alone wstep)\<^sup>*\<^sup>* (w, c) (w', c')" and "fp_workers st h = Some w" and "fp_cache st = c"
  shows "(fine_step fupdate start wstep finished n)\<^sup>*\<^sup>* st (st\<lparr>fp_cache := c', fp_workers := (fp_workers st)(h \<mapsto> w')\<rparr>)"
  using assms
proof (induction "(w, c)" arbitrary: w c st rule: converse_rtranclp_induct)
  case base
  then have "st\<lparr>fp_cache := c', fp_workers := (fp_workers st)(h \<mapsto> w')\<rparr> = st" by (simp add: fun_upd_idem)
  then show ?case by simp
next
  case (step d)
  obtain w1 c1 where d: "d = (w1, c1)" by (cases d)
  with step.hyps(1) have ws: "wstep w c = Ok (w1, c1)" by (simp add: worker_alone_def)
  show ?case
  proof (cases "finished w")
    case (Some r)
    from finished_stays [OF Some ws] step.hyps(3) [OF d] step.prems show ?thesis by blast
  next
    case None
    let ?st = "st\<lparr>fp_cache := c1, fp_workers := (fp_workers st)(h \<mapsto> w1)\<rparr>"
    have "fine_step fupdate start wstep finished n st ?st"
      by (rule fine_step.work [where w = w]) (use step.prems None ws in simp_all)
    moreover have "(fine_step fupdate start wstep finished n)\<^sup>*\<^sup>* ?st
        (?st\<lparr>fp_cache := c', fp_workers := (fp_workers ?st)(h \<mapsto> w')\<rparr>)"
      by (rule step.hyps(3) [OF d]) simp_all
    ultimately show ?thesis by (simp add: converse_rtranclp_into_rtranclp)
  qed
qed

lemma calls_step:
  assumes "good" and same: "same_results finished ok flat pst st" and "pipeline_step update connect n pst pst'"
  shows "\<exists>st'. (fine_step fupdate start wstep finished n)\<^sup>*\<^sup>* st st' \<and> same_results finished ok flat pst' st'"
  using assms(3)
proof (cases rule: pipeline_step.cases)
  case (stage1 h r s')
  with same have "update h (flat (fp_cache st)) = Ok (r, s')" "ok (fp_cache st)" and new: "fp_blocks st h = None"
    by (simp_all add: same_results_def)
  from update_run [OF assms(1) this(2) stage1(2) this(1)] obtain c where
    c: "fupdate h (fp_cache st) = Ok (r, c)" "ok c" "flat c = s'" by blast
  let ?st = "st\<lparr>fp_cache := c, fp_blocks := (fp_blocks st)(h \<mapsto> r)\<rparr>"
  have "fine_step fupdate start wstep finished n st ?st" by (rule fine_step.insert) (fact stage1(2) new c(1))+
  moreover have "same_results finished ok flat pst' ?st"
    using same c(2,3) by (simp add: same_results_def stage1(1) fine_done_def [abs_def])
  ultimately show ?thesis by blast
next
  case (stage2 h blk r s')
  from same have wf: "ok (fp_cache st)" and fl: "flat (fp_cache st) = pl_cache pst"
    and blocks: "fp_blocks st = pl_blocks pst" and don: "fine_done finished st = pl_done pst"
    and all: "\<And>h w. fp_workers st h = Some w \<Longrightarrow> finished w \<noteq> None" by (auto simp: same_results_def)
  have idle: "fp_workers st h = None"
    using all [of h] fun_cong [OF don, of h] stage2(4) by (cases "fp_workers st h") (auto simp: fine_done_def)
  let ?st1 = "st\<lparr>fp_workers := (fp_workers st)(h \<mapsto> start blk)\<rparr>"
  obtain w c where c: "ok c" "flat c = s'" "(worker_alone wstep)\<^sup>*\<^sup>* (start blk, fp_cache st) (w, c)" "finished w = Some r"
    using connect_run [OF wf, unfolded fl, OF stage2(5)] by blast
  let ?st = "?st1\<lparr>fp_cache := c, fp_workers := (fp_workers ?st1)(h \<mapsto> w)\<rparr>"
  have "fine_step fupdate start wstep finished n st ?st1"
    by (rule fine_step.start) (simp_all add: blocks stage2(2,3) idle)
  also have "(fine_step fupdate start wstep finished n)\<^sup>*\<^sup>* ?st1 ?st"
    by (rule alone_work [OF c(3)]) simp_all
  finally (converse_rtranclp_into_rtranclp) have run: "(fine_step fupdate start wstep finished n)\<^sup>*\<^sup>* st ?st" .
  have "fine_done finished ?st = (fine_done finished st)(h \<mapsto> r)" using c(4) by (simp add: fine_done_def fun_eq_iff)
  with c(1,2,4) blocks don all have "same_results finished ok flat pst' ?st" by (simp add: same_results_def stage2(1))
  with run show ?thesis by blast
qed

lemma calls_run:
  assumes "good" and "ok c" and "(pipeline_step update connect n)\<^sup>*\<^sup>* (pipeline_init (flat c)) pst"
  shows "\<exists>st. (fine_step fupdate start wstep finished n)\<^sup>*\<^sup>* (fine_init c) st \<and> same_results finished ok flat pst st"
  using assms(3)
proof (induction rule: rtranclp_induct)
  case base
  have "same_results finished ok flat (pipeline_init (flat c)) (fine_init c)"
    using assms(2) by (simp add: same_results_def pipeline_init_def fine_init_def fine_done_def fun_eq_iff)
  then show ?case by blast
next
  case (step y z)
  then obtain st where st: "(fine_step fupdate start wstep finished n)\<^sup>*\<^sup>* (fine_init c) st" "same_results finished ok flat y st" by blast
  from calls_step [OF assms(1) st(2) step.hyps(2)] st(1) show ?case by (meson rtranclp_trans)
qed

text \<open>When every height has been inserted and has returned, the threads have come to an end.\<close>

lemma calls_end:
  assumes "good" and "ok c" and "(pipeline_step update connect n)\<^sup>*\<^sup>* (pipeline_init (flat c)) pst"
    and "list_all (\<lambda>h. pl_blocks pst h \<noteq> None \<and> pl_done pst h \<noteq> None) [0..<n]" and "dom (pl_blocks pst) \<subseteq> {..<n}"
  shows "\<exists>st. (fine_step fupdate start wstep finished n)\<^sup>*\<^sup>* (fine_init c) st
    \<and> (\<nexists>st'. fine_step fupdate start wstep finished n st st')
    \<and> pipeline_output (pl_done pst) 0 n = pipeline_output (fine_done finished st) 0 n"
proof -
  obtain st where st: "(fine_step fupdate start wstep finished n)\<^sup>*\<^sup>* (fine_init c) st" "same_results finished ok flat pst st"
    using calls_run [OF assms(1-3)] by blast
  have all: "fp_blocks st h \<noteq> None" "fine_done finished st h \<noteq> None" if "h < n" for h
    using st(2) assms(4) that by (auto simp: same_results_def list_all_iff)
  have "\<not> fine_step fupdate start wstep finished n st st'" for st'
  proof
    assume "fine_step fupdate start wstep finished n st st'"
    then show False
    proof (cases rule: fine_step.cases)
      case (insert h r s')
      with all(1) [of h] show False by simp
    next
      case (start h blk)
      with st(2) assms(5) have "h < n" by (auto simp: same_results_def)
      with all(2) [of h] start(4) show False by (simp add: fine_done_def)
    next
      case (work h w w' s')
      moreover from st(2) have "\<forall>h w. fp_workers st h = Some w \<longrightarrow> finished w \<noteq> None" by (simp add: same_results_def)
      ultimately show False by blast
    qed
  qed
  with st show ?thesis by (intro exI [of _ st]) (simp add: same_results_def)
qed

end

section \<open>The cache in memory\<close>

lemma mem_new_unspent_ok:
  assumes "mem_new_unspent L T tx = Ok e" and "length (tx_output tx) < 2 ^ 32"
  shows "vec_map_ok (snd e)"
proof -
  from assms(1) obtain outs where outs: "mapM_result (\<lambda>out. result_map Some (ctx_out T out)) (tx_output tx) = Ok outs"
    and e: "e = (compute_txid L tx, vec_map_from_vec outs)"
    by (auto simp: mem_new_unspent_def bind_result_eq_Ok)
  from outs have l: "list_all2 (\<lambda>out slot. result_map Some (ctx_out T out) = Ok slot) (tx_output tx) outs"
    by (simp add: mapM_result_eq_Ok)
  have "slot \<noteq> None" if "slot \<in> set outs" for slot
  proof -
    from that obtain k where k: "k < length outs" "outs ! k = slot" by (auto simp: in_set_conv_nth)
    from list_all2_nthD2 [OF l k(1)] k(2) show ?thesis by (cases "ctx_out T (tx_output tx ! k)") auto
  qed
  then have "outs = map Some (map the outs)" by (simp add: map_idI)
  with vec_map_from_vec_ok(1) [of "map the outs"] assms(2) list_all2_lengthD [OF l] show ?thesis by (simp add: e)
qed

lemma lock_insert_block_flat:
  assumes "lock_ok s" and "\<forall>tx \<in> set (txdata blk). length (tx_output tx) < 2 ^ 32"
    and "mem_insert_block L T blk (lock_flat s) = Ok (r, m)"
  shows "\<exists>s'. lock_insert_block L T blk s = Ok (r, s') \<and> lock_ok s' \<and> lock_flat s' = m"
proof -
  from assms(3) obtain es where es: "mapM_result (mem_new_unspent L T) (txdata blk) = Ok es" "r = Some blk"
    "m = foldl (\<lambda>m (txid, v). m(txid \<mapsto> v)) (lock_flat s) es"
    by (auto simp: mem_insert_block_def bind_result_eq_Ok)
  have "vec_map_ok (snd e)" if "e \<in> set es" for e
  proof -
    from es(1) have l: "list_all2 (\<lambda>tx e. mem_new_unspent L T tx = Ok e) (txdata blk) es" by (simp add: mapM_result_eq_Ok)
    from that obtain k where k: "k < length es" "es ! k = e" by (auto simp: in_set_conv_nth)
    then have "txdata blk ! k \<in> set (txdata blk)" using list_all2_lengthD [OF l] by simp
    with mem_new_unspent_ok [OF list_all2_nthD2 [OF l k(1)]] assms(2) k(2) show ?thesis by simp
  qed
  from lock_insert_fold [OF assms(1) this] es show ?thesis by (simp add: lock_insert_block_def)
qed

text \<open>No block that can be read has a transaction with more outputs than a \<open>VecMap\<close> can count.\<close>

definition outputs_counted :: "filesystem \<Rightarrow> bitcoin_lib \<Rightarrow> bitcoin_db \<Rightarrow> nat \<Rightarrow> bool" where
  "outputs_counted fs L db n \<longleftrightarrow> (\<forall>h < n. case get_block fs L Ok db h of
     Ok blk \<Rightarrow> (\<forall>tx \<in> set (txdata blk). length (tx_output tx) < 2 ^ 32) | _ \<Rightarrow> True)"

lemma lock_update_flat:
  assumes "lock_ok s" and "outputs_counted fs L db n" and "h < n"
    and "mem_update_unspent_cache fs L T db h (lock_flat s) = Ok (r, m)"
  shows "\<exists>s'. lock_update_unspent_cache fs L T db h s = Ok (r, s') \<and> lock_ok s' \<and> lock_flat s' = m"
proof (cases "get_block fs L Ok db h")
  case (Ok blk)
  with assms lock_insert_block_flat [OF assms(1), of blk L T r m] show ?thesis
    by (auto simp: mem_update_unspent_cache_def lock_update_unspent_cache_def outputs_counted_def)
qed (use assms in \<open>auto simp: mem_update_unspent_cache_def lock_update_unspent_cache_def\<close>)

lemma lock_alone_worker: "lock_alone L T B = worker_alone (lock_wstep L T B)"
  by (simp add: fun_eq_iff lock_alone_def worker_alone_def)

interpretation mem_calls: call_runs "outputs_counted fs L db n" "mem_update_unspent_cache fs L T db" "mem_connect_outpoints L T B"
  "lock_update_unspent_cache fs L T db" "lock_start L B" "lock_wstep L T B" lock_finished n lock_ok lock_flat for fs L T B db n
proof (unfold_locales, goal_cases)
  case (1 c h r s')
  from lock_update_flat [OF 1(2,1,3,4)] show ?case .
next
  case (2 c blk b s')
  from lock_alone_connect [OF this] show ?case unfolding lock_alone_worker by force
next
  case (3 w b c w' c')
  then show ?case by (cases w) simp_all
qed

section \<open>The cache on disk\<close>

lemma disk_alone_delete:
  assumes "disk_delete_keys D keys d = (True, d')"
  shows "(worker_alone (disk_wstep D L T B))\<^sup>*\<^sup>* (Disk_Delete blk tx_outs keys, d) (Disk_Delete blk tx_outs [], d')"
  using assms
proof (induction keys arbitrary: d)
  case (Cons key keys)
  from Cons.prems obtain d1 where d1: "rdb_delete D key d = (Inr (), d1)" "disk_delete_keys D keys d1 = (True, d')"
    by (auto split: prod.splits sum.splits)
  then have "worker_alone (disk_wstep D L T B) (Disk_Delete blk tx_outs (key # keys), d) (Disk_Delete blk tx_outs keys, d1)"
    by (simp add: worker_alone_def)
  from converse_rtranclp_into_rtranclp [OF this Cons.IH [OF d1(2)]] show ?case .
qed simp

lemma disk_alone_delete_fails:
  assumes "disk_delete_keys D keys d = (False, d')"
  shows "(worker_alone (disk_wstep D L T B))\<^sup>*\<^sup>* (Disk_Delete blk tx_outs keys, d) (Disk_Returned None, d')"
  using assms
proof (induction keys arbitrary: d)
  case (Cons key keys)
  obtain r d1 where d1: "rdb_delete D key d = (r, d1)" by (cases "rdb_delete D key d")
  show ?case
  proof (cases r)
    case (Inl e)
    with d1 Cons.prems show ?thesis by (intro r_into_rtranclp) (simp add: worker_alone_def)
  next
    case (Inr u)
    with d1 have "worker_alone (disk_wstep D L T B) (Disk_Delete blk tx_outs (key # keys), d) (Disk_Delete blk tx_outs keys, d1)"
      by (simp add: worker_alone_def)
    moreover from Inr d1 Cons.prems have "disk_delete_keys D keys d1 = (False, d')" by simp
    from Cons.IH [OF this] have "(worker_alone (disk_wstep D L T B))\<^sup>*\<^sup>* (Disk_Delete blk tx_outs keys, d1) (Disk_Returned None, d')" .
    ultimately show ?thesis by (rule converse_rtranclp_into_rtranclp)
  qed
qed simp

lemma disk_alone_connect:
  assumes "disk_connect_outpoints D L T B blk d = Ok (r, d')"
  shows "(worker_alone (disk_wstep D L T B))\<^sup>*\<^sup>* (Disk_Start blk, d) (Disk_Returned r, d')"
proof -
  let ?keys = "disk_keys L (txdata blk)"
  let ?w = "Disk_Delete blk (rdb_multi_get D ?keys d) ?keys"
  have read: "worker_alone (disk_wstep D L T B) (Disk_Start blk, d) (?w, d)" by (simp add: worker_alone_def Let_def)
  obtain ok d1 where del: "disk_delete_keys D ?keys d = (ok, d1)" by (cases "disk_delete_keys D ?keys d")
  have "(worker_alone (disk_wstep D L T B))\<^sup>*\<^sup>* (?w, d) (Disk_Returned r, d')"
  proof (cases ok)
    case True
    with assms del have "worker_alone (disk_wstep D L T B) (Disk_Delete blk (rdb_multi_get D ?keys d) [], d1) (Disk_Returned r, d')"
      by (auto simp: disk_connect_outpoints_def worker_alone_def Let_def bind_result_eq_Ok)
    moreover from True del have "disk_delete_keys D ?keys d = (True, d1)" by simp
    note disk_alone_delete [OF this]
    ultimately show ?thesis by (rule rtranclp.rtrancl_into_rtrancl [rotated])
  next
    case False
    with assms del have "r = None" "disk_delete_keys D ?keys d = (False, d')" by (simp_all add: disk_connect_outpoints_def Let_def)
    with disk_alone_delete_fails [OF this(2)] show ?thesis by simp
  qed
  with read show ?thesis by (rule converse_rtranclp_into_rtranclp)
qed

interpretation disk_calls: call_runs True "disk_update_unspent_cache D fs L db" "disk_connect_outpoints D L T B"
  "disk_update_unspent_cache D fs L db" Disk_Start "disk_wstep D L T B" disk_finished n "\<lambda>_. True" "\<lambda>d. d" for D fs L T B db n
proof (unfold_locales, goal_cases)
  case (2 c blk b s')
  from disk_alone_connect [OF this(2)] show ?case by force
next
  case (3 w b c w' c')
  then show ?case by (cases w) simp_all
qed simp

section \<open>Prescribed schedules\<close>

text \<open>The calls \<open>Inl h\<close> of the first stage and \<open>Inr h\<close> of the second, in the order given.\<close>

fun run_calls ::
  "(nat \<Rightarrow> 's \<Rightarrow> (block option \<times> 's) result) \<Rightarrow> (block \<Rightarrow> 's \<Rightarrow> ('blk option \<times> 's) result) \<Rightarrow> nat \<Rightarrow> (nat + nat) list
     \<Rightarrow> ('s, 'blk) pipeline \<Rightarrow> ('s, 'blk) pipeline option" where
  "run_calls update connect n [] st = Some st"
| "run_calls update connect n (Inl h # calls) st =
     (if h < n \<and> pl_blocks st h = None then
        (case update h (pl_cache st) of
           Ok (r, s') \<Rightarrow> run_calls update connect n calls (st\<lparr>pl_cache := s', pl_blocks := (pl_blocks st)(h \<mapsto> r)\<rparr>)
         | _ \<Rightarrow> None)
      else None)"
| "run_calls update connect n (Inr h # calls) st =
     (case pl_blocks st h of
        Some (Some blk) \<Rightarrow>
          (if list_all (\<lambda>k. pl_blocks st k \<notin> {None, Some None}) [0..<h] \<and> pl_done st h = None then
             (case connect blk (pl_cache st) of
                Ok (r, s') \<Rightarrow> run_calls update connect n calls (st\<lparr>pl_cache := s', pl_done := (pl_done st)(h \<mapsto> r)\<rparr>)
              | _ \<Rightarrow> None)
           else None)
      | _ \<Rightarrow> None)"

lemma run_calls_steps:
  "run_calls update connect n calls st = Some st' \<Longrightarrow> (pipeline_step update connect n)\<^sup>*\<^sup>* st st'"
proof (induction update connect n calls st rule: run_calls.induct)
  case (2 update connect n h calls st)
  from "2.prems" obtain r s' where h: "h < n" "pl_blocks st h = None" and u: "update h (pl_cache st) = Ok (r, s')"
    and rest: "run_calls update connect n calls (st\<lparr>pl_cache := s', pl_blocks := (pl_blocks st)(h \<mapsto> r)\<rparr>) = Some st'"
    by (auto split: if_splits result.splits)
  have "pipeline_step update connect n st (st\<lparr>pl_cache := s', pl_blocks := (pl_blocks st)(h \<mapsto> r)\<rparr>)"
    by (rule pipeline_step.stage1) (fact h u)+
  from converse_rtranclp_into_rtranclp [of "pipeline_step update connect n", OF this "2.IH" [OF conjI [OF h] u refl rest]]
  show ?case .
next
  case (3 update connect n h calls st)
  from "3.prems" obtain blk r s' where b: "pl_blocks st h = Some (Some blk)"
    and k: "list_all (\<lambda>k. pl_blocks st k \<notin> {None, Some None}) [0..<h] \<and> pl_done st h = None"
    and c: "connect blk (pl_cache st) = Ok (r, s')"
    and rest: "run_calls update connect n calls (st\<lparr>pl_cache := s', pl_done := (pl_done st)(h \<mapsto> r)\<rparr>) = Some st'"
    by (auto split: if_splits result.splits option.splits)
  have "\<exists>b. pl_blocks st j = Some (Some b)" if "j < h" for j
  proof -
    from k that have "pl_blocks st j \<notin> {None, Some None}" by (auto simp: list_all_iff)
    then show ?thesis by (cases "pl_blocks st j") auto
  qed
  then have below: "\<forall>k < h. \<exists>b. pl_blocks st k = Some (Some b)" and new: "pl_done st h = None" using k by auto
  have "pipeline_step update connect n st (st\<lparr>pl_cache := s', pl_done := (pl_done st)(h \<mapsto> r)\<rparr>)"
    by (rule pipeline_step.stage2 [where blk = blk]) (fact b below new c)+
  from converse_rtranclp_into_rtranclp [of "pipeline_step update connect n", OF this "3.IH" [OF b refl k c refl rest]]
  show ?case .
qed simp

text \<open>What the iterator can yield when the calls are made in an order.\<close>

lemma mem_calls_yield:
  assumes "outputs_counted fs L db n"
    and "run_calls (mem_update_unspent_cache fs L T db) (mem_connect_outpoints L T B) n calls (pipeline_init Map.empty) = Some pst"
    and "list_all (\<lambda>h. pl_blocks pst h \<noteq> None \<and> pl_done pst h \<noteq> None) [0..<n]" and "dom (pl_blocks pst) \<subseteq> {..<n}"
  shows "mem_connected_block_iter fs L T B db n (pipeline_output (pl_done pst) 0 n)"
  using mem_calls.calls_end [OF assms(1) lock_ok_new run_calls_steps, of T B calls, unfolded lock_flat_new, OF assms(2-4)]
  by (simp add: mem_connected_block_iter_def Let_def lock_iter_new_def)

lemma disk_calls_yield:
  assumes "disk_iter_db db_open num_cpus tempdir = Some d"
    and "run_calls (disk_update_unspent_cache D fs L db) (disk_connect_outpoints D L T B) n calls (pipeline_init d) = Some pst"
    and "list_all (\<lambda>h. pl_blocks pst h \<noteq> None \<and> pl_done pst h \<noteq> None) [0..<n]" and "dom (pl_blocks pst) \<subseteq> {..<n}"
  shows "disk_connected_block_iter D db_open num_cpus tempdir fs L T B db n (pipeline_output (pl_done pst) 0 n)"
  using disk_calls.calls_end [OF TrueI TrueI run_calls_steps [OF assms(2)] assms(3,4)]
  by (simp add: disk_connected_block_iter_def Let_def assms(1))

end
