(* ===== verification/Schedules.thy ===== *)
theory Schedules
  imports Calls
begin

text \<open>
  What \<open>sound_chain\<close> is needed for: on a chain that creates a transaction again after its outputs were
  spent, what the iterator yields depends on the schedule, with either backend.
\<close>

section \<open>A transaction created again\<close>

text \<open>
  Blocks 0 and 2 have the same transaction, and blocks 1 and 3 spend its output: block 1 before, block 3
  after it has been created again. Connected one after the other, all four blocks are fine.
\<close>

definition recreating_bytes :: "byte list" where
  "recreating_bytes = [5, 6, 4, 8]"

lemma recreating_get_block:
  "h < 4 \<Longrightarrow> get_block (toy_fs recreating_bytes) toy_lib Ok (toy_handle 4) h = Ok (toy_block (recreating_bytes ! h))"
proof -
  have len: "length recreating_bytes = 4" by (simp add: recreating_bytes_def)
  show "h < 4 \<Longrightarrow> ?thesis" using toy_get_block [of recreating_bytes h] by (simp add: len)
qed

lemma recreating_counted: "outputs_counted (toy_fs recreating_bytes) toy_lib (toy_handle 4) 4"
  by (simp add: outputs_counted_def recreating_get_block toy_block_def toy_tx_def)

definition toy_entry :: "byte \<Rightarrow> byte list full_txout vec_map" where
  "toy_entry b = vec_map_from_vec (map Some (map (full_txout_of sample_script_lib) (tx_output (toy_tx b))))"

lemma recreating_insert:
  fixes s
  defines "update \<equiv> mem_update_unspent_cache (toy_fs recreating_bytes) toy_lib (full_tx_impl toy_lib sample_script_lib) (toy_handle 4)"
  shows "update 0 s = Ok (Some (toy_block 5), s(sample_hash 5 \<mapsto> toy_entry 5))"
    and "update (Suc 0) s = Ok (Some (toy_block 6), s(sample_hash 6 \<mapsto> toy_entry 6))"
    and "update 2 s = Ok (Some (toy_block 4), s(sample_hash 5 \<mapsto> toy_entry 5))"
    and "update 3 s = Ok (Some (toy_block 8), s(sample_hash 8 \<mapsto> toy_entry 8))"
proof -
  have gen: "update h s = Ok (Some (toy_block (recreating_bytes ! h)),
      s(compute_txid toy_lib (toy_tx (recreating_bytes ! h)) \<mapsto> toy_entry (recreating_bytes ! h)))" if "h < 4" for h
    using full_blk.lock_new_entries [OF sample_p2pk_doc, of toy_lib "txdata (toy_block (recreating_bytes ! h))"]
    by (simp add: update_def mem_update_unspent_cache_def recreating_get_block [OF that] mem_insert_block_def toy_entry_def)
       (simp add: toy_block_def)
  have same: "toy_entry 4 = toy_entry 5" by (simp add: toy_entry_def toy_tx_def)
  show "update 0 s = Ok (Some (toy_block 5), s(sample_hash 5 \<mapsto> toy_entry 5))"
    and "update (Suc 0) s = Ok (Some (toy_block 6), s(sample_hash 6 \<mapsto> toy_entry 6))"
    and "update 2 s = Ok (Some (toy_block 4), s(sample_hash 5 \<mapsto> toy_entry 5))"
    and "update 3 s = Ok (Some (toy_block 8), s(sample_hash 8 \<mapsto> toy_entry 8))"
    using gen [of 0] gen [of "Suc 0"] gen [of 2] gen [of 3] by (simp_all add: recreating_bytes_def toy_tx_def same)
qed

lemma toy_spend:
  "s (sample_hash 5) = Some (toy_entry 5) \<Longrightarrow>
     \<exists>out. mem_spend \<lparr>op_txid = sample_hash 5, op_vout = 0\<rparr> s = (Some out, s(sample_hash 5 := None))"
  by (simp add: mem_spend_def toy_entry_def toy_tx_def sample_tx_def vec_map_from_vec_def vec_map_remove_def vec_map_is_empty_def)

text \<open>What connecting does: blocks without inputs leave the cache, the others take the output if it is there.\<close>

lemma toy_connect:
  fixes b
  defines "F \<equiv> full_tx_impl toy_lib sample_script_lib"
  shows "b \<in> {4, 5} \<Longrightarrow> \<exists>c. mem_connect_outpoints toy_lib F full_block_impl (toy_block b) s = Ok (Some c, s)"
    and "b \<in> {6, 8} \<Longrightarrow> s (sample_hash 5) = Some (toy_entry 5) \<Longrightarrow>
      \<exists>c. mem_connect_outpoints toy_lib F full_block_impl (toy_block b) s = Ok (Some c, s(sample_hash 5 := None))"
    and "b \<in> {6, 8} \<Longrightarrow> s (sample_hash 5) = None \<Longrightarrow> mem_connect_outpoints toy_lib F full_block_impl (toy_block b) s = Ok (None, s)"
proof -
  have "ctx_from F tx = Ok (full_connected_of toy_lib sample_script_lib tx [])" for tx
    unfolding F_def by (rule full_tx.from_ok [OF sample_p2pk_doc])
  note simps = mem_connect_outpoints_def toy_block_def this
  show "b \<in> {4, 5} \<Longrightarrow> \<exists>c. mem_connect_outpoints toy_lib F full_block_impl (toy_block b) s = Ok (Some c, s)"
    by (auto simp: simps toy_tx_def)
  show "b \<in> {6, 8} \<Longrightarrow> s (sample_hash 5) = None \<Longrightarrow> mem_connect_outpoints toy_lib F full_block_impl (toy_block b) s = Ok (None, s)"
    by (auto simp: simps toy_tx_def mem_spend_def)
  assume "s (sample_hash 5) = Some (toy_entry 5)"
  then obtain out where "mem_spend \<lparr>op_txid = sample_hash 5, op_vout = 0\<rparr> s = (Some out, s(sample_hash 5 := None))"
    using toy_spend by blast
  then show "b \<in> {6, 8} \<Longrightarrow> \<exists>c. mem_connect_outpoints toy_lib F full_block_impl (toy_block b) s = Ok (Some c, s(sample_hash 5 := None))"
    by (auto simp: simps toy_tx_def)
qed

lemmas run_simps = pipeline_init_def upt_rec pipeline_output.simps

text \<open>
  The two schedules: connecting each block as it is inserted, and inserting all blocks first. Both backends do with these
  four blocks what the locale asks: \<open>present\<close> and \<open>absent\<close> say whether the output of the transaction is in the cache.
\<close>

locale recreating =
  fixes update :: "nat \<Rightarrow> 's \<Rightarrow> (block option \<times> 's) result"
    and connect :: "block \<Rightarrow> 's \<Rightarrow> ('blk option \<times> 's) result"
    and present absent :: "'s \<Rightarrow> bool"
  assumes creates: "\<exists>s'. update 0 s = Ok (Some (toy_block 5), s') \<and> present s'"
      "\<exists>s'. update 2 s = Ok (Some (toy_block 4), s') \<and> present s'"
    and keeps: "present s \<Longrightarrow> \<exists>s'. update (Suc 0) s = Ok (Some (toy_block 6), s') \<and> present s'"
      "present s \<Longrightarrow> \<exists>s'. update 3 s = Ok (Some (toy_block 8), s') \<and> present s'"
    and no_inputs: "b \<in> {4, 5} \<Longrightarrow> \<exists>c. connect (toy_block b) s = Ok (Some c, s)"
    and spends: "b \<in> {6, 8} \<Longrightarrow> present s \<Longrightarrow> \<exists>c s'. connect (toy_block b) s = Ok (Some c, s') \<and> absent s'"
    and misses: "b \<in> {6, 8} \<Longrightarrow> absent s \<Longrightarrow> \<exists>s'. connect (toy_block b) s = Ok (None, s')"
begin

lemma in_order:
  "\<exists>st. run_calls update connect 4 [Inl 0, Inr 0, Inl 1, Inr 1, Inl 2, Inr 2, Inl 3, Inr 3] (pipeline_init s) = Some st
    \<and> list_all (\<lambda>h. pl_blocks st h \<noteq> None \<and> pl_done st h \<noteq> None) [0..<4] \<and> dom (pl_blocks st) \<subseteq> {..<4}
    \<and> length (pipeline_output (pl_done st) 0 4) = 4"
proof -
  obtain a where a: "update 0 s = Ok (Some (toy_block 5), a)" "present a" using creates(1) by blast
  obtain c0 where c0: "connect (toy_block 5) a = Ok (Some c0, a)" using no_inputs [of 5 a] by auto
  obtain b where b: "update (Suc 0) a = Ok (Some (toy_block 6), b)" "present b" using keeps(1) [OF a(2)] by blast
  obtain c1 c where c1: "connect (toy_block 6) b = Ok (Some c1, c)" using spends [of 6 b] b(2) by auto
  obtain d where d: "update 2 c = Ok (Some (toy_block 4), d)" "present d" using creates(2) by blast
  obtain c2 where c2: "connect (toy_block 4) d = Ok (Some c2, d)" using no_inputs [of 4 d] by auto
  obtain e where e: "update 3 d = Ok (Some (toy_block 8), e)" "present e" using keeps(2) [OF d(2)] by blast
  obtain c3 f where c3: "connect (toy_block 8) e = Ok (Some c3, f)" using spends [of 8 e] e(2) by auto
  show ?thesis by (simp add: run_simps a b c0 c1 c2 c3 d e)
qed

lemma ahead:
  "\<exists>st. run_calls update connect 4 [Inl 0, Inl 1, Inl 2, Inl 3, Inr 0, Inr 1, Inr 2, Inr 3] (pipeline_init s) = Some st
    \<and> list_all (\<lambda>h. pl_blocks st h \<noteq> None \<and> pl_done st h \<noteq> None) [0..<4] \<and> dom (pl_blocks st) \<subseteq> {..<4}
    \<and> length (pipeline_output (pl_done st) 0 4) = 3"
proof -
  obtain a where a: "update 0 s = Ok (Some (toy_block 5), a)" "present a" using creates(1) by blast
  obtain b where b: "update (Suc 0) a = Ok (Some (toy_block 6), b)" using keeps(1) [OF a(2)] by blast
  obtain c where c: "update 2 b = Ok (Some (toy_block 4), c)" "present c" using creates(2) by blast
  obtain d where d: "update 3 c = Ok (Some (toy_block 8), d)" "present d" using keeps(2) [OF c(2)] by blast
  obtain c0 where c0: "connect (toy_block 5) d = Ok (Some c0, d)" using no_inputs [of 5 d] by auto
  obtain c1 e where c1: "connect (toy_block 6) d = Ok (Some c1, e)" "absent e" using spends [of 6 d] d(2) by auto
  obtain c2 where c2: "connect (toy_block 4) e = Ok (Some c2, e)" using no_inputs [of 4 e] by auto
  obtain f where c3: "connect (toy_block 8) e = Ok (None, f)" using misses [of 8 e] c1(2) by auto
  show ?thesis by (simp add: run_simps a b c d c0 c1 c2 c3)
qed

end

text \<open>In memory.\<close>

interpretation recreating_mem: recreating
  "mem_update_unspent_cache (toy_fs recreating_bytes) toy_lib (full_tx_impl toy_lib sample_script_lib) (toy_handle 4)"
  "mem_connect_outpoints toy_lib (full_tx_impl toy_lib sample_script_lib) full_block_impl"
  "\<lambda>s. s (sample_hash 5) = Some (toy_entry 5)" "\<lambda>s. s (sample_hash 5) = None"
proof (unfold_locales, goal_cases)
  case (6 b s)
  from toy_connect(2) [of b s, OF this] show ?case by force
qed (use toy_connect(1,3) in \<open>simp_all add: recreating_insert\<close>)

text \<open>On disk.\<close>

definition toy_key :: "u32 \<Rightarrow> byte list" where
  "toy_key w = outpoint_key \<lparr>op_txid = sample_hash w, op_vout = 0\<rparr>"

lemma toy_key_inject [simp]: "toy_key v = toy_key w \<longleftrightarrow> v = w"
  by (simp add: toy_key_def)

lemma toy_disk_insert:
  "h < 4 \<Longrightarrow> disk_update_unspent_cache sample_rocks (toy_fs recreating_bytes) toy_lib (toy_handle 4) h d
     = Ok (Some (toy_block (recreating_bytes ! h)), d(toy_key (tx_lock_time (toy_tx (recreating_bytes ! h)))
         \<mapsto> encode_txout sample_lib (hd (tx_output (toy_tx (recreating_bytes ! h))))))"
  by (simp add: disk_update_unspent_cache_def recreating_get_block disk_insert_block_def sample_rocks_def disk_batch_def toy_block_def
      toy_tx_def Let_def toy_key_def outpoint_key_def)

lemma toy_disk_connect:
  fixes b
  defines "connect \<equiv> disk_connect_outpoints sample_rocks toy_lib (full_tx_impl toy_lib sample_script_lib) full_block_impl (toy_block b)"
  shows "b \<in> {4, 5} \<Longrightarrow> \<exists>c. connect d = Ok (Some c, d)"
    and "b \<in> {6, 8} \<Longrightarrow> d (toy_key 5) = Some (encode_txout sample_lib (hd (tx_output (toy_tx 5)))) \<Longrightarrow>
      \<exists>c. connect d = Ok (Some c, d(toy_key 5 := None))"
    and "b \<in> {6, 8} \<Longrightarrow> d (toy_key 5) = None \<Longrightarrow> connect d = Ok (None, d(toy_key 5 := None))"
proof -
  have new: "ctx_from (full_tx_impl toy_lib sample_script_lib) tx = Ok (full_connected_of toy_lib sample_script_lib tx [])" for tx
    by (rule full_tx.from_ok [OF sample_p2pk_doc])
  have out: "ctx_out (full_tx_impl toy_lib sample_script_lib) o1 = Ok (full_txout_of sample_script_lib o1)" for o1
    by (rule full_tx.out_ok [OF sample_p2pk_doc])
  have key: "txout_key (sample_hash 5) 0 = toy_key 5" by (simp add: toy_key_def outpoint_key_def)
  note simps = connect_def disk_connect_outpoints_def toy_block_def disk_keys_eq tx_spends_def sample_rocks_def Let_def new out
  show "b \<in> {4, 5} \<Longrightarrow> \<exists>c. connect d = Ok (Some c, d)"
    by (auto simp: simps toy_tx_def)
  have spend: "outpoint_key \<lparr>op_txid = sample_hash 5, op_vout = 0\<rparr> = toy_key 5" by (simp add: toy_key_def)
  show "b \<in> {6, 8} \<Longrightarrow> d (toy_key 5) = Some (encode_txout sample_lib (hd (tx_output (toy_tx 5)))) \<Longrightarrow>
      \<exists>c. connect d = Ok (Some c, d(toy_key 5 := None))"
    using sample_txout_codec by (auto simp: simps toy_tx_def spend)
  show "b \<in> {6, 8} \<Longrightarrow> d (toy_key 5) = None \<Longrightarrow> connect d = Ok (None, d(toy_key 5 := None))"
    by (auto simp: simps toy_tx_def spend)
qed

interpretation recreating_disk: recreating
  "disk_update_unspent_cache sample_rocks (toy_fs recreating_bytes) toy_lib (toy_handle 4)"
  "disk_connect_outpoints sample_rocks toy_lib (full_tx_impl toy_lib sample_script_lib) full_block_impl"
  "\<lambda>d. d (toy_key 5) = Some (encode_txout sample_lib (hd (tx_output (toy_tx 5))))" "\<lambda>d. d (toy_key 5) = None"
proof (unfold_locales, goal_cases)
  case (1 s)
  show ?case using toy_disk_insert [of 0 s] by (simp add: recreating_bytes_def toy_tx_def)
next
  case (2 s)
  show ?case using toy_disk_insert [of 2 s] by (simp add: recreating_bytes_def toy_tx_def)
next
  case (3 s)
  then show ?case using toy_disk_insert [of "Suc 0" s] by (simp add: recreating_bytes_def toy_tx_def)
next
  case (4 s)
  then show ?case using toy_disk_insert [of 3 s] by (simp add: recreating_bytes_def toy_tx_def)
next
  case (6 b s)
  from toy_disk_connect(2) [of b s, OF this] show ?case by force
qed (use toy_disk_connect(1,3) in auto)

text \<open>
  C11. What the iterator yields depends on the schedule when a transaction is created again after its output
  was spent, as the consensus rules of Bitcoin allowed for long (BIP30): if the first stage has inserted
  block 2 before block 1 is connected, block 1 takes the output that was meant for block 3, and the
  iterator stops after three blocks; if the blocks are connected as they are inserted, it yields all
  four, in memory as on disk. So a transaction must not be spent from before its last copy (\<open>sound_chain\<close>).
\<close>

theorem recreated_transaction_races:
  "(\<exists>xs ys. mem_connected_block_iter (toy_fs recreating_bytes) toy_lib (full_tx_impl toy_lib sample_script_lib) full_block_impl
      (toy_handle 4) 4 xs
    \<and> mem_connected_block_iter (toy_fs recreating_bytes) toy_lib (full_tx_impl toy_lib sample_script_lib) full_block_impl
      (toy_handle 4) 4 ys
    \<and> length xs = 4 \<and> length ys = 3)
  \<and> (\<exists>xs ys. disk_connected_block_iter sample_rocks sample_db_open 8 (Inr [''tmp'']) (toy_fs recreating_bytes) toy_lib
      (full_tx_impl toy_lib sample_script_lib) full_block_impl (toy_handle 4) 4 xs
    \<and> disk_connected_block_iter sample_rocks sample_db_open 8 (Inr [''tmp'']) (toy_fs recreating_bytes) toy_lib
      (full_tx_impl toy_lib sample_script_lib) full_block_impl (toy_handle 4) 4 ys
    \<and> length xs = 4 \<and> length ys = 3)"
proof (intro conjI)
  note mem = mem_calls_yield [OF recreating_counted] and disk = disk_calls_yield [OF sample_iter_db]
  from recreating_mem.in_order [of Map.empty] recreating_mem.ahead [of Map.empty]
  show "\<exists>xs ys. mem_connected_block_iter (toy_fs recreating_bytes) toy_lib (full_tx_impl toy_lib sample_script_lib) full_block_impl
      (toy_handle 4) 4 xs
    \<and> mem_connected_block_iter (toy_fs recreating_bytes) toy_lib (full_tx_impl toy_lib sample_script_lib) full_block_impl
      (toy_handle 4) 4 ys
    \<and> length xs = 4 \<and> length ys = 3"
    by (elim exE conjE) (intro exI conjI; (rule mem, assumption+)?; assumption?)
  from recreating_disk.in_order [of Map.empty] recreating_disk.ahead [of Map.empty]
  show "\<exists>xs ys. disk_connected_block_iter sample_rocks sample_db_open 8 (Inr [''tmp'']) (toy_fs recreating_bytes) toy_lib
      (full_tx_impl toy_lib sample_script_lib) full_block_impl (toy_handle 4) 4 xs
    \<and> disk_connected_block_iter sample_rocks sample_db_open 8 (Inr [''tmp'']) (toy_fs recreating_bytes) toy_lib
      (full_tx_impl toy_lib sample_script_lib) full_block_impl (toy_handle 4) 4 ys
    \<and> length xs = 4 \<and> length ys = 3"
    by (elim exE conjE) (intro exI conjI; (rule disk, assumption+)?; assumption?)
qed

end
