(* ===== verification/Final_Cache.thy ===== *)
theory Final_Cache
  imports Schedules
begin

text \<open>
  What is left in the cache of \<open>iter/connected_block_iter.rs\<close> when the threads have come to an end: on a
  valid chain exactly its unspent outputs, for both backends, and in memory no entry for a transaction
  without any.
\<close>

section \<open>What is left in the cache\<close>

text \<open>A worker that has not failed has removed from the cache what it has no longer pending.\<close>

definition fine_removed ::
  "bitcoin_lib \<Rightarrow> ('s \<Rightarrow> outpoint \<rightharpoonup> 'out) \<Rightarrow> ('w \<Rightarrow> 'blk option option) \<Rightarrow> ('w \<Rightarrow> outpoint list) \<Rightarrow> block list
     \<Rightarrow> ('s, 'w) fine_pipeline \<Rightarrow> bool" where
  "fine_removed L view finished pending blks st \<longleftrightarrow>
     (\<forall>h w. fp_workers st h = Some w \<longrightarrow> finished w \<noteq> Some None \<longrightarrow>
        (\<forall>p \<in> set (block_spends L (blks ! h)). p \<notin> set (pending w) \<longrightarrow> view (fp_cache st) p = None))"

lemma fine_removedI:
  assumes "\<And>h w p. fp_workers st h = Some w \<Longrightarrow> finished w \<noteq> Some None \<Longrightarrow> p \<in> set (block_spends L (blks ! h)) \<Longrightarrow>
    p \<notin> set (pending w) \<Longrightarrow> view (fp_cache st) p = None"
  shows "fine_removed L view finished pending blks st"
  using assms unfolding fine_removed_def by blast

lemma fine_removedD:
  "fine_removed L view finished pending blks st \<Longrightarrow> fp_workers st h = Some w \<Longrightarrow> finished w \<noteq> Some None \<Longrightarrow>
     p \<in> set (block_spends L (blks ! h)) \<Longrightarrow> p \<notin> set (pending w) \<Longrightarrow> view (fp_cache st) p = None"
  unfolding fine_removed_def by blast

lemma map_le_None: "m \<subseteq>\<^sub>m m' \<Longrightarrow> m' p = None \<Longrightarrow> m p = None"
  using map_leD [of m m' p] by (cases "m p") auto

context fine_cache
begin

lemma fine_removed_insert:
  assumes "good" and "sound_chain L blks" and reads: "reads_some insert_block blks R n update"
    and inv: "fine_inv L ok view pending wok blks R n (chain_view L conv blks) st"
    and "h \<notin> dom (fp_blocks st)" and "h < n" and "update h (fp_cache st) = Ok (r, s')"
    and worker: "fp_workers st j = Some w" and p: "p \<in> set (block_spends L (blks ! j))"
    and none: "view (fp_cache st) p = None"
  shows "view s' p = None"
proof (cases "h \<in> R")
  case False
  with reads assms(6,7) none show ?thesis by (simp add: reads_some_def)
next
  case True
  from reads have R: "R \<subseteq> {..<length blks}" by (simp add: reads_some_def)
  with True have h: "h < length blks" and new: "h \<notin> R \<inter> dom (fp_blocks st)" using assms(5) by auto
  note blocks = sound_chain_blocks [OF assms(2)] and le = fine_invD(6) [OF inv]
  from True reads assms(6,7) have "insert_block (blks ! h) (fp_cache st) = Ok (r, s')" by (simp add: reads_some_def)
  with insert_ok [OF assms(1) fine_invD(1) [OF inv] chain_insertable [OF blocks h le]]
  have "view s' = view (fp_cache st) ++ (\<lambda>p. map_option conv (map_of (block_outputs L (blks ! h)) p))" by auto
  note view' = chain_insert_view(2) [OF blocks h le this, of p]
  from fine_inv_spends_inserted [OF inv assms(2) R h new worker] p block_outputs_txids [of p L "blks ! h"]
  have "p \<notin> fst ` set (block_outputs L (blks ! h))" by blast
  with none view' show ?thesis by simp
qed

lemma fine_removed_work:
  assumes "good" and "sound_chain L blks" and R: "R \<subseteq> {..<length blks}"
    and inv: "fine_inv L ok view pending wok blks R n (chain_view L conv blks) st"
    and removed: "fine_removed L view finished pending blks st"
    and worker: "fp_workers st h = Some w" and "finished w = None" and "wstep w (fp_cache st) = Ok (w', s')"
  shows "view s' \<subseteq>\<^sub>m view (fp_cache st)"
    and "finished w' \<noteq> Some None \<Longrightarrow> p \<in> set (block_spends L (blks ! h)) \<Longrightarrow> p \<notin> set (pending w') \<Longrightarrow> view s' p = None"
proof -
  from step_ok [OF assms(1) fine_invD(1) [OF inv] fine_invD(4) [OF inv worker] assms(7)
      fine_inv_available [OF inv assms(2) R worker]] assms(8)
  obtain gone where gone: "pending w = gone @ pending w'" "view s' \<subseteq>\<^sub>m view (fp_cache st)"
    "finished w' \<noteq> Some None \<longrightarrow> (\<forall>p \<in> set gone. view s' p = None)" by auto
  then show "view s' \<subseteq>\<^sub>m view (fp_cache st)" by blast
  assume *: "finished w' \<noteq> Some None" "p \<in> set (block_spends L (blks ! h))" "p \<notin> set (pending w')"
  show "view s' p = None"
  proof (cases "p \<in> set gone")
    case False
    with gone(1) *(3) have "p \<notin> set (pending w)" by simp
    with fine_removedD [OF removed worker _ *(2)] assms(7) have "view (fp_cache st) p = None" by simp
    with map_le_None [OF gone(2)] show ?thesis by simp
  qed (use gone(3) *(1) in blast)
qed

lemma fine_removed_step:
  assumes "good" and "sound_chain L blks" and reads: "reads_some insert_block blks R n update"
    and inv: "fine_inv L ok view pending wok blks R n (chain_view L conv blks) st"
    and removed: "fine_removed L view finished pending blks st"
    and "fine_step update start wstep finished n st st'"
  shows "fine_removed L view finished pending blks st'"
  using assms(6)
proof (cases rule: fine_step.cases)
  case (insert h r s')
  show ?thesis
  proof (rule fine_removedI)
    fix j w p
    assume j: "fp_workers st' j = Some w" "finished w \<noteq> Some None" "p \<in> set (block_spends L (blks ! j))" "p \<notin> set (pending w)"
    with insert(1) have worker: "fp_workers st j = Some w" by simp
    from insert(3) have "h \<notin> dom (fp_blocks st)" by auto
    from fine_removed_insert [OF assms(1-4) this insert(2,4) worker j(3) fine_removedD [OF removed worker j(2-4)]]
    show "view (fp_cache st') p = None" using insert(1) by simp
  qed
next
  case (start h blk)
  from fine_invD(2) [OF inv start(2)] have "blk = blks ! h" by (auto split: if_splits)
  with start(1) start_ok [OF assms(1), of blk "chain_view L conv blks" "fp_cache st"] show ?thesis
    by (auto intro!: fine_removedI intro: fine_removedD [OF removed] split: if_splits)
next
  case (work h w w' s')
  from reads have R: "R \<subseteq> {..<length blks}" by (simp add: reads_some_def)
  note kept = fine_removed_work [OF assms(1,2) R inv removed work(2-4)]
  show ?thesis
  proof (rule fine_removedI)
    fix j v p
    assume j: "fp_workers st' j = Some v" "finished v \<noteq> Some None" "p \<in> set (block_spends L (blks ! j))" "p \<notin> set (pending v)"
    with work(1) fine_removedD [OF removed, of j v p] map_le_None [OF kept(1), of p] kept(2) [of p]
    show "view (fp_cache st') p = None" by (auto split: if_splits)
  qed
qed

lemma fine_removed_reachable:
  assumes "good" and "sound_chain L blks" and "reads_some insert_block blks R n update" and "ok s" and "view s = Map.empty"
    and "(fine_step update start wstep finished n)\<^sup>*\<^sup>* (fine_init s) st"
  shows "fine_removed L view finished pending blks st"
  using assms(6)
proof (induction rule: rtranclp_induct)
  case base
  show ?case by (rule fine_removedI) (simp add: fine_init_def)
next
  case (step y z)
  from fine_removed_step [OF assms(1-3) fine_reachable [OF assms(1-5) step.hyps(1)] step.IH step.hyps(2)] show ?case .
qed

text \<open>When all blocks of a valid chain are done, the cache is the set of unspent outputs.\<close>

lemma fine_final_view:
  assumes "good" and valid: "valid_chain L blks" and reads: "reads_some insert_block blks {..<length blks} (length blks) update"
    and "ok s" and "view s = Map.empty"
    and run: "(fine_step update start wstep finished (length blks))\<^sup>*\<^sup>* (fine_init s) st"
    and stuck: "\<nexists>st'. fine_step update start wstep finished (length blks) st st'"
  shows "view (fp_cache st) = (\<lambda>p. map_option conv (utxo_set L blks p))"
proof
  fix p
  note sound = valid_chain_sound [OF valid]
  note inv = fine_reachable [OF assms(1) sound reads assms(4,5) run]
  note removed = fine_removed_reachable [OF assms(1) sound reads assms(4,5) run]
  note all = fine_stuck [OF assms(1) sound reads inv stuck]
  show "view (fp_cache st) p = map_option conv (utxo_set L blks p)"
  proof (cases "p \<in> set (concat (map (block_spends L) blks))")
    case True
    then obtain blk where "blk \<in> set blks" "p \<in> set (block_spends L blk)" by auto
    then obtain h where h: "h < length blks" "p \<in> set (block_spends L (blks ! h))" by (metis in_set_conv_nth)
    with all(2) [of h] obtain r where r: "fine_done finished st h = Some r" by fastforce
    from fine_inv_done [OF assms(1) subset_refl inv r] h(1) valid have "r \<noteq> None" by (simp add: valid_chain_def)
    with r obtain w where w: "fp_workers st h = Some w" "finished w = Some r" "finished w \<noteq> Some None"
      by (auto simp: fine_done_def bind_eq_Some_conv)
    have "view (fp_cache st) p = None"
      by (rule fine_removedD [OF removed w(1,3) h(2)]) (simp add: finished_pending [OF assms(1) w(2)])
    with True show ?thesis by (simp only: utxo_set_def if_True option.map)
  next
    case False
    then have utxo: "map_option conv (utxo_set L blks p) = chain_view L conv blks p" by (simp add: utxo_set_def chain_view_def)
    have "\<not> taken L pending blks (fp_workers st) p"
    proof
      assume "taken L pending blks (fp_workers st) p"
      then obtain h w where h: "fp_workers st h = Some w" "p \<in> set (block_spends L (blks ! h))" by (auto simp: taken_def)
      from fine_invD(3) [OF inv h(1)] have "h < length blks" by auto
      with h(2) False show False by auto
    qed
    moreover have "created L blks ({..<length blks} \<inter> dom (fp_blocks st)) p" if "p \<in> dom (chain_outputs L blks)"
      using chain_outputs_block [OF that] all(1) by (force simp: created_def)
    ultimately show ?thesis
      using fine_invD(7) [OF inv, of p] map_le_None [OF fine_invD(6) [OF inv], of p]
      unfolding utxo by (cases "p \<in> dom (chain_outputs L blks)") (auto simp: chain_view_def domIff)
  qed
qed

end

section \<open>No empty entries in memory\<close>

text \<open>
  An entry of the map that is empty is about to be dropped by a worker that has seen it empty.
\<close>

definition lock_tight :: "('out lock_cache, ('tx, 'blk, 'out) mem_worker) fine_pipeline \<Rightarrow> bool" where
  "lock_tight st \<longleftrightarrow>
     (\<forall>t vm. lock_flat (fp_cache st) t = Some vm \<longrightarrow> vec_map_is_empty vm \<longrightarrow>
        (\<exists>h ob txs otx ins p out. fp_workers st h = Some (Took_Out ob txs otx ins p out True) \<and> op_txid p = t))"

lemma lock_tightI:
  assumes "\<And>t vm. lock_flat (fp_cache st) t = Some vm \<Longrightarrow> vec_map_is_empty vm \<Longrightarrow>
    \<exists>h ob txs otx ins p out. fp_workers st h = Some (Took_Out ob txs otx ins p out True) \<and> op_txid p = t"
  shows "lock_tight st"
  using assms unfolding lock_tight_def by blast

lemma lock_tightE:
  assumes "lock_tight st" and "lock_flat (fp_cache st) t = Some vm" and "vec_map_is_empty vm"
  obtains h ob txs otx ins p out where "fp_workers st h = Some (Took_Out ob txs otx ins p out True)" and "op_txid p = t"
  using assms unfolding lock_tight_def by blast

lemma foldl_upd_Some:
  "foldl (\<lambda>m (k, v). m(k \<mapsto> v)) m es t = Some v \<Longrightarrow> (t, v) \<in> set es \<or> m t = Some v"
proof (induction es arbitrary: m)
  case (Cons e es)
  from Cons.IH [of "m(fst e \<mapsto> snd e)"] Cons.prems show ?case by (cases e) (auto split: if_splits)
qed simp

lemma new_entry_not_empty:
  assumes "xs \<noteq> []" and "length xs < 2 ^ 32"
  shows "\<not> vec_map_is_empty (vec_map_from_vec (map Some xs))"
proof
  assume "vec_map_is_empty (vec_map_from_vec (map Some xs))"
  then have "vm_view (vec_map_from_vec (map Some xs)) 0 = None"
    using vec_map_is_empty_iff [OF vec_map_from_vec_ok(1) [OF assms(2)]] by simp
  with vec_map_from_vec_ok(2) [OF assms(2)] assms(1) show False by simp
qed

text \<open>A step of a worker: what other workers are about to drop stays so.\<close>

lemma lock_wstep_empty:
  assumes ok: "lock_ok s" and sees: "lock_sees w s" and step: "lock_wstep L T B w s = Ok (w', s')"
    and fin: "lock_finished w = None" and here: "lock_flat s' t = Some vm" and empty: "vec_map_is_empty vm"
  shows "(\<exists>ob txs otx ins p out. w' = Took_Out ob txs otx ins p out True \<and> op_txid p = t)
    \<or> lock_flat s t = Some vm \<and> (\<forall>ob txs otx ins p out. w = Took_Out ob txs otx ins p out True \<longrightarrow> op_txid p \<noteq> t)"
proof (cases w)
  case (At_Tx ob txs)
  with step have "s' = s" by (cases txs) (auto simp: bind_result_eq_Ok)
  with here At_Tx show ?thesis by simp
next
  case (At_Input ob txs otx ins)
  with step have "s' = s" by (cases ins) (auto split: if_splits option.splits)
  with here At_Input show ?thesis by simp
next
  case (Got_Arc ob txs otx ins p a)
  let ?r = "vec_map_remove (unat (op_vout p)) (lc_store s ! a)"
  from Got_Arc step have w': "w' = Took_Out ob txs otx ins p (fst ?r) (vec_map_is_empty (snd ?r))"
    and s': "s' = s\<lparr>lc_store := (lc_store s)[a := snd ?r]\<rparr>" by (auto simp: split_beta)
  show ?thesis
  proof (cases "lc_map s (op_txid p) = Some a")
    case True
    have "lock_flat s' = (lock_flat s)(op_txid p \<mapsto> snd ?r)"
      unfolding s' by (rule lock_remove_flat(1) [OF ok True])
    with here empty w' Got_Arc show ?thesis by (cases "t = op_txid p") simp_all
  next
    case False
    with sees Got_Arc have "vec_map_ok (lc_store s ! a)" "vec_map_is_empty (lc_store s ! a)" by auto
    from vec_map_remove_empty [OF this] have "s' = s" by (simp add: s')
    with here Got_Arc show ?thesis by simp
  qed
next
  case (Took_Out ob txs otx ins p out e)
  with step have "s' = (if e then s\<lparr>lc_map := (lc_map s)(op_txid p := None)\<rparr> else s)"
    by (auto simp: Let_def split: option.splits)
  then have "lock_flat s' = (if e then (lock_flat s)(op_txid p := None) else lock_flat s)"
    using lock_drop_flat(1) [OF ok, of "op_txid p"] by simp
  with here Took_Out show ?thesis by (auto split: if_splits)
qed (use fin in simp)

lemma lock_tight_work:
  assumes tight: "lock_tight st" and ok: "lock_ok (fp_cache st)" and w: "fp_workers st h = Some w" and sees: "lock_sees w (fp_cache st)"
    and step: "lock_wstep L T B w (fp_cache st) = Ok (w', s')" and fin: "lock_finished w = None"
  shows "lock_tight (st\<lparr>fp_cache := s', fp_workers := (fp_workers st)(h \<mapsto> w')\<rparr>)"
proof (rule lock_tightI)
  let ?st = "st\<lparr>fp_cache := s', fp_workers := (fp_workers st)(h \<mapsto> w')\<rparr>"
  fix t vm
  assume "lock_flat (fp_cache ?st) t = Some vm" and empty: "vec_map_is_empty vm"
  then have "lock_flat s' t = Some vm" by simp
  from lock_wstep_empty [OF ok sees step fin this empty]
  show "\<exists>h ob txs otx ins p out. fp_workers ?st h = Some (Took_Out ob txs otx ins p out True) \<and> op_txid p = t"
  proof (elim disjE conjE exE)
    fix ob txs otx ins p out
    assume "w' = Took_Out ob txs otx ins p out True" "op_txid p = t"
    then show ?thesis by (intro exI [of _ h]) auto
  next
    assume before: "lock_flat (fp_cache st) t = Some vm"
      and other: "\<forall>ob txs otx ins p out. w = Took_Out ob txs otx ins p out True \<longrightarrow> op_txid p \<noteq> t"
    from lock_tightE [OF tight before empty] obtain j ob txs otx ins p out where
      j: "fp_workers st j = Some (Took_Out ob txs otx ins p out True)" "op_txid p = t" .
    then have "j \<noteq> h" using w other by auto
    with j show ?thesis by (intro exI [of _ j]) auto
  qed
qed

context connected_block
begin

lemma lock_tight_insert:
  assumes "good" and "lock_ok (fp_cache st)" and "lock_tight st" and "lock_insert_block L T blk (fp_cache st) = Ok (r, s')"
    and "\<forall>tx \<in> set (txdata blk). tx_output tx \<noteq> [] \<and> length (tx_output tx) < 2 ^ 32"
  shows "lock_tight (st\<lparr>fp_cache := s', fp_blocks := bs\<rparr>)"
proof (rule lock_tightI)
  let ?es = "map (\<lambda>tx. (compute_txid L tx, vec_map_from_vec (map Some (map conv (tx_output tx))))) (txdata blk)"
  fix t vm
  assume "lock_flat (fp_cache (st\<lparr>fp_cache := s', fp_blocks := bs\<rparr>)) t = Some vm" and empty: "vec_map_is_empty vm"
  moreover have "mem_insert_block L T blk (lock_flat (fp_cache st)) = Ok (Some blk, lock_flat s')"
    using lock_insert_flat [OF assms(1,2), of blk] assms(4,5) by auto
  then have "lock_flat s' = foldl (\<lambda>m (k, v). m(k \<mapsto> v)) (lock_flat (fp_cache st)) ?es"
    by (simp add: mem_insert_block_def lock_new_entries [OF assms(1)] del: map_map)
  ultimately have "(t, vm) \<in> set ?es \<or> lock_flat (fp_cache st) t = Some vm"
    using foldl_upd_Some [of "lock_flat (fp_cache st)" ?es t vm] by simp
  moreover have "\<not> vec_map_is_empty v" if "(t, v) \<in> set ?es" for v
  proof -
    from that obtain tx where "tx \<in> set (txdata blk)" "v = vec_map_from_vec (map Some (map conv (tx_output tx)))"
      by (auto simp del: map_map)
    with assms(5) new_entry_not_empty [of "map conv (tx_output tx)"] show ?thesis by simp
  qed
  ultimately have "lock_flat (fp_cache st) t = Some vm" using empty by blast
  from lock_tightE [OF assms(3) this empty] show "\<exists>h ob txs otx ins p out.
      fp_workers (st\<lparr>fp_cache := s', fp_blocks := bs\<rparr>) h = Some (Took_Out ob txs otx ins p out True) \<and> op_txid p = t"
    by (metis fine_pipeline.select_convs(3) fine_pipeline.surjective fine_pipeline.update_convs(1,2))
qed

lemma lock_tight_step:
  assumes "good" and "sound_chain L blks" and reads: "reads_some (lock_insert_block L T) blks R n update"
    and outs: "\<forall>tx \<in> set (chain_txs blks). tx_output tx \<noteq> []"
    and inv: "fine_inv L lock_ok lock_view (lock_pending L) (lock_wok L build mk) blks R n (chain_view L conv blks) st"
    and tight: "lock_tight st"
    and "fine_step update (lock_start L B) (lock_wstep L T B) lock_finished n st st'"
  shows "lock_tight st'"
  using assms(7)
proof (cases rule: fine_step.cases)
  case (insert h r s')
  show ?thesis
  proof (cases "h \<in> R")
    case True
    with reads insert(2,4) have ins: "lock_insert_block L T (blks ! h) (fp_cache st) = Ok (r, s')" and h: "h < length blks"
      by (auto simp: reads_some_def)
    have "\<forall>tx \<in> set (txdata (blks ! h)). tx_output tx \<noteq> [] \<and> length (tx_output tx) < 2 ^ 32"
      using outs sound_blocksD(2) [OF sound_chain_blocks [OF assms(2)]] chain_txs_nth [OF h] by blast
    from lock_tight_insert [OF assms(1) fine_invD(1) [OF inv] tight ins this] insert(1) show ?thesis by simp
  next
    case False
    with reads insert(2,4) have "s' = fp_cache st" by (simp add: reads_some_def)
    with insert(1) tight show ?thesis by (simp add: lock_tight_def)
  qed
next
  case (start h blk)
  show ?thesis
  proof (rule lock_tightI)
    fix t vm assume "lock_flat (fp_cache st') t = Some vm" "vec_map_is_empty vm"
    with start(1) have "lock_flat (fp_cache st) t = Some vm" by simp
    from lock_tightE [OF tight this \<open>vec_map_is_empty vm\<close>] obtain j ob txs otx ins p out where
      j: "fp_workers st j = Some (Took_Out ob txs otx ins p out True)" "op_txid p = t" .
    with start(4) have "j \<noteq> h" by auto
    with j start(1) show "\<exists>h ob txs otx ins p out. fp_workers st' h = Some (Took_Out ob txs otx ins p out True) \<and> op_txid p = t"
      by (intro exI [of _ j]) auto
  qed
next
  case (work h w w' s')
  have "lock_sees w (fp_cache st)" using fine_invD(4) [OF inv work(2)] by (simp add: lock_wok_def)
  from lock_tight_work [OF tight fine_invD(1) [OF inv] work(2) this work(4,3)] work(1) show ?thesis by simp
qed

lemma lock_tight_reachable:
  assumes "good" and "sound_chain L blks" and reads: "reads_some (lock_insert_block L T) blks R n update"
    and "\<forall>tx \<in> set (chain_txs blks). tx_output tx \<noteq> []"
    and "(fine_step update (lock_start L B) (lock_wstep L T B) lock_finished n)\<^sup>*\<^sup>* (fine_init lock_cache_new) st"
  shows "lock_tight st"
  using assms(5)
proof (induction rule: rtranclp_induct)
  case base
  show ?case by (rule lock_tightI) (simp add: fine_init_def)
next
  case (step y z)
  note inv = mem_lock.fine_reachable [OF assms(1-3) lock_ok_new lock_view_new step.hyps(1)]
  from lock_tight_step [OF assms(1-4) inv step.IH step.hyps(2)] show ?case .
qed

text \<open>When no thread can go on, the entries of the map are those of the outputs that are left.\<close>

lemma lock_final_entries:
  assumes "good" and "sound_chain L blks" and reads: "reads_some (lock_insert_block L T) blks R n update"
    and "\<forall>tx \<in> set (chain_txs blks). tx_output tx \<noteq> []"
    and run: "(fine_step update (lock_start L B) (lock_wstep L T B) lock_finished n)\<^sup>*\<^sup>* (fine_init lock_cache_new) st"
    and stuck: "\<nexists>st'. fine_step update (lock_start L B) (lock_wstep L T B) lock_finished n st st'"
  shows "dom (lc_map (fp_cache st)) = op_txid ` dom (lock_view (fp_cache st))"
proof (intro equalityI subsetI)
  note inv = mem_lock.fine_reachable [OF assms(1-3) lock_ok_new lock_view_new run]
  note ok = fine_invD(1) [OF inv]
  fix t assume "t \<in> dom (lc_map (fp_cache st))"
  then obtain a where a: "lc_map (fp_cache st) t = Some a" by blast
  let ?vm = "lc_store (fp_cache st) ! a"
  note flat = lock_okD(2,3) [OF ok a]
  have "\<not> vec_map_is_empty ?vm"
  proof
    assume "vec_map_is_empty ?vm"
    from lock_tightE [OF lock_tight_reachable [OF assms(1-4) run] flat(1) this] obtain h ob txs otx ins p out where
      w: "fp_workers st h = Some (Took_Out ob txs otx ins p out True)" .
    from fine_invD(3) [OF inv w] have below: "{..h} \<subseteq> R" "h \<in> dom (fp_blocks st)" by auto
    with fine_invD(2) [OF inv, of h] have "h < n" by blast
    from mem_lock.fine_stuck(2) [OF assms(1-3) inv stuck this below(1)] w show False by (simp add: fine_done_def)
  qed
  then have "vm_view ?vm \<noteq> Map.empty" using vec_map_is_empty_iff [OF flat(2)] by simp
  then obtain i where i: "vm_view ?vm i \<noteq> None" by (auto simp: fun_eq_iff)
  then have "i < 2 ^ 32" using flat(2) by (auto simp: vm_view_def vec_map_ok_def split: if_splits)
  with i flat(1) have "lock_view (fp_cache st) \<lparr>op_txid = t, op_vout = word_of_nat i\<rparr> \<noteq> None"
    by (simp add: lock_view_def mem_view_def unat_of_nat)
  then have "\<lparr>op_txid = t, op_vout = word_of_nat i\<rparr> \<in> dom (lock_view (fp_cache st))" by blast
  from imageI [OF this, of op_txid] show "t \<in> op_txid ` dom (lock_view (fp_cache st))" by simp
next
  fix t assume "t \<in> op_txid ` dom (lock_view (fp_cache st))"
  then show "t \<in> dom (lc_map (fp_cache st))"
    by (auto simp: lock_view_def mem_view_def lock_flat_def split: option.splits)
qed

end

section \<open>Properties\<close>

lemma readable_all:
  "chain_readable fs L db blks \<Longrightarrow> chain_readable_at fs L db blks {..<length blks} (length blks)"
  by (simp add: chain_readable_def chain_readable_at_def)

text \<open>
  C8. The cache in memory ends as the set of unspent outputs. When the threads have worked off a valid
  chain whose transactions have outputs, in whatever order, the cache holds each output of the chain that no block spends, nothing
  else, and has an entry for a transaction only if one of its outputs is left: nothing leaks.
\<close>

theorem mem_locks_final_cache:
  assumes "p2pk_doc S" and "valid_chain L blks" and "\<forall>tx \<in> set (chain_txs blks). tx_output tx \<noteq> []"
    and "chain_readable fs L db blks"
    and "(fine_step (lock_update_unspent_cache fs L (full_tx_impl L S) db) (lock_start L full_block_impl)
        (lock_wstep L (full_tx_impl L S) full_block_impl) lock_finished (length blks))\<^sup>*\<^sup>* lock_iter_new st"
    and "\<nexists>st'. fine_step (lock_update_unspent_cache fs L (full_tx_impl L S) db) (lock_start L full_block_impl)
        (lock_wstep L (full_tx_impl L S) full_block_impl) lock_finished (length blks) st st'"
  shows "lock_view (fp_cache st) = (\<lambda>p. map_option (full_txout_of S) (utxo_set L blks p))
    \<and> dom (lc_map (fp_cache st)) = op_txid ` dom (utxo_set L blks)"
proof -
  note reads = lock_reads_some [OF readable_all [OF assms(4)]] and run = assms(5) [unfolded lock_iter_new_def]
  have vw: "lock_view (fp_cache st) = (\<lambda>p. map_option (full_txout_of S) (utxo_set L blks p))"
    by (rule full_blk.mem_lock.fine_final_view [OF assms(1,2) reads lock_ok_new lock_view_new run assms(6)])
  moreover have "dom (lc_map (fp_cache st)) = op_txid ` dom (lock_view (fp_cache st))"
    by (rule full_blk.lock_final_entries [OF assms(1) valid_chain_sound [OF assms(2)] reads assms(3) run assms(6)])
  moreover have "dom (lock_view (fp_cache st)) = dom (utxo_set L blks)"
    unfolding vw by auto
  ultimately show ?thesis by simp
qed

text \<open>
  C12. So does the database of the cache on disk: when the threads have worked off a valid chain, it
  holds exactly the unspent outputs.
\<close>

theorem disk_ops_final_cache:
  assumes "p2pk_doc S" and "disk_good D rview L" and "valid_chain L blks" and "chain_readable fs L db blks"
    and "rview d = Map.empty"
    and "(fine_step (disk_update_unspent_cache D fs L db) Disk_Start
        (disk_wstep D L (compact_tx_impl L S) compact_block_impl) disk_finished (length blks))\<^sup>*\<^sup>* (fine_init d) st"
    and "\<nexists>st'. fine_step (disk_update_unspent_cache D fs L db) Disk_Start
        (disk_wstep D L (compact_tx_impl L S) compact_block_impl) disk_finished (length blks) st st'"
  shows "disk_view L rview (compact_txout_of S) (fp_cache st) = (\<lambda>p. map_option (compact_txout_of S) (utxo_set L blks p))"
  by (rule compact_disk_ops.fine_final_view [OF conjI [OF assms(1,2)] assms(3) disk_reads_some [OF readable_all [OF assms(4)]]
        TrueI disk_view_empty [of rview d, OF assms(5)] assms(6,7)])

text \<open>
  C19. Running the stages call by call is one of the schedules: every run in which each call is one step
  is matched by a run of the threads, access by access, that ends with the same results at every height
  and with the same cache. In memory, with the locks, this is for blocks whose transactions have fewer than \<open>2 ^ 32\<close> outputs,
  as many as a \<open>VecMap\<close> can count; on disk for all blocks and over any database, one whose operations fail included.
\<close>

theorem calls_refined:
  fixes T :: "('tx, 'out) connected_tx_impl" and B :: "('blk, 'tx) connected_block_impl"
  shows "(outputs_counted fs L db n \<longrightarrow>
      (pipeline_step (mem_update_unspent_cache fs L T db) (mem_connect_outpoints L T B) n)\<^sup>*\<^sup>* mem_iter_new pst \<longrightarrow>
      (\<exists>st :: ('out lock_cache, ('tx, 'blk, 'out) mem_worker) fine_pipeline.
        (fine_step (lock_update_unspent_cache fs L T db) (lock_start L B) (lock_wstep L T B) lock_finished n)\<^sup>*\<^sup>* lock_iter_new st
        \<and> fp_blocks st = pl_blocks pst \<and> fine_done lock_finished st = pl_done pst \<and> lock_flat (fp_cache st) = pl_cache pst))
    \<and> ((pipeline_step (disk_update_unspent_cache D fs L db) (disk_connect_outpoints D L T B) n)\<^sup>*\<^sup>* (pipeline_init d) dst \<longrightarrow>
      (\<exists>st. (fine_step (disk_update_unspent_cache D fs L db) Disk_Start (disk_wstep D L T B) disk_finished n)\<^sup>*\<^sup>* (fine_init d) st
        \<and> fp_blocks st = pl_blocks dst \<and> fine_done disk_finished st = pl_done dst \<and> fp_cache st = pl_cache dst))"
proof (intro conjI impI)
  assume "outputs_counted fs L db n"
    and "(pipeline_step (mem_update_unspent_cache fs L T db) (mem_connect_outpoints L T B) n)\<^sup>*\<^sup>* mem_iter_new pst"
  from mem_calls.calls_run [OF this(1) lock_ok_new, unfolded lock_flat_new, OF this(2) [unfolded mem_iter_new_def]]
  show "\<exists>st :: ('out lock_cache, ('tx, 'blk, 'out) mem_worker) fine_pipeline.
      (fine_step (lock_update_unspent_cache fs L T db) (lock_start L B) (lock_wstep L T B) lock_finished n)\<^sup>*\<^sup>* lock_iter_new st
      \<and> fp_blocks st = pl_blocks pst \<and> fine_done lock_finished st = pl_done pst \<and> lock_flat (fp_cache st) = pl_cache pst"
    by (auto simp: same_results_def lock_iter_new_def)
next
  assume "(pipeline_step (disk_update_unspent_cache D fs L db) (disk_connect_outpoints D L T B) n)\<^sup>*\<^sup>* (pipeline_init d) dst"
  from disk_calls.calls_run [OF TrueI TrueI this]
  show "\<exists>st. (fine_step (disk_update_unspent_cache D fs L db) Disk_Start (disk_wstep D L T B) disk_finished n)\<^sup>*\<^sup>* (fine_init d) st
      \<and> fp_blocks st = pl_blocks dst \<and> fine_done disk_finished st = pl_done dst \<and> fp_cache st = pl_cache dst"
    by (auto simp: same_results_def)
qed

section \<open>Samples\<close>

theorem mem_locks_final_cache_witness:
  "\<exists>st. (fine_step (lock_update_unspent_cache spend_fs spend_lib (full_tx_impl spend_lib sample_script_lib) spend_handle)
        (lock_start spend_lib full_block_impl) (lock_wstep spend_lib (full_tx_impl spend_lib sample_script_lib) full_block_impl)
        lock_finished (length spend_chain))\<^sup>*\<^sup>* lock_iter_new st
    \<and> lc_map (fp_cache st) (sample_hash 5) = None \<and> lc_map (fp_cache st) (sample_hash 6) \<noteq> None"
proof -
  let ?step = "fine_step (lock_update_unspent_cache spend_fs spend_lib (full_tx_impl spend_lib sample_script_lib) spend_handle)
    (lock_start spend_lib full_block_impl) (lock_wstep spend_lib (full_tx_impl spend_lib sample_script_lib) full_block_impl)
    lock_finished (length spend_chain)"
  note doc = sample_p2pk_doc valid_chain_sound [OF spend_valid] lock_reads_some [OF readable_all [OF spend_readable]]
  obtain st where st: "?step\<^sup>*\<^sup>* lock_iter_new st" "\<nexists>st'. ?step st st'"
    using full_blk.mem_lock.fine_completes [OF doc full_blk.mem_lock.fine_reachable [OF doc lock_ok_new lock_view_new rtranclp.rtrancl_refl]]
    unfolding lock_iter_new_def by blast
  have outs: "\<forall>tx \<in> set (chain_txs spend_chain). tx_output tx \<noteq> []"
    by (simp add: chain_txs_def spend_chain_def)
  have utxo: "utxo_set spend_lib spend_chain = [\<lparr>op_txid = sample_hash 6, op_vout = 0\<rparr> \<mapsto> \<lparr>txo_value = 6, script_pubkey = []\<rparr>]"
    by (rule ext) (auto simp: utxo_set_def spend_chain_def chain_outputs_def block_outputs_def tx_outputs_def block_spends_def
        tx_spends_def)
  from mem_locks_final_cache [OF sample_p2pk_doc spend_valid outs spend_readable st]
  have "dom (lc_map (fp_cache st)) = {sample_hash 6}" by (simp add: utxo)
  then have "sample_hash 5 \<notin> dom (lc_map (fp_cache st))" "sample_hash 6 \<in> dom (lc_map (fp_cache st))" by simp_all
  with st(1) show ?thesis by (metis domIff)
qed

theorem disk_ops_final_cache_witness:
  "\<exists>st. (fine_step (disk_update_unspent_cache sample_rocks spend_fs spend_lib spend_handle) Disk_Start
        (disk_wstep sample_rocks spend_lib (compact_tx_impl spend_lib sample_script_lib) compact_block_impl)
        disk_finished (length spend_chain))\<^sup>*\<^sup>* (fine_init Map.empty) st
    \<and> disk_view spend_lib (\<lambda>d. d) (compact_txout_of sample_script_lib) (fp_cache st) \<lparr>op_txid = sample_hash 5, op_vout = 0\<rparr> = None"
proof -
  let ?step = "fine_step (disk_update_unspent_cache sample_rocks spend_fs spend_lib spend_handle) Disk_Start
    (disk_wstep sample_rocks spend_lib (compact_tx_impl spend_lib sample_script_lib) compact_block_impl)
    disk_finished (length spend_chain)"
  note facts = conjI [OF sample_p2pk_doc sample_disk_good] valid_chain_sound [OF spend_valid]
    disk_reads_some [OF readable_all [OF spend_readable]]
  have empty: "disk_view spend_lib (\<lambda>d. d) (compact_txout_of sample_script_lib) Map.empty = Map.empty"
    by (rule disk_view_empty) (rule refl)
  obtain st where st: "?step\<^sup>*\<^sup>* (fine_init Map.empty) st" "\<nexists>st'. ?step st st'"
    using compact_disk_ops.fine_completes [OF facts compact_disk_ops.fine_reachable [OF facts TrueI empty rtranclp.rtrancl_refl]]
    by blast
  have "utxo_set spend_lib spend_chain \<lparr>op_txid = sample_hash 5, op_vout = 0\<rparr> = None"
    by (simp add: utxo_set_def spend_chain_def block_spends_def tx_spends_def)
  with disk_ops_final_cache [OF sample_p2pk_doc sample_disk_good spend_valid spend_readable refl st] st(1) show ?thesis
    by auto
qed

theorem calls_refined_witness:
  "(\<exists>st. (fine_step (lock_update_unspent_cache (toy_fs recreating_bytes) toy_lib (full_tx_impl toy_lib sample_script_lib) (toy_handle 4))
        (lock_start toy_lib full_block_impl) (lock_wstep toy_lib (full_tx_impl toy_lib sample_script_lib) full_block_impl)
        lock_finished 4)\<^sup>*\<^sup>* lock_iter_new st
      \<and> length (pipeline_output (fine_done lock_finished st) 0 4) = 3)
    \<and> (\<exists>st. (fine_step (disk_update_unspent_cache sample_rocks (toy_fs recreating_bytes) toy_lib (toy_handle 4)) Disk_Start
        (disk_wstep sample_rocks toy_lib (full_tx_impl toy_lib sample_script_lib) full_block_impl) disk_finished 4)\<^sup>*\<^sup>* (fine_init Map.empty) st
      \<and> length (pipeline_output (fine_done disk_finished st) 0 4) = 4)"
proof -
  let ?F = "full_tx_impl toy_lib sample_script_lib"
  obtain pst where mem: "(pipeline_step (mem_update_unspent_cache (toy_fs recreating_bytes) toy_lib ?F (toy_handle 4))
      (mem_connect_outpoints toy_lib ?F full_block_impl) 4)\<^sup>*\<^sup>* mem_iter_new pst" "length (pipeline_output (pl_done pst) 0 4) = 3"
    using recreating_mem.ahead [of Map.empty] run_calls_steps unfolding mem_iter_new_def by blast
  obtain dst where disk: "(pipeline_step (disk_update_unspent_cache sample_rocks (toy_fs recreating_bytes) toy_lib (toy_handle 4))
      (disk_connect_outpoints sample_rocks toy_lib ?F full_block_impl) 4)\<^sup>*\<^sup>* (pipeline_init Map.empty) dst"
    "length (pipeline_output (pl_done dst) 0 4) = 4"
    using recreating_disk.in_order [of Map.empty] run_calls_steps by blast
  from conjunct1 [OF calls_refined, THEN mp, THEN mp, OF recreating_counted mem(1)] mem(2)
    conjunct2 [OF calls_refined, THEN mp, OF disk(1)] disk(2) show ?thesis by metis
qed

end
