(* ===== verification/Data_Dir.thy ===== *)
theory Data_Dir
  imports Final_Cache
begin

text \<open>
  From the data directory that Bitcoin Core writes to what the library returns: a directory that stores
  a chain, in the layout of the block index and of the block files, obfuscated or not, with blocks
  off the main chain and headers without blocks in between, is opened by \<open>BitcoinDB::new\<close>, the queries
  return what was stored, and \<open>connected_block_iter\<close> yields the chain, connected.
\<close>

section \<open>The main chain in the block index\<close>

lemma is_chain_snocD:
  assumes "is_chain L (rs @ [r])"
  shows "is_chain L rs" and "sint (n_height r) = int (length rs)" and "record_hash L r \<notin> record_hash L ` set rs"
    and "rs \<noteq> [] \<Longrightarrow> prev_blockhash (block_header r) = record_hash L (last rs)"
proof -
  from assms have h: "\<And>i. i < Suc (length rs) \<Longrightarrow> sint (n_height ((rs @ [r]) ! i)) = int i"
    and p: "\<And>i. i < length rs \<Longrightarrow> prev_blockhash (block_header ((rs @ [r]) ! Suc i)) = record_hash L ((rs @ [r]) ! i)"
    and d: "distinct (map (record_hash L) (rs @ [r]))"
    by (simp_all add: is_chain_def)
  show "is_chain L rs"
    unfolding is_chain_def
  proof (intro conjI allI impI)
    show "sint (n_height (rs ! i)) = int i" if "i < length rs" for i
      using h [of i] that by (simp add: nth_append)
    show "prev_blockhash (block_header (rs ! Suc i)) = record_hash L (rs ! i)" if "Suc i < length rs" for i
      using p [of i] that by (simp add: nth_append)
  qed (use d in simp)
  show "sint (n_height r) = int (length rs)" using h [of "length rs"] by simp
  show "record_hash L r \<notin> record_hash L ` set rs" using d by simp
  show "prev_blockhash (block_header r) = record_hash L (last rs)" if "rs \<noteq> []"
    using p [of "length rs - 1"] that by (simp add: nth_append last_conv_nth)
qed

lemma build_chain_main:
  assumes "is_chain L rs" and "rs \<noteq> []" and "\<And>q. q \<in> set rs \<Longrightarrow> m (record_hash L q) = Some q"
  shows "build_chain m (record_hash L (last rs)) (int (length rs) - 1) acc = Ok (acc @ rev rs)"
  using assms
proof (induction rs arbitrary: m acc rule: rev_induct)
  case (snoc r rs)
  note D = is_chain_snocD [OF snoc.prems(1)]
  have "build_chain m (record_hash L r) (int (length rs)) acc
      = build_chain (m(record_hash L r := None)) (prev_blockhash (block_header r)) (int (length rs) - 1) (acc @ [r])"
    by (rule build_chain_step) (simp_all add: snoc.prems(3) D(2))
  also have "\<dots> = Ok ((acc @ [r]) @ rev rs)"
  proof (cases "rs = []")
    case False
    have "(m(record_hash L r := None)) (record_hash L q) = Some q" if "q \<in> set rs" for q
    proof -
      from D(3) that have "record_hash L q \<noteq> record_hash L r" by (metis imageI)
      with snoc.prems(3) [of q] that show ?thesis by simp
    qed
    from snoc.IH [OF D(1) False this] show ?thesis by (simp only: D(4) [OF False])
  qed (simp add: build_chain_end)
  finally show ?case by simp
qed simp

text \<open>
  Blocks off the main chain and headers without a block do not matter: when the hashes of the valid records
  differ and the main chain is higher than the valid records that are not on it, it is what is loaded.
\<close>

lemma load_block_index_main:
  assumes "entries_decode L (ldb_entries db)" and dist: "distinct (map (record_hash L) (valid_records L (ldb_entries db)))"
    and ch: "is_chain L rs" and "rs \<noteq> []" and sub: "set rs \<subseteq> set (valid_records L (ldb_entries db))"
    and lower: "\<And>r. r \<in> set (valid_records L (ldb_entries db)) \<Longrightarrow> r \<notin> set rs \<Longrightarrow> sint (n_height r) < int (length rs) - 1"
  shows "load_block_index L (Inr db) = Ok rs"
proof -
  let ?V = "valid_records L (ldb_entries db)" and ?m = "index_of L Map.empty (valid_records L (ldb_entries db))"
  from assms(4) have tip: "last rs \<in> set ?V" "sint (n_height (last rs)) = int (length rs) - 1"
    using sub ch by (auto simp: is_chain_def last_conv_nth Suc_leI)
  then obtain hash k where mx: "max_of L None ?V = Some (hash, k)"
    using max_of_None [of L None ?V] by fastforce
  from max_of_attained [OF mx] obtain r where r: "r \<in> set ?V" "record_hash L r = hash" "n_height r = k" by auto
  from max_of_bound [OF mx] tip have high: "int (length rs) - 1 \<le> sint k" by fastforce
  with lower [OF r(1)] r(3) have "r \<in> set rs" by (cases "r \<in> set rs") auto
  then obtain i where i: "i < length rs" "r = rs ! i" by (metis in_set_conv_nth)
  with ch r(3) high have "i = length rs - 1" by (auto simp: is_chain_def)
  with i assms(4) have "r = last rs" by (simp add: last_conv_nth)
  with r tip(2) have "hash = record_hash L (last rs)" "sint k = int (length rs) - 1" by simp_all
  moreover have "?m (record_hash L q) = Some q" if "q \<in> set rs" for q
    using index_of_distinct [OF dist] sub that by blast
  note build_chain_main [OF ch assms(4) this, of "[]"]
  ultimately show ?thesis
    using scan_index_eq [OF assms(1), of Map.empty None] mx by (simp add: load_block_index_def)
qed

section \<open>A directory that stores a chain\<close>

text \<open>
  A block as Bitcoin Core stores it: with its serialization and that of its header, the fields of its
  index record, and the place of the block in the block files.
\<close>

record stored_block =
  sb_block :: block
  sb_bytes :: "byte list"
  sb_header :: "byte list"
  sb_version :: nat
  sb_status :: nat
  sb_file :: nat
  sb_pos :: nat
  sb_undo :: nat

definition has_undo :: "stored_block \<Rightarrow> bool" where
  "has_undo sb \<longleftrightarrow> 0 < (word_of_nat (sb_status sb) :: u32) AND BLOCK_HAVE_UNDO"

definition sb_hash :: "bitcoin_lib \<Rightarrow> stored_block \<Rightarrow> hash256" where
  "sb_hash L sb = block_hash L (blk_header (sb_block sb))"

text \<open>The entry of the block index for the block at height \<open>h\<close>, and the record it is decoded to.\<close>

definition index_entry :: "bitcoin_lib \<Rightarrow> nat \<Rightarrow> stored_block \<Rightarrow> byte list \<times> byte list" where
  "index_entry L h sb =
     (0x62 # sb_hash L sb,
      varint_bytes (sb_version sb) @ varint_bytes h @ varint_bytes (sb_status sb)
      @ varint_bytes (length (txdata (sb_block sb))) @ varint_bytes (sb_file sb) @ varint_bytes (sb_pos sb)
      @ (if has_undo sb then varint_bytes (sb_undo sb) else []) @ sb_header sb)"

definition stored_record :: "nat \<Rightarrow> stored_block \<Rightarrow> block_index_record" where
  "stored_record h sb =
     \<lparr>n_version = word_of_nat (sb_version sb), n_height = word_of_nat h, n_status = word_of_nat (sb_status sb),
      n_tx = word_of_nat (length (txdata (sb_block sb))), n_file = word_of_nat (sb_file sb),
      n_data_pos = word_of_nat (sb_pos sb),
      n_undo_pos = (if has_undo sb then word_of_nat (sb_undo sb) else 0xFFFFFFFF), block_header = blk_header (sb_block sb)\<rparr>"

definition stored_records :: "stored_block list \<Rightarrow> block_index_record list" where
  "stored_records sbs = map (\<lambda>(h, sb). stored_record h sb) (enumerate 0 sbs)"

text \<open>
  The serializations decode to the block and to its header, the block is fully validated and its data is there,
  and its numbers have the size of their fields.
\<close>

definition stored_ok :: "bitcoin_lib \<Rightarrow> stored_block \<Rightarrow> bool" where
  "stored_ok L sb \<longleftrightarrow>
     decode_block L (sb_bytes sb) = Inr (sb_block sb, []) \<and> decode_header L (sb_header sb) = Inr (blk_header (sb_block sb), [])
     \<and> BLOCK_VALID_SCRIPTS \<le> (word_of_nat (sb_status sb) :: u32) AND BLOCK_VALID_MASK
     \<and> 0 < (word_of_nat (sb_status sb) :: u32) AND BLOCK_HAVE_DATA
     \<and> length (sb_bytes sb) < 2 ^ 32 \<and> sb_pos sb < 2 ^ 32 \<and> sb_file sb < 2 ^ 31"

definition chain_linked :: "bitcoin_lib \<Rightarrow> stored_block list \<Rightarrow> bool" where
  "chain_linked L sbs \<longleftrightarrow>
     (\<forall>h. Suc h < length sbs \<longrightarrow> prev_blockhash (blk_header (sb_block (sbs ! Suc h))) = sb_hash L (sbs ! h))"

text \<open>
  The block index holds the chain, among entries of other kinds, headers without a block, and blocks off the chain, which
  are lower than the last one; no two valid records have the same hash.
\<close>

definition index_stores :: "bitcoin_lib \<Rightarrow> leveldb \<Rightarrow> stored_block list \<Rightarrow> bool" where
  "index_stores L db sbs \<longleftrightarrow>
     entries_decode L (ldb_entries db)
     \<and> distinct (map (record_hash L) (valid_records L (ldb_entries db)))
     \<and> (\<forall>h < length sbs. index_entry L h (sbs ! h) \<in> set (ldb_entries db))
     \<and> (\<forall>r \<in> set (valid_records L (ldb_entries db)). r \<in> set (stored_records sbs) \<or> sint (n_height r) < int (length sbs) - 1)"

lemma length_stored_records [simp]: "length (stored_records sbs) = length sbs"
  by (simp add: stored_records_def)

lemma stored_records_nth [simp]: "h < length sbs \<Longrightarrow> stored_records sbs ! h = stored_record h (sbs ! h)"
  by (simp add: stored_records_def nth_enumerate_eq)

lemma stored_record_hash [simp]: "record_hash L (stored_record h sb) = sb_hash L sb"
  by (simp add: record_hash_def stored_record_def sb_hash_def)

lemma status_and:
  assumes "0 < (st :: u32) AND 8"
  shows "0 < st AND 24"
proof (rule ccontr)
  assume "\<not> 0 < st AND 24"
  then have "(st AND 24) AND 8 = 0" by (simp add: word_gt_0)
  then have "st AND 8 = 0" by (simp add: and.assoc)
  with assms show False by simp
qed

lemma index_entry_decodes:
  assumes "stored_ok L sb"
  shows "is_block_index_record (fst (index_entry L h sb))" and "index_decode L (snd (index_entry L h sb)) = Ok (stored_record h sb)"
    and "is_valid (stored_record h sb)"
proof -
  from assms have hd: "decode_header L (sb_header sb) = Inr (blk_header (sb_block sb), [])"
    and st: "0 < (word_of_nat (sb_status sb) :: u32) AND 8" by (simp_all add: stored_ok_def BLOCK_HAVE_DATA_def)
  show "is_block_index_record (fst (index_entry L h sb))" by (simp add: index_entry_def is_block_index_record_def)
  show "index_decode L (snd (index_entry L h sb)) = Ok (stored_record h sb)"
    using index_decode_fields [OF hd, of True "sb_status sb" True "has_undo sb" "sb_version sb" h "length (txdata (sb_block sb))"
        "sb_file sb" "sb_pos sb" "sb_undo sb"] st status_and [OF st]
    by (simp add: index_entry_def stored_record_def has_undo_def BLOCK_HAVE_UNDO_def)
  show "is_valid (stored_record h sb)" using assms by (simp add: is_valid_def stored_record_def stored_ok_def)
qed

lemma valid_recordsI:
  assumes "(k, v) \<in> set entries" and "is_block_index_record k" and "index_decode L v = Ok r" and "is_valid r"
  shows "r \<in> set (valid_records L entries)"
proof -
  have "valid_record L (k, v) = Some r" using assms(2-4) by (simp add: valid_record_def)
  with assms(1) show ?thesis
    unfolding valid_records_def List.map_filter_def by (auto intro!: image_eqI [of _ _ "(k, v)"])
qed

lemma index_stores_loads:
  assumes "index_stores L db sbs" and "list_all (stored_ok L) sbs" and "chain_linked L sbs" and "sbs \<noteq> []" and "length sbs < 2 ^ 31"
  shows "load_block_index L (Inr db) = Ok (stored_records sbs)"
proof -
  let ?V = "valid_records L (ldb_entries db)"
  from assms(1) have D: "entries_decode L (ldb_entries db)" "distinct (map (record_hash L) ?V)"
    and entry: "\<And>h. h < length sbs \<Longrightarrow> index_entry L h (sbs ! h) \<in> set (ldb_entries db)"
    and lower: "\<And>r. r \<in> set ?V \<Longrightarrow> r \<in> set (stored_records sbs) \<or> sint (n_height r) < int (length sbs) - 1"
    by (simp_all add: index_stores_def)
  have here: "stored_record h (sbs ! h) \<in> set ?V" if "h < length sbs" for h
  proof -
    from assms(2) that have "stored_ok L (sbs ! h)" by (simp add: list_all_length)
    from valid_recordsI [OF _ index_entry_decodes [OF this, of h]] entry [OF that] show ?thesis by simp
  qed
  have height: "sint (n_height (stored_record h sb)) = int h" if "h < length sbs" for h sb
    using that assms(5) by (simp add: stored_record_def signed_of_nat signed_take_bit_int_eq_self)
  have "distinct (map (record_hash L) (stored_records sbs))"
  proof (subst distinct_conv_nth, intro allI impI)
    fix i j assume ij: "i < length (map (record_hash L) (stored_records sbs))" "j < length (map (record_hash L) (stored_records sbs))" "i \<noteq> j"
    then have "stored_record i (sbs ! i) \<noteq> stored_record j (sbs ! j)"
      using height [of i "sbs ! i"] height [of j "sbs ! j"] by auto
    with here [of i] here [of j] ij D(2) have "record_hash L (stored_record i (sbs ! i)) \<noteq> record_hash L (stored_record j (sbs ! j))"
      by (auto simp: distinct_map dest: inj_onD simp del: stored_record_hash)
    with ij show "map (record_hash L) (stored_records sbs) ! i \<noteq> map (record_hash L) (stored_records sbs) ! j" by simp
  qed
  then have "is_chain L (stored_records sbs)"
    using assms(3) by (simp add: is_chain_def height chain_linked_def) (simp add: stored_record_def)
  moreover have "set (stored_records sbs) \<subseteq> set ?V" using here by (auto simp: set_conv_nth [of "stored_records sbs"])
  ultimately show ?thesis
    using load_block_index_main [OF D] lower assms(4) by (metis length_0_conv length_stored_records)
qed

text \<open>The name of a block file: its number with five digits at least.\<close>

definition blk_name :: "nat \<Rightarrow> string" where
  "blk_name n = ''blk'' @ replicate (5 - length (decimal n)) (CHR ''0'') @ decimal n @ ''.dat''"

definition blk_path :: "path \<Rightarrow> nat \<Rightarrow> path" where
  "blk_path dir n = dir @ [''blocks'', blk_name n]"

text \<open>
  The mask is the contents of \<open>xor.dat\<close>, when there is one. The blocks directory can be listed, in any order; the
  files of the chain are in it, and no number belongs to two files. In its file, once the mask is removed, a block comes
  after its size, at its position.
\<close>

definition mask_stored :: "filesystem \<Rightarrow> path \<Rightarrow> byte list option \<Rightarrow> bool" where
  "mask_stored fs dir msk \<longleftrightarrow>
     (case msk of
        None \<Rightarrow> \<not> fs_exists fs (dir @ [''blocks'', ''xor.dat''])
      | Some key \<Rightarrow> fs_exists fs (dir @ [''blocks'', ''xor.dat'']) \<and> fs_open fs (dir @ [''blocks'', ''xor.dat'']) = Inr key
          \<and> length key = XOR_MASK_LEN)"

definition files_listed :: "filesystem \<Rightarrow> path \<Rightarrow> stored_block list \<Rightarrow> bool" where
  "files_listed fs dir sbs \<longleftrightarrow>
     (\<exists>entries. fs_read_dir fs (dir @ [''blocks'']) = Inr entries \<and> list_all (entry_readable fs) entries
        \<and> (\<forall>i p q. (i, p) \<in> set (List.map_filter (entry_index fs) entries) \<longrightarrow>
             (i, q) \<in> set (List.map_filter (entry_index fs) entries) \<longrightarrow> p = q)
        \<and> (\<forall>sb \<in> set sbs. Inr \<lparr>de_is_symlink = Inr False, de_path = blk_path dir (sb_file sb)\<rparr> \<in> set entries
             \<and> fs_is_file fs (blk_path dir (sb_file sb))))"

definition block_at :: "filesystem \<Rightarrow> path \<Rightarrow> byte list option \<Rightarrow> stored_block \<Rightarrow> bool" where
  "block_at fs dir msk sb \<longleftrightarrow>
     (\<exists>pre post. fs_open fs (blk_path dir (sb_file sb))
          = Inr (unmask msk (pre @ u32_le (word_of_nat (length (sb_bytes sb))) @ sb_bytes sb @ post))
        \<and> sb_pos sb = length pre + 4)"

text \<open>The whole directory; \<open>Txid::from_str\<close> parses the constant of the source, as documented.\<close>

definition dir_stores ::
  "filesystem \<Rightarrow> bitcoin_lib \<Rightarrow> (path \<Rightarrow> string + leveldb) \<Rightarrow> path \<Rightarrow> byte list option \<Rightarrow> stored_block list \<Rightarrow> bool" where
  "dir_stores fs L leveldb_open dir msk sbs \<longleftrightarrow>
     fs_exists fs dir
     \<and> (\<exists>db. leveldb_open (dir @ [''blocks'', ''index'']) = Inr db \<and> index_stores L db sbs)
     \<and> mask_stored fs dir msk \<and> files_listed fs dir sbs \<and> list_all (block_at fs dir msk) sbs
     \<and> list_all (stored_ok L) sbs \<and> chain_linked L sbs \<and> sbs \<noteq> [] \<and> length sbs < 2 ^ 31"

section \<open>Opening it\<close>

lemma mask_stored_read: "mask_stored fs dir msk \<Longrightarrow> read_xor_mask fs (dir @ [''blocks'']) = Inr msk"
  by (auto simp: mask_stored_def read_xor_mask_eq split: option.splits)

lemma mask_stored_ok: "mask_stored fs dir msk \<Longrightarrow> mask_ok msk"
  by (auto simp: mask_stored_def mask_ok_def split: option.splits)

lemma files_listed_found:
  assumes "files_listed fs dir sbs" and "list_all (stored_ok L) sbs" and "sbs \<noteq> []"
  shows "\<exists>files. scan_blocks_dir fs (dir @ [''blocks'']) = Ok files
    \<and> (\<forall>sb \<in> set sbs. files (word_of_nat (sb_file sb)) = Some (blk_path dir (sb_file sb)))"
proof -
  from assms(1) obtain entries where rd: "fs_read_dir fs (dir @ [''blocks'']) = Inr entries" "list_all (entry_readable fs) entries"
    and uniq: "\<And>i p q. (i, p) \<in> set (List.map_filter (entry_index fs) entries) \<Longrightarrow>
      (i, q) \<in> set (List.map_filter (entry_index fs) entries) \<Longrightarrow> p = q"
    and listed: "\<And>sb. sb \<in> set sbs \<Longrightarrow> Inr \<lparr>de_is_symlink = Inr False, de_path = blk_path dir (sb_file sb)\<rparr> \<in> set entries"
      "\<And>sb. sb \<in> set sbs \<Longrightarrow> fs_is_file fs (blk_path dir (sb_file sb))"
    unfolding files_listed_def by blast
  let ?found = "List.map_filter (entry_index fs) entries"
  have here: "(word_of_nat (sb_file sb), blk_path dir (sb_file sb)) \<in> set ?found" if sb: "sb \<in> set sbs" for sb
  proof -
    from assms(2) sb have "sb_file sb < 2 ^ 31" by (simp add: list_all_iff stored_ok_def)
    from parse_blk_index_roundtrip [OF this, of "dir @ [''blocks'']"]
    have "parse_blk_index (blk_path dir (sb_file sb)) = Some (word_of_nat (sb_file sb))"
      by (simp add: blk_path_def blk_name_def)
    then have "entry_index fs (Inr \<lparr>de_is_symlink = Inr False, de_path = blk_path dir (sb_file sb)\<rparr>)
        = Some (word_of_nat (sb_file sb), blk_path dir (sb_file sb))"
      using listed(2) [OF sb] by (simp add: entry_index_def resolve_path_def)
    with listed(1) [OF sb] show ?thesis by (force simp: List.map_filter_def)
  qed
  then have "?found \<noteq> []" using assms(3) by (cases sbs) fastforce+
  then have "scan_blocks_dir fs (dir @ [''blocks'']) = Ok (map_of (rev ?found))"
    using scan_blocks_dir_eq [OF rd] by (simp add: Let_def)
  moreover have "map_of (rev ?found) (word_of_nat (sb_file sb)) = Some (blk_path dir (sb_file sb))" if sb: "sb \<in> set sbs" for sb
  proof -
    from here [OF sb] have "word_of_nat (sb_file sb) \<in> fst ` set (rev ?found)" by (force intro: image_eqI)
    then obtain p where p: "map_of (rev ?found) (word_of_nat (sb_file sb)) = Some p" by (meson map_of_eq_None_iff not_None_eq)
    from uniq [OF _ here [OF sb]] map_of_SomeD [OF p] p show ?thesis by simp
  qed
  ultimately show ?thesis by blast
qed

text \<open>The handle to it.\<close>

definition handle_of :: "path \<Rightarrow> byte list option \<Rightarrow> stored_block list \<Rightarrow> bitcoin_db \<Rightarrow> bool" where
  "handle_of dir msk sbs db \<longleftrightarrow>
     bi_records (db_block_index db) = stored_records sbs \<and> bf_xor_mask (db_blk_file db) = msk
     \<and> (\<forall>sb \<in> set sbs. bf_files (db_blk_file db) (word_of_nat (sb_file sb)) = Some (blk_path dir (sb_file sb)))"

lemma dir_stores_opens:
  assumes dir: "dir_stores fs L leveldb_open dir msk sbs" and "from_str GENESIS_TXID = Inr genesis"
  shows "\<exists>db. bitcoin_db_new fs L leveldb_open from_str dir tx_index = Ok db \<and> handle_of dir msk sbs db"
proof -
  from dir obtain ldb where ldb: "leveldb_open (dir @ [''blocks'', ''index'']) = Inr ldb" and "index_stores L ldb sbs"
    and rest: "list_all (stored_ok L) sbs" "chain_linked L sbs" "sbs \<noteq> []" "length sbs < 2 ^ 31"
      "mask_stored fs dir msk" "files_listed fs dir sbs" "fs_exists fs dir"
    unfolding dir_stores_def by blast
  from index_stores_loads [OF this(2) rest(1-4)] obtain bi where bi: "block_index_new L (Inr ldb) = Ok bi"
    and records: "bi_records bi = stored_records sbs" by (auto simp: block_index_new_def)
  obtain files where files: "scan_blocks_dir fs (dir @ [''blocks'']) = Ok files"
    "\<forall>sb \<in> set sbs. files (word_of_nat (sb_file sb)) = Some (blk_path dir (sb_file sb))"
    using files_listed_found [OF rest(6,1,3)] by blast
  have bf: "blk_file_new fs (dir @ [''blocks'']) = Ok \<lparr>bf_files = files, bf_xor_mask = msk\<rparr>"
    by (simp add: blk_file_new_def mask_stored_read [OF rest(5)] files(1))
  have "\<exists>td. tx_db_open from_str ex opened bi = Ok td" for ex opened
    by (auto simp: tx_db_open_def assms(2) split: sum.split)
  then obtain td where "(if tx_index then tx_db_open from_str (fs_exists fs (dir @ [''indexes'', ''txindex'']))
      (leveldb_open (dir @ [''indexes'', ''txindex''])) bi else Ok None) = Ok td" by fastforce
  then have "bitcoin_db_new fs L leveldb_open from_str dir tx_index
      = Ok \<lparr>db_blk_file = \<lparr>bf_files = files, bf_xor_mask = msk\<rparr>, db_block_index = bi, db_tx_db = td\<rparr>"
    using rest(7) by (cases tx_index) (simp_all add: bitcoin_db_new_def Let_def ldb bi bf)
  with records files(2) show ?thesis by (simp add: handle_of_def)
qed

lemma dir_stores_raw_block:
  assumes dir: "dir_stores fs L leveldb_open dir msk sbs" and db: "handle_of dir msk sbs db" and "h < length sbs"
  shows "get_raw_block fs db h = Ok (sb_bytes (sbs ! h))" and "get_block fs L Ok db h = Ok (sb_block (sbs ! h))"
proof -
  let ?sb = "sbs ! h"
  from dir assms(3) have sb: "?sb \<in> set sbs" "stored_ok L ?sb" "block_at fs dir msk ?sb" "mask_ok msk"
    by (auto simp: dir_stores_def list_all_length mask_stored_ok)
  from sb(3) obtain pre post where disk: "fs_open fs (blk_path dir (sb_file ?sb))
      = Inr (unmask msk (pre @ u32_le (word_of_nat (length (sb_bytes ?sb))) @ sb_bytes ?sb @ post))"
    and pos: "sb_pos ?sb = length pre + 4" unfolding block_at_def by blast
  have "blk_view fs (db_blk_file db) (word_of_nat (sb_file ?sb))
      = Some (pre @ u32_le (word_of_nat (length (sb_bytes ?sb))) @ sb_bytes ?sb @ post)"
    using db sb(1) by (simp add: blk_view_def handle_of_def disk)
  from read_raw_block_layout [OF _ this] sb(2,4) pos db
  have raw: "read_raw_block fs (db_blk_file db) (word_of_nat (sb_file ?sb)) (word_of_nat (sb_pos ?sb)) = Ok (sb_bytes ?sb)"
    by (simp add: stored_ok_def handle_of_def)
  have rec: "slice_get (bi_records (db_block_index db)) h = Some (stored_record h ?sb)"
    using assms(3) db by (simp add: handle_of_def)
  show "get_raw_block fs db h = Ok (sb_bytes (sbs ! h))"
    unfolding get_raw_block_def rec by (simp add: stored_record_def raw)
  show "get_block fs L Ok db h = Ok (sb_block (sbs ! h))"
    unfolding get_block_def rec using sb(2) by (simp add: stored_record_def read_block_of_raw [OF raw] stored_ok_def)
qed

lemma dir_stores_readable:
  assumes "dir_stores fs L leveldb_open dir msk sbs" and "handle_of dir msk sbs db"
  shows "chain_readable_at fs L db (map sb_block sbs) {..<length sbs} n"
proof -
  have "\<exists>e. get_block fs L Ok db h = Err e" if "\<not> h < length sbs" for h
    using that assms(2) by (simp add: get_block_def slice_get_def handle_of_def)
  with dir_stores_raw_block(2) [OF assms] show ?thesis by (simp add: chain_readable_at_def)
qed

section \<open>Properties\<close>

text \<open>
  C4. What Bitcoin Core stored is what the queries return. A data directory that stores a chain, with or without the
  obfuscation of its block files, among blocks off the chain and headers without blocks, is opened, and
  at every height of the chain there are its hash, its height by hash, its bytes and its decoded block, and above there is nothing.
\<close>

theorem data_dir_roundtrip:
  assumes "dir_stores fs L leveldb_open dir msk sbs" and "from_str GENESIS_TXID = Inr genesis"
  shows "\<exists>db. bitcoin_db_new fs L leveldb_open from_str dir tx_index = Ok db
    \<and> get_max_height db = length sbs
    \<and> (\<forall>h < length sbs. get_hash_from_height L db h = Ok (sb_hash L (sbs ! h))
        \<and> get_height_from_hash db (sb_hash L (sbs ! h)) = Ok h
        \<and> get_raw_block fs db h = Ok (sb_bytes (sbs ! h))
        \<and> get_block fs L Ok db h = Ok (sb_block (sbs ! h)))
    \<and> (\<forall>h \<ge> length sbs. get_block fs L Ok db h = Err (BlockIndexRecordNotFound h))"
proof -
  obtain db where new: "bitcoin_db_new fs L leveldb_open from_str dir tx_index = Ok db"
    and handle: "handle_of dir msk sbs db" using dir_stores_opens [where from_str = from_str, OF assms] by blast
  from handle have db: "bi_records (db_block_index db) = stored_records sbs" by (simp add: handle_of_def)
  note ok = bitcoin_db_new_db_ok [OF new]
  have "get_hash_from_height L db h = Ok (sb_hash L (sbs ! h)) \<and> get_height_from_hash db (sb_hash L (sbs ! h)) = Ok h"
    if "h < length sbs" for h
  proof -
    from that have h: "h < length (bi_records (db_block_index db))" by (simp add: db)
    with ok have "bi_hash_to_height (db_block_index db) (record_hash L (stored_record h (sbs ! h)))
        = Some (n_height (stored_record h (sbs ! h)))"
      unfolding db_ok_def db using that stored_records_nth [OF that] by metis
    with db_ok_height [OF ok h] that show ?thesis
      by (simp add: get_height_from_hash_def get_hash_from_height_def slice_get_def db record_hash_def [symmetric])
  qed
  moreover have "get_block fs L Ok db h = Err (BlockIndexRecordNotFound h)" if "length sbs \<le> h" for h
    using that by (simp add: get_block_def slice_get_def db)
  ultimately show ?thesis
    using new dir_stores_raw_block [OF assms(1) handle] by (simp add: get_max_height_def db)
qed

text \<open>
  C3. From the data directory to the connected blocks: when the chain it stores is sound, it is opened, and under every
  schedule of its threads \<open>connected_block_iter\<close> yields the chain, each input replaced by the output it spends, up to
  the first block with an input that spends nothing, in both formats.
\<close>

theorem data_dir_connected_iter:
  assumes "dir_stores fs L leveldb_open dir msk sbs" and "from_str GENESIS_TXID = Inr genesis"
    and "p2pk_doc S" and "sound_chain L (map sb_block sbs)"
  shows "\<exists>db. bitcoin_db_new fs L leveldb_open from_str dir tx_index = Ok db
    \<and> (\<forall>n yielded. mem_connected_block_iter fs L (full_tx_impl L S) full_block_impl db n yielded \<longleftrightarrow>
         yielded = map (full_ideal L S (map sb_block sbs))
           (take (readable_prefix (connectable_heights L (map sb_block sbs)) n) (map sb_block sbs)))
    \<and> (\<forall>n yielded. mem_connected_block_iter fs L (compact_tx_impl L S) compact_block_impl db n yielded \<longleftrightarrow>
         yielded = map (compact_ideal L S (map sb_block sbs))
           (take (readable_prefix (connectable_heights L (map sb_block sbs)) n) (map sb_block sbs)))"
proof -
  obtain db where new: "bitcoin_db_new fs L leveldb_open from_str dir tx_index = Ok db"
    and db: "handle_of dir msk sbs db" using dir_stores_opens [where from_str = from_str, OF assms(1,2)] by blast
  note readable = dir_stores_readable [OF assms(1) db]
  have "{..<length sbs} \<inter> connectable_heights L (map sb_block sbs) = connectable_heights L (map sb_block sbs)"
    by (auto simp: connectable_heights_def)
  then have "connected_prefix L (map sb_block sbs) {..<length sbs} n = readable_prefix (connectable_heights L (map sb_block sbs)) n" for n
    by (simp add: connected_prefix_def)
  with new mem_full_yields [OF assms(3,4) readable] mem_compact_yields [OF assms(3,4) readable] show ?thesis by simp
qed

end
