(* ===== verification/Data_Dir_Lookup.thy ===== *)
theory Data_Dir_Lookup
  imports Data_Dir
begin

text \<open>
  The same directory with a transaction index that has the position of every transaction of the chain but the genesis one.
  What looking an input up gives is stated on the chain itself (\<open>lookup_output\<close>), with what the code makes of an input that names
  the genesis transaction; the handle connects blocks and transactions exactly so, in every case. On a chain whose inputs spend
  as the consensus rules ask (\<open>inputs_spend\<close>) that is what the iterator yields.
\<close>

section \<open>The transaction index of a chain\<close>

text \<open>A transaction starts \<open>off\<close> bytes after the header of its block, and decodes whatever follows it in the file.\<close>

definition tx_at :: "bitcoin_lib \<Rightarrow> stored_block \<Rightarrow> nat \<Rightarrow> transaction \<Rightarrow> bool" where
  "tx_at L sb off tx \<longleftrightarrow> off + 80 \<le> length (sb_bytes sb)
     \<and> (\<forall>post. \<exists>left. decode_transaction L (drop (off + 80) (sb_bytes sb) @ post) = Inr (tx, left))"

text \<open>
  Under the key of a txid of the chain is the place of a transaction with that txid, and under other txids there
  is nothing; the genesis transaction is not indexed.
\<close>

definition txindex_stores :: "bitcoin_lib \<Rightarrow> leveldb \<Rightarrow> hash256 \<Rightarrow> stored_block list \<Rightarrow> bool" where
  "txindex_stores L tdb genesis sbs \<longleftrightarrow>
     (\<forall>t. t \<noteq> genesis \<longrightarrow>
        (if t \<in> compute_txid L ` set (chain_txs (map sb_block sbs)) then
           (\<exists>sb \<in> set sbs. \<exists>tx \<in> set (txdata (sb_block sb)). \<exists>off rest. compute_txid L tx = t \<and> off < 2 ^ 32 \<and> tx_at L sb off tx
              \<and> ldb_get tdb (0x74 # t)
                = Inr (Some (varint_bytes (sb_file sb) @ varint_bytes (sb_pos sb) @ varint_bytes off @ rest)))
         else ldb_get tdb (0x74 # t) = Inr None))"

definition dir_indexed ::
  "filesystem \<Rightarrow> bitcoin_lib \<Rightarrow> (path \<Rightarrow> string + leveldb) \<Rightarrow> path \<Rightarrow> hash256 \<Rightarrow> stored_block list \<Rightarrow> bool" where
  "dir_indexed fs L leveldb_open dir genesis sbs \<longleftrightarrow>
     fs_exists fs (dir @ [''indexes'', ''txindex''])
     \<and> (\<exists>tdb. leveldb_open (dir @ [''indexes'', ''txindex'']) = Inr tdb \<and> txindex_stores L tdb genesis sbs)"

text \<open>The genesis block has its transaction, with an output.\<close>

definition genesis_whole :: "block list \<Rightarrow> bool" where
  "genesis_whole blks \<longleftrightarrow> (blks \<noteq> [] \<longrightarrow> txdata (hd blks) \<noteq> [] \<and> tx_output (hd (txdata (hd blks))) \<noteq> [])"

text \<open>
  What the consensus rules say of the inputs: only a coinbase has a null input, and the output of the genesis transaction
  is not spent; and the genesis block is whole.
\<close>

definition inputs_spend :: "bitcoin_lib \<Rightarrow> hash256 \<Rightarrow> block list \<Rightarrow> bool" where
  "inputs_spend L genesis blks \<longleftrightarrow>
     (\<forall>blk \<in> set blks. \<forall>tx \<in> set (txdata blk). \<not> is_coinbase L tx \<longrightarrow>
        (\<forall>i \<in> set (tx_input tx). \<not> is_null L (previous_output i) \<and> op_txid (previous_output i) \<noteq> genesis))
     \<and> genesis_whole blks"

section \<open>The chain as it is looked up\<close>

text \<open>
  What looking up an outpoint gives, on the chain itself: nothing for a null one; for one that names the genesis transaction the first
  output of the first transaction of block 0, whatever the number; and otherwise the output of the chain it names.
\<close>

definition lookup_output :: "bitcoin_lib \<Rightarrow> hash256 \<Rightarrow> block list \<Rightarrow> outpoint \<Rightarrow> txout option" where
  "lookup_output L genesis blks p =
     (if is_null L p then None
      else if op_txid p = genesis then Some (hd (tx_output (hd (txdata (hd blks)))))
      else chain_outputs L blks p)"

definition lookup_inputs :: "bitcoin_lib \<Rightarrow> hash256 \<Rightarrow> block list \<Rightarrow> transaction \<Rightarrow> txout option list" where
  "lookup_inputs L genesis blks tx =
     (if is_coinbase L tx then [] else map (\<lambda>i. lookup_output L genesis blks (previous_output i)) (tx_input tx))"

text \<open>A transaction gets all of its outputs or reports how many were found; of a block the first transaction that lacks one is reported.\<close>

definition tx_by_lookup ::
  "bitcoin_lib \<Rightarrow> hash256 \<Rightarrow> block list \<Rightarrow> (txout \<Rightarrow> 'out) \<Rightarrow> (transaction \<Rightarrow> 'out list \<Rightarrow> 'tx) \<Rightarrow> transaction \<Rightarrow> 'tx result" where
  "tx_by_lookup L genesis blks conv build tx =
     (let outs = lookup_inputs L genesis blks tx
      in if None \<in> set outs then Err (MissingOutputs (length outs) (length (filter (\<lambda>out. out \<noteq> None) outs)))
         else Ok (build tx (map (\<lambda>out. conv (the out)) outs)))"

definition block_by_lookup ::
  "bitcoin_lib \<Rightarrow> hash256 \<Rightarrow> block list \<Rightarrow> (txout \<Rightarrow> 'out) \<Rightarrow> (transaction \<Rightarrow> 'out list \<Rightarrow> 'tx) \<Rightarrow> (header \<Rightarrow> 'tx list \<Rightarrow> 'blk) \<Rightarrow> block \<Rightarrow> 'blk result" where
  "block_by_lookup L genesis blks conv build mk blk =
     bind_result (mapM_result (tx_by_lookup L genesis blks conv build) (txdata blk)) (\<lambda>txs. Ok (mk (blk_header blk) txs))"

text \<open>A block is connected exactly when every input is found.\<close>

lemma block_by_lookup_find:
  "block_by_lookup L genesis blks conv build mk blk =
    (case find (\<lambda>tx. None \<in> set (lookup_inputs L genesis blks tx)) (txdata blk) of
       None \<Rightarrow> Ok (mk (blk_header blk) (map (\<lambda>tx. build tx (map (\<lambda>out. conv (the out)) (lookup_inputs L genesis blks tx))) (txdata blk)))
     | Some tx \<Rightarrow> Err (MissingOutputs (length (lookup_inputs L genesis blks tx))
         (length (filter (\<lambda>out. out \<noteq> None) (lookup_inputs L genesis blks tx)))))"
  by (simp add: block_by_lookup_def tx_by_lookup_def [abs_def] Let_def mapM_result_find split: option.split)

lemma length_found: "length (List.map_filter f xs) = length (filter (\<lambda>out. out \<noteq> None) (map f xs))"
  by (simp add: List.map_filter_def filter_map comp_def)

context connected_tx
begin

lemma connect_by_lookup:
  assumes "good" and "mask_ok (bf_xor_mask bf)" and "genesis_readable fs L bi bf" and "rayon_doc R" and "coinbase_doc L"
    and "\<And>i. resolved fs L td bi bf i = lookup_output L genesis blks (previous_output i)"
  shows "connect R fs tx td bi bf = tx_by_lookup L genesis blks conv build tx"
  unfolding connect_all_or_error [OF assms(1-5)] tx_by_lookup_def lookup_inputs_def Let_def assms(6) length_found
  by (auto simp: comp_def) (metis image_eqI)+

end

context connected_block
begin

lemma bconnect_by_lookup:
  assumes "good" and "mask_ok (bf_xor_mask bf)" and "genesis_readable fs L bi bf" and "rayon_doc R" and "coinbase_doc L"
    and "\<And>i. resolved fs L td bi bf i = lookup_output L genesis blks (previous_output i)"
  shows "bconnect R fs blk td bi bf = block_by_lookup L genesis blks conv build mk blk"
  by (simp add: bconnect_eq connect_block_inputs_per_tx [OF assms(1-4)] connect_by_lookup [OF assms] block_by_lookup_def)

end

text \<open>A transaction of a block that is connected is one of the connected block.\<close>

lemma block_by_lookup_tx:
  assumes "block_by_lookup L genesis blks conv build mk blk = Ok cb" and "tx \<in> set (txdata blk)"
  shows "\<exists>txs ct. cb = mk (blk_header blk) txs \<and> tx_by_lookup L genesis blks conv build tx = Ok ct \<and> ct \<in> set txs"
proof -
  from assms(1) obtain txs where "list_all2 (\<lambda>tx ct. tx_by_lookup L genesis blks conv build tx = Ok ct) (txdata blk) txs"
    and cb: "cb = mk (blk_header blk) txs"
    by (auto simp: block_by_lookup_def bind_result_eq_Ok mapM_result_eq_Ok)
  from this(1) assms(2) have "\<exists>ct \<in> set txs. tx_by_lookup L genesis blks conv build tx = Ok ct"
    by (auto simp: list_all2_conv_all_nth in_set_conv_nth)
  with cb show ?thesis by blast
qed

section \<open>Looking up\<close>

lemma new_tx_db:
  assumes "bitcoin_db_new fs L leveldb_open from_str dir True = Ok db" and "from_str GENESIS_TXID = Inr genesis"
    and "fs_exists fs (dir @ [''indexes'', ''txindex''])" and "leveldb_open (dir @ [''indexes'', ''txindex'']) = Inr tdb"
  shows "\<exists>td. db_tx_db db = Some td \<and> td_db td = tdb \<and> td_genesis_txid td = genesis"
  using assms by (auto simp: bitcoin_db_new_def Let_def result_simps tx_db_open_def split: if_splits)

lemma dir_opens_indexed:
  assumes "dir_stores fs L leveldb_open dir msk sbs" and "from_str GENESIS_TXID = Inr genesis"
    and "dir_indexed fs L leveldb_open dir genesis sbs"
  obtains db td where "bitcoin_db_new fs L leveldb_open from_str dir True = Ok db" and "handle_of dir msk sbs db"
    and "db_tx_db db = Some td" and "td_genesis_txid td = genesis" and "txindex_stores L (td_db td) genesis sbs"
proof -
  obtain db where new: "bitcoin_db_new fs L leveldb_open from_str dir True = Ok db" and handle: "handle_of dir msk sbs db"
    using dir_stores_opens [where from_str = from_str, OF assms(1,2)] by blast
  from assms(3) obtain tdb where "fs_exists fs (dir @ [''indexes'', ''txindex''])"
    "leveldb_open (dir @ [''indexes'', ''txindex'']) = Inr tdb" and index: "txindex_stores L tdb genesis sbs"
    unfolding dir_indexed_def by blast
  from new_tx_db [OF new assms(2) this(1,2)] obtain td where td: "db_tx_db db = Some td" "td_db td = tdb" "td_genesis_txid td = genesis"
    by blast
  with that [of db td] new handle index show thesis by simp
qed

lemma dir_stores_view:
  assumes "dir_stores fs L leveldb_open dir msk sbs" and "handle_of dir msk sbs db" and "sb \<in> set sbs"
  shows "\<exists>pre post. blk_view fs (db_blk_file db) (word_of_nat (sb_file sb)) = Some (pre @ sb_bytes sb @ post) \<and> sb_pos sb = length pre"
proof -
  from assms(1,3) have "block_at fs dir msk sb" by (simp add: dir_stores_def list_all_iff)
  then obtain pre post where disk: "fs_open fs (blk_path dir (sb_file sb))
      = Inr (unmask msk (pre @ u32_le (word_of_nat (length (sb_bytes sb))) @ sb_bytes sb @ post))"
    and pos: "sb_pos sb = length pre + 4" unfolding block_at_def by blast
  have "blk_view fs (db_blk_file db) (word_of_nat (sb_file sb))
      = Some ((pre @ u32_le (word_of_nat (length (sb_bytes sb)))) @ sb_bytes sb @ post)"
    using assms(2,3) by (simp add: blk_view_def handle_of_def disk)
  moreover have "sb_pos sb = length (pre @ u32_le (word_of_nat (length (sb_bytes sb))))" by (simp add: pos u32_le_def)
  ultimately show ?thesis by blast
qed

lemma chain_outputs_other:
  assumes "op_txid p \<notin> compute_txid L ` set (chain_txs blks)"
  shows "chain_outputs L blks p = None"
proof -
  have "op_txid q \<in> compute_txid L ` set (chain_txs blks)" if "q \<in> fst ` set (concat (map (tx_outputs L) (chain_txs blks)))" for q
    using that by (auto simp: tx_outputs_def)
  with assms show ?thesis
    unfolding chain_outputs_def concat_block_outputs map_of_eq_None_iff by blast
qed

text \<open>Where the index leads for a txid of the chain: to a transaction with that txid, in the block it names.\<close>

lemma dir_position:
  assumes dir: "dir_stores fs L leveldb_open dir msk sbs" and handle: "handle_of dir msk sbs db"
    and index: "txindex_stores L tdb genesis sbs"
    and t: "t \<in> compute_txid L ` set (chain_txs (map sb_block sbs))" "t \<noteq> genesis"
  obtains h tx off rest v left where "h < length sbs" and "tx \<in> set (txdata (sb_block (sbs ! h)))" and "compute_txid L tx = t"
    and "off < 2 ^ 32" and "ldb_get tdb (0x74 # t)
      = Inr (Some (varint_bytes (sb_file (sbs ! h)) @ varint_bytes (sb_pos (sbs ! h)) @ varint_bytes off @ rest))"
    and "blk_view fs (db_blk_file db) (word_of_nat (sb_file (sbs ! h))) = Some v"
    and "decode_transaction L (drop (sb_pos (sbs ! h) + off + 80) v) = Inr (tx, left)" and "sb_pos (sbs ! h) < 2 ^ 32"
proof -
  from index t obtain sb tx off rest where sb: "sb \<in> set sbs" and tx: "tx \<in> set (txdata (sb_block sb))"
    "compute_txid L tx = t" and off: "off < 2 ^ 32" "tx_at L sb off tx"
    and get: "ldb_get tdb (0x74 # t) = Inr (Some (varint_bytes (sb_file sb) @ varint_bytes (sb_pos sb) @ varint_bytes off @ rest))"
    unfolding txindex_stores_def by meson
  from sb obtain h where h: "h < length sbs" "sb = sbs ! h" by (auto simp: in_set_conv_nth)
  from dir_stores_view [OF dir handle sb] obtain pre post where
    view: "blk_view fs (db_blk_file db) (word_of_nat (sb_file sb)) = Some (pre @ sb_bytes sb @ post)" and pos: "sb_pos sb = length pre"
    by blast
  have "drop (sb_pos sb + off + 80) (pre @ sb_bytes sb @ post) = drop (off + 80) (sb_bytes sb) @ post"
    using off(2) by (simp add: pos tx_at_def)
  with off(2) obtain left where "decode_transaction L (drop (sb_pos sb + off + 80) (pre @ sb_bytes sb @ post)) = Inr (tx, left)"
    unfolding tx_at_def by metis
  moreover have "sb_pos sb < 2 ^ 32" using dir sb by (auto simp: dir_stores_def list_all_iff stored_ok_def)
  ultimately show thesis using that [of h tx off rest "pre @ sb_bytes sb @ post"] h tx off(1) get view by simp
qed

lemma dir_mask_ok: "dir_stores fs L leveldb_open dir msk sbs \<Longrightarrow> handle_of dir msk sbs db \<Longrightarrow> mask_ok (bf_xor_mask (db_blk_file db))"
  by (auto simp: dir_stores_def handle_of_def mask_stored_ok)

lemma dir_resolves:
  assumes dir: "dir_stores fs L leveldb_open dir msk sbs" and handle: "handle_of dir msk sbs db"
    and index: "txindex_stores L (td_db td) genesis sbs" and "td_genesis_txid td = genesis"
    and sound: "sound_blocks L (map sb_block sbs)"
    and i: "\<not> is_null L (previous_output i)" "op_txid (previous_output i) \<noteq> genesis"
  shows "resolved fs L td bi (db_blk_file db) i = chain_outputs L (map sb_block sbs) (previous_output i)"
proof (cases "op_txid (previous_output i) \<in> compute_txid L ` set (chain_txs (map sb_block sbs))")
  case False
  with index i(2) have "ldb_get (td_db td) (0x74 # op_txid (previous_output i)) = Inr None" by (simp add: txindex_stores_def)
  then have "connect_input fs L td bi (db_blk_file db) i = Ok None"
    using i assms(4) by (simp add: connect_input_def is_coin_base_def is_genesis_tx_def get_tx_position_def Let_def)
  then show ?thesis using chain_outputs_other [OF False] by (simp add: resolved_def)
next
  case True
  from i(2) assms(4) have "\<not> is_genesis_tx td (op_txid (previous_output i))" by (simp add: is_genesis_tx_def)
  note found = connect_input_at_position [OF dir_mask_ok [OF dir handle] i(1) this]
  obtain h tx off rest v left where h: "h < length sbs" and tx: "tx \<in> set (txdata (sb_block (sbs ! h)))"
    "compute_txid L tx = op_txid (previous_output i)" and off: "off < 2 ^ 32"
    and at: "ldb_get (td_db td) (0x74 # op_txid (previous_output i))
      = Inr (Some (varint_bytes (sb_file (sbs ! h)) @ varint_bytes (sb_pos (sbs ! h)) @ varint_bytes off @ rest))"
    "blk_view fs (db_blk_file db) (word_of_nat (sb_file (sbs ! h))) = Some v"
    "decode_transaction L (drop (sb_pos (sbs ! h) + off + 80) v) = Inr (tx, left)" "sb_pos (sbs ! h) < 2 ^ 32"
    by (rule dir_position [OF dir handle index True i(2)])
  from chain_txs_nth [of h "map sb_block sbs" tx] h tx(1) have chain: "tx \<in> set (chain_txs (map sb_block sbs))" by simp
  note len = sound_blocksD(2) [OF sound chain]
  from found [OF at(1,4) off at(2,3) len]
  have "resolved fs L td bi (db_blk_file db) i = (let n = unat (op_vout (previous_output i))
      in if n < length (tx_output tx) then Some (tx_output tx ! n) else None)"
    by (simp add: resolved_def Let_def)
  also have "\<dots> = map_of (tx_outputs L tx) (previous_output i)"
    by (simp add: map_of_tx_outputs [OF len] tx(2) Let_def)
  also have "\<dots> = chain_outputs L (map sb_block sbs) (previous_output i)"
    by (rule chain_tx_outputs [OF sound chain tx(2) [symmetric]])
  finally show ?thesis .
qed

text \<open>No two blocks of the chain are at the same place, as they would be the same block.\<close>

lemma stored_hashes_differ:
  assumes dir: "dir_stores fs L leveldb_open dir msk sbs" and ij: "i < length sbs" "j < length sbs" "sb_hash L (sbs ! i) = sb_hash L (sbs ! j)"
  shows "i = j"
proof -
  from dir obtain db where "index_stores L db sbs" unfolding dir_stores_def by blast
  from index_stores_loads [OF this] dir have "load_block_index L (Inr db) = Ok (stored_records sbs)" by (simp add: dir_stores_def)
  from load_block_index_Ok [OF this] have "distinct (map (record_hash L) (stored_records sbs))" by (simp add: is_chain_def)
  from nth_eq_iff_index_eq [OF this, of i j] ij show ?thesis by simp
qed

lemma dir_places_differ:
  assumes dir: "dir_stores fs L leveldb_open dir msk sbs" and handle: "handle_of dir msk sbs db"
  shows "distinct (map (\<lambda>r. (n_file r, n_data_pos r)) (bi_records (db_block_index db)))"
proof (subst distinct_conv_nth, intro allI impI notI)
  from handle have records: "bi_records (db_block_index db) = stored_records sbs" by (simp add: handle_of_def)
  let ?place = "\<lambda>r. (n_file r, n_data_pos r)"
  fix i j
  assume ij: "i < length (map ?place (bi_records (db_block_index db)))" "j < length (map ?place (bi_records (db_block_index db)))" "i \<noteq> j"
    and same: "map ?place (bi_records (db_block_index db)) ! i = map ?place (bi_records (db_block_index db)) ! j"
  from ij have lt: "i < length sbs" "j < length sbs" by (simp_all add: records)
  with same have "get_block fs L Ok db i = get_block fs L Ok db j" by (simp add: get_block_def slice_get_def records)
  with dir_stores_raw_block(2) [OF dir handle] lt have "sb_block (sbs ! i) = sb_block (sbs ! j)" by simp
  with stored_hashes_differ [OF dir lt] ij(3) show False by (simp add: sb_hash_def)
qed

lemma dir_index_agrees:
  assumes "dir_stores fs L leveldb_open dir msk sbs" and "handle_of dir msk sbs db"
    and "txindex_stores L (td_db td) genesis sbs" and "td_genesis_txid td = genesis"
    and "sound_blocks L (map sb_block sbs)" and "inputs_spend L genesis (map sb_block sbs)"
  shows "index_agrees fs L td db (map sb_block sbs)"
  unfolding index_agrees_def
proof (intro ballI impI)
  fix blk tx i
  assume "blk \<in> set (map sb_block sbs)" "tx \<in> set (txdata blk)" "\<not> is_coinbase L tx" "i \<in> set (tx_input tx)"
  with assms(6) have i: "\<not> is_null L (previous_output i)" "op_txid (previous_output i) \<noteq> genesis"
    unfolding inputs_spend_def by blast+
  with dir_resolves [OF assms(1-5) i] show "\<not> is_null L (previous_output i)
    \<and> resolved fs L td (db_block_index db) (db_blk_file db) i = chain_outputs L (map sb_block sbs) (previous_output i)" by blast
qed

lemma dir_genesis_block:
  assumes dir: "dir_stores fs L leveldb_open dir msk sbs" and db: "handle_of dir msk sbs db"
  obtains pos ps where "bi_records (db_block_index db) = pos # ps"
    and "read_block fs L (db_blk_file db) (n_file pos) (n_data_pos pos) = Ok (sb_block (hd sbs))"
proof -
  from dir obtain sb rest where sbs: "sbs = sb # rest" by (cases sbs) (auto simp: dir_stores_def)
  from db have records: "bi_records (db_block_index db) = stored_record 0 sb # map (\<lambda>(h, s). stored_record h s) (enumerate 1 rest)"
    by (simp add: handle_of_def stored_records_def sbs)
  from dir_stores_raw_block(2) [OF dir db, of 0]
  have "read_block fs L (db_blk_file db) (n_file (stored_record 0 sb)) (n_data_pos (stored_record 0 sb)) = Ok (sb_block sb)"
    by (simp add: sbs get_block_def slice_get_def records bind_result_eq_Ok)
  with that records show thesis by (simp add: sbs)
qed

lemma hd_blocks: "dir_stores fs L leveldb_open dir msk sbs \<Longrightarrow> hd (map sb_block sbs) = sb_block (hd sbs) \<and> sbs \<noteq> []"
  by (auto simp: dir_stores_def hd_map)

lemma dir_genesis_readable:
  assumes "dir_stores fs L leveldb_open dir msk sbs" and "handle_of dir msk sbs db" and "genesis_whole (map sb_block sbs)"
  shows "genesis_readable fs L (db_block_index db) (db_blk_file db)"
  by (rule dir_genesis_block [OF assms(1,2)])
    (use assms(3) hd_blocks [OF assms(1)] in \<open>simp add: genesis_readable_def genesis_whole_def\<close>)

text \<open>An input is resolved to what looking up its outpoint on the chain gives, whatever the input.\<close>

lemma dir_looks_up:
  assumes dir: "dir_stores fs L leveldb_open dir msk sbs" and handle: "handle_of dir msk sbs db"
    and "txindex_stores L (td_db td) genesis sbs" and genesis: "td_genesis_txid td = genesis"
    and "sound_blocks L (map sb_block sbs)" and whole: "genesis_whole (map sb_block sbs)"
  shows "resolved fs L td (db_block_index db) (db_blk_file db) i = lookup_output L genesis (map sb_block sbs) (previous_output i)"
proof (cases "is_null L (previous_output i) \<or> op_txid (previous_output i) \<noteq> genesis")
  case True
  then show ?thesis
    using dir_resolves [OF assms(1-5), of i]
    by (auto simp: lookup_output_def resolved_def connect_input_def is_coin_base_def)
next
  case False
  obtain pos ps where "bi_records (db_block_index db) = pos # ps"
    "read_block fs L (db_blk_file db) (n_file pos) (n_data_pos pos) = Ok (sb_block (hd sbs))"
    by (rule dir_genesis_block [OF dir handle])
  moreover have "txdata (sb_block (hd sbs)) \<noteq> []" "tx_output (hd (txdata (sb_block (hd sbs)))) \<noteq> []"
    using whole hd_blocks [OF dir] by (simp_all add: genesis_whole_def)
  ultimately show ?thesis
    using False genesis hd_blocks [OF dir]
    by (simp add: lookup_output_def resolved_def connect_input_def is_coin_base_def is_genesis_tx_def swap_remove_def
        Let_def hd_conv_nth [symmetric])
qed

lemma dir_not_indexed:
  assumes "txindex_stores L (td_db td) genesis sbs" and "db_tx_db db = Some td" and "td_genesis_txid td = genesis"
    and "t \<notin> compute_txid L ` set (chain_txs (map sb_block sbs))" and "t \<noteq> genesis"
  shows "get_transaction fs L conv db t = Err (TransactionRecordNotFound t)"
proof -
  from assms(1,4,5) have "ldb_get (td_db td) (0x74 # t) = Inr None" by (simp add: txindex_stores_def)
  then show ?thesis
    using assms(2,3,5) by (simp add: get_transaction_def is_genesis_tx_def get_tx_position_def Let_def)
qed

text \<open>A transaction with a txid of the chain is found, and the height of a block that has it; the genesis transaction in block 0.\<close>

lemma dir_finds:
  assumes dir: "dir_stores fs L leveldb_open dir msk sbs" and handle: "handle_of dir msk sbs db" and ok: "db_ok L db"
    and td: "db_tx_db db = Some td" "td_genesis_txid td = genesis" and index: "txindex_stores L (td_db td) genesis sbs"
    and t: "t \<in> compute_txid L ` set (chain_txs (map sb_block sbs))" "t \<noteq> genesis"
  shows "\<exists>h < length sbs. \<exists>tx \<in> set (txdata (sb_block (sbs ! h))). compute_txid L tx = t
    \<and> get_transaction fs L Ok db t = Ok tx \<and> get_block_height db t = Ok h"
proof -
  from ok td(1) have heights: "td_file_pos_to_height td = file_positions (bi_records (db_block_index db))" by (simp add: db_ok_def)
  from handle have records: "bi_records (db_block_index db) = stored_records sbs" by (simp add: handle_of_def)
  from t(2) td(2) have ng: "\<not> is_genesis_tx td t" by (simp add: is_genesis_tx_def)
  obtain h tx off rest v left where h: "h < length sbs" and tx: "tx \<in> set (txdata (sb_block (sbs ! h)))" "compute_txid L tx = t"
    and off: "off < 2 ^ 32" and at: "ldb_get (td_db td) (0x74 # t)
      = Inr (Some (varint_bytes (sb_file (sbs ! h)) @ varint_bytes (sb_pos (sbs ! h)) @ varint_bytes off @ rest))"
    "blk_view fs (db_blk_file db) (word_of_nat (sb_file (sbs ! h))) = Some v"
    "decode_transaction L (drop (sb_pos (sbs ! h) + off + 80) v) = Inr (tx, left)" "sb_pos (sbs ! h) < 2 ^ 32"
    by (rule dir_position [OF dir handle index t])
  from get_transaction_at [OF dir_mask_ok [OF dir handle] td(1) ng at(1,4) off at(2), of L Ok] at(3)
  have get: "get_transaction fs L Ok db t = Ok tx" by simp
  have rec: "stored_record h (sbs ! h) \<in> set (bi_records (db_block_index db))"
    using h stored_records_nth [OF h] nth_mem [of h "stored_records sbs"] by (simp add: records)
  have place: "file_positions (bi_records (db_block_index db)) (word_of_nat (sb_file (sbs ! h)), word_of_nat (sb_pos (sbs ! h)))
      = Some (n_height (stored_record h (sbs ! h)))"
    using file_positions_distinct [OF dir_places_differ [OF dir handle] rec] by (simp add: stored_record_def)
  have "i32_as_usize (n_height (stored_record h (sbs ! h))) = h" using db_ok_height [OF ok, of h] h by (simp add: records)
  then have "tx_block_height td t = Ok h"
    by (simp add: tx_block_height_def ng get_tx_position_bytes [OF at(1)] heights place)
  then have "get_block_height db t = Ok h" by (simp add: get_block_height_def td(1))
  with h tx get show ?thesis by blast
qed

lemma dir_finds_genesis:
  assumes "dir_stores fs L leveldb_open dir msk sbs" and "handle_of dir msk sbs db"
    and td: "db_tx_db db = Some td" "td_genesis_txid td = genesis" and "txdata (sb_block (hd sbs)) \<noteq> []"
  shows "get_transaction fs L Ok db genesis = Ok (hd (txdata (sb_block (hd sbs)))) \<and> get_block_height db genesis = Ok 0"
proof -
  from assms(1) have "sbs \<noteq> []" by (simp add: dir_stores_def)
  with dir_stores_raw_block(2) [OF assms(1,2), of 0] have "get_block fs L Ok db 0 = Ok (sb_block (hd sbs))" by (simp add: hd_conv_nth)
  with assms(5) td show ?thesis
    by (simp add: get_transaction_def is_genesis_tx_def swap_remove_def hd_conv_nth get_block_height_def tx_block_height_def)
qed

lemma dir_not_connected:
  assumes "txindex_stores L (td_db td) genesis sbs" and "db_tx_db db = Some td" and "td_genesis_txid td = genesis"
    and "t \<notin> compute_txid L ` set (chain_txs (map sb_block sbs))" and "t \<noteq> genesis"
  shows "get_connected_transaction fs L connect db t = Err (TransactionRecordNotFound t)"
  by (simp add: get_connected_transaction_def assms(2) dir_not_indexed [OF assms])

text \<open>So blocks and transactions are connected as they are looked up on the chain.\<close>

lemma dir_connects:
  assumes dir: "dir_stores fs L leveldb_open dir msk sbs" and handle: "handle_of dir msk sbs db"
    and td: "db_tx_db db = Some td" "td_genesis_txid td = genesis" and index: "txindex_stores L (td_db td) genesis sbs"
    and chain: "genesis_whole (map sb_block sbs)" "sound_blocks L (map sb_block sbs)"
    and docs: "p2pk_doc S" "rayon_doc R" "coinbase_doc L"
  shows "h < length sbs \<Longrightarrow> get_connected_block fs L (full_connected_block_connect R fs L S) db h
      = block_by_lookup L genesis (map sb_block sbs) (full_txout_of S) (full_connected_of L S) (full_connected_block_of L) (sb_block (sbs ! h))"
    and "h < length sbs \<Longrightarrow> get_connected_block fs L (compact_connected_block_connect R fs L S) db h
      = block_by_lookup L genesis (map sb_block sbs) (compact_txout_of S) (compact_connected_of L S) (compact_connected_block_of L) (sb_block (sbs ! h))"
    and "get_transaction fs L Ok db t = Ok tx \<Longrightarrow> get_connected_transaction fs L (full_connected_tx_connect R fs L S) db t
      = tx_by_lookup L genesis (map sb_block sbs) (full_txout_of S) (full_connected_of L S) tx"
    and "get_transaction fs L Ok db t = Ok tx \<Longrightarrow> get_connected_transaction fs L (compact_connected_tx_connect R fs L S) db t
      = tx_by_lookup L genesis (map sb_block sbs) (compact_txout_of S) (compact_connected_of L S) tx"
proof -
  note facts = docs(1) dir_mask_ok [OF dir handle] dir_genesis_readable [OF dir handle chain(1)] docs(2,3)
    dir_looks_up [OF dir handle index td(2) chain(2,1)]
  note connects = full_blk.bconnect_by_lookup [OF facts] compact_blk.bconnect_by_lookup [OF facts]
    full_tx.connect_by_lookup [OF facts] compact_tx.connect_by_lookup [OF facts]
  from dir_stores_raw_block(2) [OF dir handle]
  show "h < length sbs \<Longrightarrow> get_connected_block fs L (full_connected_block_connect R fs L S) db h
      = block_by_lookup L genesis (map sb_block sbs) (full_txout_of S) (full_connected_of L S) (full_connected_block_of L) (sb_block (sbs ! h))"
    and "h < length sbs \<Longrightarrow> get_connected_block fs L (compact_connected_block_connect R fs L S) db h
      = block_by_lookup L genesis (map sb_block sbs) (compact_txout_of S) (compact_connected_of L S) (compact_connected_block_of L) (sb_block (sbs ! h))"
    by (simp_all add: get_connected_block_def td(1) connects)
  show "get_transaction fs L Ok db t = Ok tx \<Longrightarrow> get_connected_transaction fs L (full_connected_tx_connect R fs L S) db t
      = tx_by_lookup L genesis (map sb_block sbs) (full_txout_of S) (full_connected_of L S) tx"
    and "get_transaction fs L Ok db t = Ok tx \<Longrightarrow> get_connected_transaction fs L (compact_connected_tx_connect R fs L S) db t
      = tx_by_lookup L genesis (map sb_block sbs) (compact_txout_of S) (compact_connected_of L S) tx"
    by (simp_all add: get_connected_transaction_def td(1) connects)
qed

section \<open>Properties\<close>

text \<open>
  C5. From the data directory to the connected blocks, by lookup: a directory that stores a chain with its transaction index
  is opened, and \<open>get_connected_block\<close> connects each block exactly as its inputs are looked up on the chain, in both formats. If
  every input of its transactions but the coinbase is found, they get the outputs found, in order; otherwise the
  result is \<open>MissingOutputs\<close> of the first transaction that lacks one. For an input that names the genesis transaction that is
  its first output, whatever the number, and for a null input nothing. If no transaction but a coinbase has such an input, this is
  each block with every input replaced by the output of the chain it spends, and an error for exactly the blocks with an
  input that spends nothing. In the chain equal txids have equal outputs, fewer than \<open>2 ^ 32\<close> of them, and a txid occurs once in
  a block (\<open>sound_blocks\<close>); the genesis block has a transaction with an output. It does not matter which outputs have been
  spent before.
\<close>

theorem data_dir_connected_lookup:
  assumes "dir_stores fs L leveldb_open dir msk sbs" and "from_str GENESIS_TXID = Inr genesis"
    and "dir_indexed fs L leveldb_open dir genesis sbs" and "genesis_whole (map sb_block sbs)"
    and "p2pk_doc S" and "rayon_doc R" and "coinbase_doc L" and "sound_blocks L (map sb_block sbs)"
  shows "\<exists>db. bitcoin_db_new fs L leveldb_open from_str dir True = Ok db
    \<and> (\<forall>h < length sbs.
         get_connected_block fs L (full_connected_block_connect R fs L S) db h
           = block_by_lookup L genesis (map sb_block sbs) (full_txout_of S) (full_connected_of L S) (full_connected_block_of L) (sb_block (sbs ! h))
         \<and> get_connected_block fs L (compact_connected_block_connect R fs L S) db h
           = block_by_lookup L genesis (map sb_block sbs) (compact_txout_of S) (compact_connected_of L S) (compact_connected_block_of L) (sb_block (sbs ! h)))
    \<and> (inputs_spend L genesis (map sb_block sbs) \<longrightarrow> (\<forall>h < length sbs.
         if h \<in> connectable_heights L (map sb_block sbs) then
           get_connected_block fs L (full_connected_block_connect R fs L S) db h
             = Ok (full_ideal L S (map sb_block sbs) (sb_block (sbs ! h)))
           \<and> get_connected_block fs L (compact_connected_block_connect R fs L S) db h
             = Ok (compact_ideal L S (map sb_block sbs) (sb_block (sbs ! h)))
         else (\<exists>e. get_connected_block fs L (full_connected_block_connect R fs L S) db h = Err e)
           \<and> (\<exists>e. get_connected_block fs L (compact_connected_block_connect R fs L S) db h = Err e)))"
proof -
  obtain db td where new: "bitcoin_db_new fs L leveldb_open from_str dir True = Ok db" and handle: "handle_of dir msk sbs db"
    and td: "db_tx_db db = Some td" "td_genesis_txid td = genesis" and index: "txindex_stores L (td_db td) genesis sbs"
    by (rule dir_opens_indexed [where from_str = from_str, OF assms(1-3)])
  note connects = dir_connects [OF assms(1) handle td index assms(4,8,5-7)]
  have blk: "get_block fs L Ok db h = Ok (map sb_block sbs ! h)" if "h < length sbs" for h
    using dir_stores_raw_block(2) [OF assms(1) handle that] that by simp
  note facts = assms(5-7) dir_mask_ok [OF assms(1) handle] dir_genesis_readable [OF assms(1) handle assms(4)] td(1)
    dir_index_agrees [OF assms(1) handle index td(2) assms(8)]
  note at = get_connected_block_at [OF facts _ blk] and missing = get_connected_block_missing [OF facts _ _ blk]
  show ?thesis
  proof (intro exI [of _ db] conjI allI impI)
    fix h assume "inputs_spend L genesis (map sb_block sbs)" and "h < length sbs"
    then show "if h \<in> connectable_heights L (map sb_block sbs) then
           get_connected_block fs L (full_connected_block_connect R fs L S) db h
             = Ok (full_ideal L S (map sb_block sbs) (sb_block (sbs ! h)))
           \<and> get_connected_block fs L (compact_connected_block_connect R fs L S) db h
             = Ok (compact_ideal L S (map sb_block sbs) (sb_block (sbs ! h)))
         else (\<exists>e. get_connected_block fs L (full_connected_block_connect R fs L S) db h = Err e)
           \<and> (\<exists>e. get_connected_block fs L (compact_connected_block_connect R fs L S) db h = Err e)"
      using at missing by auto
  qed (use new connects in simp_all)
qed

text \<open>
  C7. Iterating is looking up: a directory that stores a sound chain with its transaction index is opened, and
  \<open>connected_block_iter\<close> up to any \<open>n\<close>, with the cache in memory and under every schedule, yields in order exactly what
  \<open>get_connected_block\<close> returns height by height, up to the first height for which it returns an error, be it that there is no
  block or that an input spends nothing, in both formats. As the consensus rules have it, only coinbases have a null input, no input
  names the genesis transaction, and block 0 has a transaction with an output.
\<close>

theorem data_dir_iter_is_lookup:
  assumes "dir_stores fs L leveldb_open dir msk sbs" and "from_str GENESIS_TXID = Inr genesis"
    and "dir_indexed fs L leveldb_open dir genesis sbs" and "inputs_spend L genesis (map sb_block sbs)"
    and "p2pk_doc S" and "rayon_doc R" and "coinbase_doc L" and "sound_chain L (map sb_block sbs)"
  shows "\<exists>db. bitcoin_db_new fs L leveldb_open from_str dir True = Ok db
    \<and> (\<forall>n yielded. mem_connected_block_iter fs L (full_tx_impl L S) full_block_impl db n yielded \<longleftrightarrow>
         map Ok yielded = takeWhile is_ok (map (get_connected_block fs L (full_connected_block_connect R fs L S) db) [0..<n]))
    \<and> (\<forall>n yielded. mem_connected_block_iter fs L (compact_tx_impl L S) compact_block_impl db n yielded \<longleftrightarrow>
         map Ok yielded = takeWhile is_ok (map (get_connected_block fs L (compact_connected_block_connect R fs L S) db) [0..<n]))"
proof -
  obtain db td where new: "bitcoin_db_new fs L leveldb_open from_str dir True = Ok db" and handle: "handle_of dir msk sbs db"
    and td: "db_tx_db db = Some td" "td_genesis_txid td = genesis" and index: "txindex_stores L (td_db td) genesis sbs"
    by (rule dir_opens_indexed [where from_str = from_str, OF assms(1-3)])
  have whole: "genesis_whole (map sb_block sbs)" using assms(4) by (simp add: inputs_spend_def)
  note agrees = dir_index_agrees [OF assms(1) handle index td(2) sound_chain_blocks [OF assms(8)] assms(4)]
  from new connected_iter_is_lookup [OF assms(5-7) dir_mask_ok [OF assms(1) handle] dir_genesis_readable [OF assms(1) handle whole]
      td(1) agrees assms(8) dir_stores_readable [OF assms(1) handle]]
  show ?thesis by blast
qed

text \<open>
  C15. Every transaction of the chain is found: the handle to a directory with its transaction index returns for each txid of the
  chain a transaction of the chain with that txid, and the height of a block that has it. The genesis transaction, which
  is not indexed, is the first one of block 0.
\<close>

theorem data_dir_transactions:
  assumes "dir_stores fs L leveldb_open dir msk sbs" and "from_str GENESIS_TXID = Inr genesis"
    and "dir_indexed fs L leveldb_open dir genesis sbs"
  shows "\<exists>db. bitcoin_db_new fs L leveldb_open from_str dir True = Ok db
    \<and> (\<forall>t \<in> compute_txid L ` set (chain_txs (map sb_block sbs)). t \<noteq> genesis \<longrightarrow>
         (\<exists>h < length sbs. \<exists>tx \<in> set (txdata (sb_block (sbs ! h))). compute_txid L tx = t
            \<and> get_transaction fs L Ok db t = Ok tx \<and> get_block_height db t = Ok h))
    \<and> (txdata (sb_block (hd sbs)) \<noteq> [] \<longrightarrow>
         get_transaction fs L Ok db genesis = Ok (hd (txdata (sb_block (hd sbs)))) \<and> get_block_height db genesis = Ok 0)"
proof -
  obtain db td where new: "bitcoin_db_new fs L leveldb_open from_str dir True = Ok db" and handle: "handle_of dir msk sbs db"
    and td: "db_tx_db db = Some td" "td_genesis_txid td = genesis" and index: "txindex_stores L (td_db td) genesis sbs"
    by (rule dir_opens_indexed [where from_str = from_str, OF assms(1-3)])
  from new dir_finds [OF assms(1) handle bitcoin_db_new_db_ok [OF new] td index] dir_finds_genesis [OF assms(1) handle td]
  show ?thesis by blast
qed

text \<open>
  C20. Every transaction of the chain is connected as in its block: the handle to a directory with its transaction index returns for
  each txid of the chain, but the one of the genesis transaction, a transaction of some block of the chain with that txid, connected exactly
  as its inputs are looked up on the chain, or \<open>MissingOutputs\<close> with the number expected and found, in both formats; if the block is
  connected at all, it is one of the connected block. For the genesis txid that is the first transaction of block 0, and for any other
  txid the result is \<open>TransactionRecordNotFound\<close>. The chain is as in the first property: \<open>sound_blocks\<close>, with a genesis block
  that has a transaction with an output.
\<close>

theorem data_dir_connected_transactions:
  assumes "dir_stores fs L leveldb_open dir msk sbs" and "from_str GENESIS_TXID = Inr genesis"
    and "dir_indexed fs L leveldb_open dir genesis sbs" and "genesis_whole (map sb_block sbs)"
    and "p2pk_doc S" and "rayon_doc R" and "coinbase_doc L" and "sound_blocks L (map sb_block sbs)"
  shows "\<exists>db. bitcoin_db_new fs L leveldb_open from_str dir True = Ok db
    \<and> (\<forall>t \<in> compute_txid L ` set (chain_txs (map sb_block sbs)) - {genesis}.
         \<exists>h < length sbs. \<exists>tx \<in> set (txdata (sb_block (sbs ! h))). compute_txid L tx = t
           \<and> get_connected_transaction fs L (full_connected_tx_connect R fs L S) db t
               = tx_by_lookup L genesis (map sb_block sbs) (full_txout_of S) (full_connected_of L S) tx
           \<and> get_connected_transaction fs L (compact_connected_tx_connect R fs L S) db t
               = tx_by_lookup L genesis (map sb_block sbs) (compact_txout_of S) (compact_connected_of L S) tx
           \<and> (\<forall>cb. get_connected_block fs L (full_connected_block_connect R fs L S) db h = Ok cb \<longrightarrow>
               (\<exists>ct \<in> set (fcb_txdata cb). get_connected_transaction fs L (full_connected_tx_connect R fs L S) db t = Ok ct))
           \<and> (\<forall>cb. get_connected_block fs L (compact_connected_block_connect R fs L S) db h = Ok cb \<longrightarrow>
               (\<exists>ct \<in> set (ccb_txdata cb). get_connected_transaction fs L (compact_connected_tx_connect R fs L S) db t = Ok ct)))
    \<and> get_connected_transaction fs L (full_connected_tx_connect R fs L S) db genesis
        = tx_by_lookup L genesis (map sb_block sbs) (full_txout_of S) (full_connected_of L S) (hd (txdata (sb_block (hd sbs))))
    \<and> get_connected_transaction fs L (compact_connected_tx_connect R fs L S) db genesis
        = tx_by_lookup L genesis (map sb_block sbs) (compact_txout_of S) (compact_connected_of L S) (hd (txdata (sb_block (hd sbs))))
    \<and> (\<forall>t. t \<notin> compute_txid L ` set (chain_txs (map sb_block sbs)) \<longrightarrow> t \<noteq> genesis \<longrightarrow>
         get_connected_transaction fs L (full_connected_tx_connect R fs L S) db t = Err (TransactionRecordNotFound t)
         \<and> get_connected_transaction fs L (compact_connected_tx_connect R fs L S) db t = Err (TransactionRecordNotFound t))"
proof -
  obtain db td where new: "bitcoin_db_new fs L leveldb_open from_str dir True = Ok db" and handle: "handle_of dir msk sbs db"
    and td: "db_tx_db db = Some td" "td_genesis_txid td = genesis" and index: "txindex_stores L (td_db td) genesis sbs"
    by (rule dir_opens_indexed [where from_str = from_str, OF assms(1-3)])
  note connects = dir_connects [OF assms(1) handle td index assms(4,8,5-7)]
  have inside: "\<exists>ct \<in> set (fcb_txdata cb). tx_by_lookup L genesis (map sb_block sbs) (full_txout_of S) (full_connected_of L S) tx = Ok ct"
    if "get_connected_block fs L (full_connected_block_connect R fs L S) db h = Ok cb" "h < length sbs" "tx \<in> set (txdata (sb_block (sbs ! h)))"
    for h tx cb
    using block_by_lookup_tx [OF that(1) [unfolded connects(1) [OF that(2)]] that(3)] by (auto simp: full_connected_block_of_def)
  have inside': "\<exists>ct \<in> set (ccb_txdata cb). tx_by_lookup L genesis (map sb_block sbs) (compact_txout_of S) (compact_connected_of L S) tx = Ok ct"
    if "get_connected_block fs L (compact_connected_block_connect R fs L S) db h = Ok cb" "h < length sbs" "tx \<in> set (txdata (sb_block (sbs ! h)))"
    for h tx cb
    using block_by_lookup_tx [OF that(1) [unfolded connects(2) [OF that(2)]] that(3)] by (auto simp: compact_connected_block_of_def)
  have "txdata (sb_block (hd sbs)) \<noteq> []" using assms(4) hd_blocks [OF assms(1)] by (simp add: genesis_whole_def)
  note first = connects(3,4) [OF conjunct1 [OF dir_finds_genesis [OF assms(1) handle td this]]]
  have found: "\<exists>h < length sbs. \<exists>tx \<in> set (txdata (sb_block (sbs ! h))). compute_txid L tx = t \<and> get_transaction fs L Ok db t = Ok tx"
    if "t \<in> compute_txid L ` set (chain_txs (map sb_block sbs)) - {genesis}" for t
    using dir_finds [OF assms(1) handle bitcoin_db_new_db_ok [OF new] td index, of t] that by blast
  show ?thesis
  proof (intro exI [of _ db] conjI ballI)
    fix t assume "t \<in> compute_txid L ` set (chain_txs (map sb_block sbs)) - {genesis}"
    from found [OF this] obtain h tx where h: "h < length sbs" "tx \<in> set (txdata (sb_block (sbs ! h)))"
      "compute_txid L tx = t" "get_transaction fs L Ok db t = Ok tx" by blast
    with connects(3,4) [OF h(4)] inside [OF _ h(1,2)] inside' [OF _ h(1,2)]
    show "\<exists>h < length sbs. \<exists>tx \<in> set (txdata (sb_block (sbs ! h))). compute_txid L tx = t
           \<and> get_connected_transaction fs L (full_connected_tx_connect R fs L S) db t
               = tx_by_lookup L genesis (map sb_block sbs) (full_txout_of S) (full_connected_of L S) tx
           \<and> get_connected_transaction fs L (compact_connected_tx_connect R fs L S) db t
               = tx_by_lookup L genesis (map sb_block sbs) (compact_txout_of S) (compact_connected_of L S) tx
           \<and> (\<forall>cb. get_connected_block fs L (full_connected_block_connect R fs L S) db h = Ok cb \<longrightarrow>
               (\<exists>ct \<in> set (fcb_txdata cb). get_connected_transaction fs L (full_connected_tx_connect R fs L S) db t = Ok ct))
           \<and> (\<forall>cb. get_connected_block fs L (compact_connected_block_connect R fs L S) db h = Ok cb \<longrightarrow>
               (\<exists>ct \<in> set (ccb_txdata cb). get_connected_transaction fs L (compact_connected_tx_connect R fs L S) db t = Ok ct))"
      by (intro exI [of _ h] conjI bexI [of _ tx]) simp_all
  qed (use new first in \<open>simp_all add: dir_not_connected [OF index td]\<close>)
qed

end
