(* ===== verification/Integration_Tests.thy ===== *)
theory Integration_Tests
  imports Data_Dir_Lookup
begin

text \<open>
  The tests of \<open>tests/test_api.rs\<close>, which check the queries and the iterators against each other on a data
  directory. A test is an outcome: \<open>Panic\<close> if an assertion or an \<open>unwrap\<close> fails, \<open>Ok ()\<close> if it passes. The tests are shown
  to pass on every directory that stores a valid chain with its transaction index, as far as the chain is long enough for the
  heights of the test and not longer than \<open>END\<close> where all of it is counted, and to panic otherwise. The heights at which
  a test starts and stops (100 and 100000 in the source) are its arguments, so that a chain of any length can be tested.
\<close>

section \<open>Assertions and loops\<close>

definition assert_eq :: "'a \<Rightarrow> 'a \<Rightarrow> unit result" where
  "assert_eq left right = (if left = right then Ok () else Panic)"

primrec unwrap :: "'a result \<Rightarrow> 'a result" where
  "unwrap (Ok a) = Ok a"
| "unwrap (Err e) = Panic"
| "unwrap Panic = Panic"
| "unwrap Diverge = Diverge"

text \<open>A \<open>for\<close> loop over what an iterator yields, without and with the counter \<open>h\<close>, whose last value is returned.\<close>

primrec for_each :: "('a \<Rightarrow> unit result) \<Rightarrow> 'a list \<Rightarrow> unit result" where
  "for_each body [] = Ok ()"
| "for_each body (x # xs) = bind_result (body x) (\<lambda>_. for_each body xs)"

primrec count_loop :: "('a \<Rightarrow> nat \<Rightarrow> unit result) \<Rightarrow> 'a list \<Rightarrow> nat \<Rightarrow> nat result" where
  "count_loop body [] h = Ok h"
| "count_loop body (x # xs) h = bind_result (body x h) (\<lambda>_. count_loop body xs (h + 1))"

text \<open>The loop over \<open>enumerate\<close> that is left at the index \<open>break_height\<close>, with the last block seen.\<close>

primrec break_loop :: "nat \<Rightarrow> nat \<Rightarrow> 'a option \<Rightarrow> 'a list \<Rightarrow> 'a option" where
  "break_loop break_height i some_blk [] = some_blk"
| "break_loop break_height i some_blk (blk # blks) =
     (if i = break_height then Some blk else break_loop break_height (i + 1) (Some blk) blks)"

lemma assert_eq_iff [simp]: "assert_eq a b = Ok () \<longleftrightarrow> a = b"
  by (simp add: assert_eq_def)

lemma assert_eq_same [simp]: "assert_eq a a = Ok ()"
  by simp

lemma for_each_iff: "for_each body xs = Ok () \<longleftrightarrow> (\<forall>x \<in> set xs. body x = Ok ())"
  by (induction xs) (auto simp: result_simps)

lemma count_loop_pass:
  "(\<And>i. i < length xs \<Longrightarrow> body (xs ! i) (h + i) = Ok ()) \<Longrightarrow> count_loop body xs h = Ok (h + length xs)"
proof (induction xs arbitrary: h)
  case (Cons x xs)
  from Cons.prems [of 0] have "body x h = Ok ()" by simp
  moreover have "count_loop body xs (h + 1) = Ok (h + 1 + length xs)"
    using Cons.prems [of "Suc _"] by (intro Cons.IH) simp
  ultimately show ?case by simp
qed simp

lemma count_loop_upt:
  assumes "\<And>h. a \<le> h \<Longrightarrow> h < b \<Longrightarrow> body (f h) h = Ok ()"
  shows "count_loop body (map f [a..<b]) a = Ok (max a b)"
  using assms count_loop_pass [of "map f [a..<b]" body a] by (simp add: max_def)

lemma assert_eq_min:
  fixes a b :: nat
  shows "assert_eq (min a b) b = (if b \<le> a then Ok () else Panic)" and "assert_eq (min a b) a = (if a \<le> b then Ok () else Panic)"
  by (auto simp: assert_eq_def min_def)

lemma mapM_result_panics:
  "(\<And>x. f x = (if good x then Ok (g x) else Panic)) \<Longrightarrow> mapM_result f xs = (if list_all good xs then Ok (map g xs) else Panic)"
  by (induction xs) auto

lemma break_loop_nth: "i \<le> k \<Longrightarrow> k < i + length blks \<Longrightarrow> break_loop k i b blks = Some (blks ! (k - i))"
proof (induction blks arbitrary: i b)
  case (Cons blk blks)
  then show ?case by (cases "i = k") (simp_all add: nth_Cons')
qed simp

section \<open>The tests\<close>

definition END :: nat where
  "END = 700000"

text \<open>The path pushed is \<open>./resources/tests/Bitcoin\<close>, whose first component is the directory itself.\<close>

definition get_test_db ::
  "filesystem \<Rightarrow> bitcoin_lib \<Rightarrow> (path \<Rightarrow> string + leveldb) \<Rightarrow> (string \<Rightarrow> string + hash256) \<Rightarrow> path \<Rightarrow> bitcoin_db result" where
  "get_test_db fs L leveldb_open from_str crate_root_dir =
     unwrap (bitcoin_db_new fs L leveldb_open from_str (crate_root_dir @ [''resources'', ''tests'', ''Bitcoin'']) True)"

definition test_iter_block ::
  "'addr compact_block par_iter \<Rightarrow> filesystem \<Rightarrow> bitcoin_lib \<Rightarrow> ('pk, 'addr) script_lib \<Rightarrow> bitcoin_db \<Rightarrow> unit result" where
  "test_iter_block par_iter_sync fs L S db =
     bind_result
       (count_loop (\<lambda>blk h. bind_result (unwrap (get_block fs L (compact_block_from L S) db h)) (\<lambda>blk_ref. assert_eq blk blk_ref))
         (block_iter par_iter_sync fs L (compact_block_from L S) db 0 END) 0)
       (\<lambda>h. assert_eq h (get_block_count db))"

definition test_iter_block_early_end ::
  "'addr compact_block par_iter \<Rightarrow> filesystem \<Rightarrow> bitcoin_lib \<Rightarrow> ('pk, 'addr) script_lib \<Rightarrow> bitcoin_db \<Rightarrow> nat \<Rightarrow> nat \<Rightarrow> unit result" where
  "test_iter_block_early_end par_iter_sync fs L S db start early_end =
     bind_result
       (count_loop (\<lambda>blk h. bind_result (unwrap (get_block fs L (compact_block_from L S) db h)) (\<lambda>blk_ref. assert_eq blk blk_ref))
         (block_iter par_iter_sync fs L (compact_block_from L S) db start early_end) start)
       (\<lambda>h. assert_eq h early_end)"

definition test_iter_block_break ::
  "'addr compact_block par_iter \<Rightarrow> filesystem \<Rightarrow> bitcoin_lib \<Rightarrow> ('pk, 'addr) script_lib \<Rightarrow> bitcoin_db \<Rightarrow> nat \<Rightarrow> unit result" where
  "test_iter_block_break par_iter_sync fs L S db break_height =
     (let some_blk = break_loop break_height 0 None (block_iter par_iter_sync fs L (compact_block_from L S) db 0 END)
      in bind_result (unwrap (get_block fs L (compact_block_from L S) db break_height)) (\<lambda>blk. assert_eq some_blk (Some blk)))"

definition test_get_transactions :: "block par_iter \<Rightarrow> filesystem \<Rightarrow> bitcoin_lib \<Rightarrow> bitcoin_db \<Rightarrow> nat \<Rightarrow> unit result" where
  "test_get_transactions par_iter_sync fs L db early_end =
     for_each (\<lambda>blk. for_each (\<lambda>tx.
         bind_result (unwrap (get_transaction fs L Ok db (compute_txid L tx))) (\<lambda>tx_ref. assert_eq tx_ref tx)) (txdata blk))
       (block_iter par_iter_sync fs L Ok db 0 early_end)"

text \<open>\<open>iter\<close> is what \<open>connected_block_iter\<close> yields, with the end as its argument.\<close>

definition test_iter_connected ::
  "(nat \<Rightarrow> 'addr compact_connected_block list) \<Rightarrow> filesystem \<Rightarrow> bitcoin_lib \<Rightarrow> ('pk, 'addr) script_lib \<Rightarrow> bitcoin_db \<Rightarrow> unit result" where
  "test_iter_connected iter fs L S db =
     bind_result
       (count_loop (\<lambda>blk h. bind_result (unwrap (get_block fs L (compact_block_from L S) db h))
           (\<lambda>blk_ref. assert_eq (ccb_header blk) (cb_header blk_ref))) (iter END) 0)
       (\<lambda>h. assert_eq h (get_block_count db))"

definition test_iter_connected_early_end ::
  "(nat \<Rightarrow> 'addr compact_connected_block list) \<Rightarrow> rayon \<Rightarrow> filesystem \<Rightarrow> bitcoin_lib \<Rightarrow> ('pk, 'addr) script_lib \<Rightarrow> bitcoin_db \<Rightarrow> nat \<Rightarrow> unit result" where
  "test_iter_connected_early_end iter R fs L S db early_end =
     bind_result
       (count_loop (\<lambda>blk h. bind_result (unwrap (get_connected_block fs L (compact_connected_block_connect R fs L S) db h))
           (\<lambda>blk_ref. assert_eq blk blk_ref)) (iter early_end) 0)
       (\<lambda>h. assert_eq h early_end)"

definition test_iter_connected_break ::
  "(nat \<Rightarrow> 'addr compact_connected_block list) \<Rightarrow> rayon \<Rightarrow> filesystem \<Rightarrow> bitcoin_lib \<Rightarrow> ('pk, 'addr) script_lib \<Rightarrow> bitcoin_db \<Rightarrow> nat \<Rightarrow> unit result" where
  "test_iter_connected_break iter R fs L S db break_height =
     (let some_blk = break_loop break_height 0 None (iter END)
      in bind_result (unwrap (get_connected_block fs L (compact_connected_block_connect R fs L S) db break_height))
           (\<lambda>blk. assert_eq some_blk (Some blk)))"

definition check_connected_tx ::
  "rayon \<Rightarrow> filesystem \<Rightarrow> bitcoin_lib \<Rightarrow> ('pk, 'addr) script_lib \<Rightarrow> bitcoin_db \<Rightarrow> 'addr compact_connected_transaction \<Rightarrow> unit result" where
  "check_connected_tx R fs L S db tx =
     bind_result (unwrap (get_connected_transaction fs L (compact_connected_tx_connect R fs L S) db (cct_txid tx))) (\<lambda>connected_tx.
     bind_result (unwrap (get_transaction fs L (compact_transaction_from L S) db (cct_txid tx))) (\<lambda>unconnected_stx.
     bind_result (unwrap (get_transaction fs L (full_transaction_from L S) db (cct_txid tx))) (\<lambda>unconnected_ftx.
     bind_result (assert_eq (length (cct_input connected_tx)) (length (ct_input unconnected_stx))) (\<lambda>_.
     bind_result (assert_eq (length (cct_input connected_tx)) (length (ft_input unconnected_ftx))) (\<lambda>_.
     assert_eq connected_tx tx)))))"

definition test_get_connected_transactions ::
  "(nat \<Rightarrow> 'addr compact_connected_block list) \<Rightarrow> rayon \<Rightarrow> filesystem \<Rightarrow> bitcoin_lib \<Rightarrow> ('pk, 'addr) script_lib \<Rightarrow> bitcoin_db \<Rightarrow> nat \<Rightarrow> unit result" where
  "test_get_connected_transactions iter R fs L S db early_end =
     for_each (\<lambda>blk. for_each (check_connected_tx R fs L S db) (ccb_txdata blk)) (iter early_end)"

text \<open>\<open>first().unwrap()\<close> of no transactions panics.\<close>

definition test_coinbase_input ::
  "'addr compact_block par_iter \<Rightarrow> 'addr full_block par_iter \<Rightarrow> filesystem \<Rightarrow> bitcoin_lib \<Rightarrow> ('pk, 'addr) script_lib \<Rightarrow> bitcoin_db \<Rightarrow> unit result" where
  "test_coinbase_input par_iter_sync par_iter_sync' fs L S db =
     bind_result
       (for_each (\<lambda>blk. case cb_txdata blk of [] \<Rightarrow> Panic | tx # _ \<Rightarrow> assert_eq (length (ct_input tx)) 0)
         (block_iter par_iter_sync fs L (compact_block_from L S) db 0 END))
       (\<lambda>_. for_each (\<lambda>blk. case fb_txdata blk of [] \<Rightarrow> Panic | tx # _ \<Rightarrow> assert_eq (length (ft_input tx)) 0)
         (block_iter par_iter_sync' fs L (full_block_from L S) db 0 END))"

definition test_iter_block_heights ::
  "'addr compact_block par_iter \<Rightarrow> filesystem \<Rightarrow> bitcoin_lib \<Rightarrow> ('pk, 'addr) script_lib \<Rightarrow> bitcoin_db \<Rightarrow> nat list \<Rightarrow> unit result" where
  "test_iter_block_heights par_iter_sync fs L S db test_heights =
     bind_result (mapM_result (\<lambda>h. unwrap (get_block fs L (compact_block_from L S) db h)) test_heights) (\<lambda>blocks_ref.
       let blocks = iter_heights par_iter_sync fs L (compact_block_from L S) db test_heights
       in assert_eq blocks blocks_ref)"

section \<open>The formats of a block\<close>

definition compact_transaction_of :: "bitcoin_lib \<Rightarrow> ('pk, 'addr) script_lib \<Rightarrow> transaction \<Rightarrow> 'addr compact_transaction" where
  "compact_transaction_of L S tx = \<lparr>ct_txid = compute_txid L tx,
     ct_input = (if is_coinbase L tx then [] else map compact_txin_from (tx_input tx)), ct_output = map (compact_txout_of S) (tx_output tx)\<rparr>"

definition full_transaction_of :: "bitcoin_lib \<Rightarrow> ('pk, 'addr) script_lib \<Rightarrow> transaction \<Rightarrow> 'addr full_transaction" where
  "full_transaction_of L S tx = \<lparr>ft_version = tx_version tx, ft_lock_time = tx_lock_time tx,
     ft_input = (if is_coinbase L tx then [] else tx_input tx), ft_txid = compute_txid L tx, ft_output = map (full_txout_of S) (tx_output tx)\<rparr>"

definition compact_block_of :: "bitcoin_lib \<Rightarrow> ('pk, 'addr) script_lib \<Rightarrow> block \<Rightarrow> 'addr compact_block" where
  "compact_block_of L S blk = \<lparr>cb_header = compact_block_header_new (blk_header blk) (block_hash L (blk_header blk)),
     cb_txdata = map (compact_transaction_of L S) (txdata blk)\<rparr>"

definition full_block_of :: "bitcoin_lib \<Rightarrow> ('pk, 'addr) script_lib \<Rightarrow> block \<Rightarrow> 'addr full_block" where
  "full_block_of L S blk = \<lparr>fb_header = full_block_header_parse (blk_header blk) (block_hash L (blk_header blk)),
     fb_txdata = map (full_transaction_of L S) (txdata blk)\<rparr>"

lemma conversions_ok:
  assumes "p2pk_doc S"
  shows "compact_transaction_from L S tx = Ok (compact_transaction_of L S tx)"
    and "full_transaction_from L S tx = Ok (full_transaction_of L S tx)"
    and "compact_block_from L S blk = Ok (compact_block_of L S blk)" and "full_block_from L S blk = Ok (full_block_of L S blk)"
proof -
  show tx: "compact_transaction_from L S tx = Ok (compact_transaction_of L S tx)"
    "full_transaction_from L S tx = Ok (full_transaction_of L S tx)" for tx
    by (simp_all add: compact_transaction_from_def full_transaction_from_def compact_transaction_of_def full_transaction_of_def
        Let_def compact_txouts_ok [OF assms] full_txouts_ok [OF assms])
  show "compact_block_from L S blk = Ok (compact_block_of L S blk)" "full_block_from L S blk = Ok (full_block_of L S blk)"
    by (simp_all add: compact_block_from_def full_block_from_def compact_block_of_def full_block_of_def Let_def
        mapM_result_Ok [OF tx(1)] mapM_result_Ok [OF tx(2)])
qed

section \<open>What the handle answers\<close>

text \<open>The blocks are those of the chain, all of them downloaded.\<close>

definition answers_blocks :: "filesystem \<Rightarrow> bitcoin_lib \<Rightarrow> bitcoin_db \<Rightarrow> block list \<Rightarrow> bool" where
  "answers_blocks fs L db blks \<longleftrightarrow> get_block_count db = length blks
     \<and> (\<forall>h. get_block fs L Ok db h = (if h < length blks then Ok (blks ! h) else Err (BlockIndexRecordNotFound h)))"

text \<open>A transaction is found under its txid, and connected as in its block.\<close>

definition answers_txs :: "filesystem \<Rightarrow> bitcoin_lib \<Rightarrow> bitcoin_db \<Rightarrow> block list \<Rightarrow> bool" where
  "answers_txs fs L db blks \<longleftrightarrow>
     (\<forall>blk \<in> set blks. \<forall>tx \<in> set (txdata blk). get_transaction fs L Ok db (compute_txid L tx) = Ok tx)"

lemma get_block_conv: "get_block fs L conv db h = bind_result (get_block fs L Ok db h) conv"
  by (simp add: get_block_def bind_result_assoc)

lemma get_transaction_conv: "get_transaction fs L conv db txid = bind_result (get_transaction fs L Ok db txid) conv"
  by (simp add: get_transaction_def bind_result_assoc if_distrib [of "\<lambda>r. bind_result r conv"] cong: if_cong)

lemma answers_get_block:
  assumes "answers_blocks fs L db blks" and "\<And>b. conv b = Ok (g b)"
  shows "get_block fs L conv db h = (if h < length blks then Ok (g (blks ! h)) else Err (BlockIndexRecordNotFound h))"
  using assms by (simp add: get_block_conv [of fs L conv] answers_blocks_def)

lemma takeWhile_less_upt: "takeWhile (\<lambda>h. h < n) [a..<b] = [a..<min b n]"
proof (cases "b \<le> n \<or> n \<le> a")
  case True
  then show ?thesis by (cases "a < b") (auto simp: takeWhile_eq_all_conv upt_conv_Cons)
next
  case False
  then have "[a..<b] = [a..<n] @ n # [Suc n..<b]"
    using upt_add_eq_append [of a n "b - n"] by (simp add: upt_conv_Cons)
  with False show ?thesis by (simp add: takeWhile_append)
qed

lemma answers_block_iter_new:
  assumes "answers_blocks fs L db blks" and "\<And>b. conv b = Ok (g b)" and "par_iter_doc par_iter_sync"
  shows "block_iter_new par_iter_sync fs L conv db hs = map (\<lambda>h. g (blks ! h)) (takeWhile (\<lambda>h. h < length blks) hs)"
proof -
  note blk = answers_get_block [OF assms(1,2)]
  have "(\<lambda>h. is_ok (get_block fs L conv db h)) = (\<lambda>h. h < length blks)" by (auto simp: blk is_ok_def)
  moreover have "returns (get_block fs L conv db h)" for h by (simp add: blk)
  ultimately show ?thesis
    by (subst block_iter_new_eq [OF assms(3)]) (auto simp: blk dest: set_takeWhileD)
qed

lemma answers_block_iter:
  assumes "answers_blocks fs L db blks" and "\<And>b. conv b = Ok (g b)" and "par_iter_doc par_iter_sync"
  shows "block_iter par_iter_sync fs L conv db start stop = map (\<lambda>h. g (blks ! h)) [start..<min stop (length blks)]"
  by (auto simp: block_iter_def block_iter_from_range_def answers_block_iter_new [OF assms] takeWhile_less_upt)

section \<open>The tests of the block iterator pass\<close>

lemma iter_block_passes:
  assumes "answers_blocks fs L db blks" and "p2pk_doc S" and "par_iter_doc P"
  shows "test_iter_block P fs L S db = (if length blks \<le> END then Ok () else Panic)"
proof -
  note conv = conversions_ok(3) [OF assms(2)]
  from assms(1) have "get_block_count db = length blks" by (simp add: answers_blocks_def)
  then show ?thesis
    by (simp add: test_iter_block_def answers_block_iter [OF assms(1) conv assms(3)] answers_get_block [OF assms(1) conv]
        count_loop_upt assert_eq_min)
qed

lemma iter_block_early_end_passes:
  assumes "answers_blocks fs L db blks" and "p2pk_doc S" and "par_iter_doc P"
  shows "test_iter_block_early_end P fs L S db start early_end =
    (if start = early_end \<or> start \<le> early_end \<and> early_end \<le> length blks then Ok () else Panic)"
proof -
  note conv = conversions_ok(3) [OF assms(2)]
  have "max start (min early_end (length blks)) = early_end \<longleftrightarrow> start = early_end \<or> start \<le> early_end \<and> early_end \<le> length blks"
    by linarith
  then show ?thesis
    by (simp add: test_iter_block_early_end_def answers_block_iter [OF assms(1) conv assms(3)]
        answers_get_block [OF assms(1) conv] count_loop_upt assert_eq_def)
qed

lemma iter_block_break_passes:
  assumes "answers_blocks fs L db blks" and "p2pk_doc S" and "par_iter_doc P" and "break_height < END"
  shows "test_iter_block_break P fs L S db break_height = (if break_height < length blks then Ok () else Panic)"
proof -
  note conv = conversions_ok(3) [OF assms(2)]
  show ?thesis
    using assms(4)
    by (simp add: test_iter_block_break_def answers_block_iter [OF assms(1) conv assms(3)] break_loop_nth
        answers_get_block [OF assms(1) conv])
qed

lemma get_transactions_passes:
  assumes "answers_blocks fs L db blks" and "answers_txs fs L db blks" and "par_iter_doc P"
  shows "test_get_transactions P fs L db early_end = Ok ()"
proof -
  have "block_iter P fs L Ok db 0 early_end = map (\<lambda>h. blks ! h) [0..<min early_end (length blks)]"
    by (rule answers_block_iter [OF assms(1) _ assms(3), where g = "\<lambda>b. b"]) simp
  moreover have "for_each (\<lambda>tx. bind_result (unwrap (get_transaction fs L Ok db (compute_txid L tx))) (\<lambda>tx_ref. assert_eq tx_ref tx))
      (txdata (blks ! h)) = Ok ()" if "h < length blks" for h
    using assms(2) nth_mem [OF that] by (simp add: answers_txs_def for_each_iff)
  ultimately show ?thesis
    by (simp add: test_get_transactions_def for_each_iff [of _ "map _ _"])
qed

lemma coinbase_input_passes:
  assumes "answers_blocks fs L db blks" and "p2pk_doc S" and "par_iter_doc P" and "par_iter_doc P'"
    and first: "\<forall>blk \<in> set blks. txdata blk \<noteq> [] \<and> is_coinbase L (hd (txdata blk))"
  shows "test_coinbase_input P P' fs L S db = Ok ()"
proof -
  note conv = conversions_ok(3,4) [OF assms(2)]
  have "(case cb_txdata (compact_block_of L S (blks ! h)) of [] \<Rightarrow> Panic | tx # _ \<Rightarrow> assert_eq (length (ct_input tx)) 0) = Ok ()"
    if "h < length blks" for h
    using first nth_mem [OF that] by (cases "txdata (blks ! h)") (auto simp: compact_block_of_def compact_transaction_of_def)
  moreover have "(case fb_txdata (full_block_of L S (blks ! h)) of [] \<Rightarrow> Panic | tx # _ \<Rightarrow> assert_eq (length (ft_input tx)) 0) = Ok ()"
    if "h < length blks" for h
    using first nth_mem [OF that] by (cases "txdata (blks ! h)") (auto simp: full_block_of_def full_transaction_of_def)
  ultimately have "for_each (\<lambda>blk. case cb_txdata blk of [] \<Rightarrow> Panic | tx # _ \<Rightarrow> assert_eq (length (ct_input tx)) 0)
        (block_iter P fs L (compact_block_from L S) db 0 END) = Ok ()"
    and "for_each (\<lambda>blk. case fb_txdata blk of [] \<Rightarrow> Panic | tx # _ \<Rightarrow> assert_eq (length (ft_input tx)) 0)
        (block_iter P' fs L (full_block_from L S) db 0 END) = Ok ()"
    by (simp_all add: answers_block_iter [OF assms(1) conv(1) assms(3)] answers_block_iter [OF assms(1) conv(2) assms(4)] for_each_iff)
  then show ?thesis by (simp add: test_coinbase_input_def)
qed

lemma iter_block_heights_passes:
  assumes "answers_blocks fs L db blks" and "p2pk_doc S" and "par_iter_doc P"
  shows "test_iter_block_heights P fs L S db heights = (if list_all (\<lambda>h. h < length blks) heights then Ok () else Panic)"
proof -
  note conv = conversions_ok(3) [OF assms(2)]
  have "mapM_result (\<lambda>h. unwrap (get_block fs L (compact_block_from L S) db h)) heights
      = (if list_all (\<lambda>h. h < length blks) heights then Ok (map (\<lambda>h. compact_block_of L S (blks ! h)) heights) else Panic)"
    by (rule mapM_result_panics) (simp add: answers_get_block [OF assms(1) conv])
  moreover have "takeWhile (\<lambda>h. h < length blks) heights = heights" if "list_all (\<lambda>h. h < length blks) heights"
    using that by (simp add: takeWhile_eq_all_conv list_all_iff)
  ultimately show ?thesis
    by (auto simp: test_iter_block_heights_def iter_heights_def answers_block_iter_new [OF assms(1) conv assms(3)] simp del: takeWhile_eq_all_conv)
qed

section \<open>The tests of the connected block iterator pass\<close>

text \<open>
  Blocks and transactions are connected by lookup as in \<open>compact_ideal\<close>, and above the chain there is nothing.
\<close>

definition answers_connected ::
  "filesystem \<Rightarrow> bitcoin_lib \<Rightarrow> ('pk, 'addr) script_lib \<Rightarrow> rayon \<Rightarrow> bitcoin_db \<Rightarrow> block list \<Rightarrow> bool" where
  "answers_connected fs L S R db blks \<longleftrightarrow>
     (\<forall>h < length blks. get_connected_block fs L (compact_connected_block_connect R fs L S) db h = Ok (compact_ideal L S blks (blks ! h))
        \<and> (\<forall>tx \<in> set (txdata (blks ! h)). get_connected_transaction fs L (compact_connected_tx_connect R fs L S) db (compute_txid L tx)
             = Ok (compact_connected_of L S tx (map (\<lambda>p. the (map_option (compact_txout_of S) (chain_outputs L blks p))) (tx_spends L tx)))))
     \<and> (\<forall>h \<ge> length blks. \<exists>e. get_connected_block fs L (compact_connected_block_connect R fs L S) db h = Err e)"

lemma iter_connected_passes:
  assumes "answers_blocks fs L db blks" and "p2pk_doc S" and "iter END = map (\<lambda>h. compact_ideal L S blks (blks ! h)) [0..<min END (length blks)]"
  shows "test_iter_connected iter fs L S db = (if length blks \<le> END then Ok () else Panic)"
proof -
  note conv = conversions_ok(3) [OF assms(2)]
  have "ccb_header (compact_ideal L S blks blk) = cb_header (compact_block_of L S blk)" for blk
    by (simp add: compact_ideal_def connected_of_def compact_connected_block_of_def compact_block_of_def)
  with assms(1) show ?thesis
    by (simp add: test_iter_connected_def assms(3) count_loop_upt assert_eq_min answers_get_block [OF assms(1) conv]
        answers_blocks_def)
qed

lemma iter_connected_early_end_passes:
  assumes "answers_connected fs L S R db blks"
    and "iter early_end = map (\<lambda>h. compact_ideal L S blks (blks ! h)) [0..<min early_end (length blks)]"
  shows "test_iter_connected_early_end iter R fs L S db early_end = (if early_end \<le> length blks then Ok () else Panic)"
  using assms(1) by (simp add: test_iter_connected_early_end_def assms(2) count_loop_upt assert_eq_min answers_connected_def)

lemma iter_connected_break_panics:
  assumes "answers_connected fs L S R db blks" and "length blks \<le> break_height"
  shows "test_iter_connected_break iter R fs L S db break_height = Panic"
proof -
  from assms obtain e where "get_connected_block fs L (compact_connected_block_connect R fs L S) db break_height = Err e"
    unfolding answers_connected_def by blast
  then show ?thesis by (simp add: test_iter_connected_break_def)
qed

text \<open>The loop that is left needs no more blocks than it looks at.\<close>

lemma iter_connected_break_passes:
  assumes "answers_connected fs L S R db blks" and "break_height < k" and "k \<le> length blks"
    and "iter END = map (\<lambda>h. compact_ideal L S blks (blks ! h)) [0..<k]"
  shows "test_iter_connected_break iter R fs L S db break_height = Ok ()"
  using assms(1-3) by (simp add: test_iter_connected_break_def assms(4) break_loop_nth answers_connected_def)

lemma get_connected_transactions_passes:
  assumes "answers_txs fs L db blks" and "answers_connected fs L S R db blks" and "p2pk_doc S"
    and spends: "\<forall>blk \<in> set blks. \<forall>tx \<in> set (txdata blk). length (tx_spends L tx) = (if is_coinbase L tx then 0 else length (tx_input tx))"
    and "iter early_end = map (\<lambda>h. compact_ideal L S blks (blks ! h)) [0..<min early_end (length blks)]"
  shows "test_get_connected_transactions iter R fs L S db early_end = Ok ()"
proof -
  let ?ct = "\<lambda>tx. compact_connected_of L S tx (map (\<lambda>p. the (map_option (compact_txout_of S) (chain_outputs L blks p))) (tx_spends L tx))"
  have txs: "ccb_txdata (compact_ideal L S blks blk) = map ?ct (txdata blk)" for blk
    by (simp add: compact_ideal_def connected_of_def compact_connected_block_of_def)
  have found: "get_connected_transaction fs L (compact_connected_tx_connect R fs L S) db (compute_txid L tx) = Ok (?ct tx)"
    "get_transaction fs L (compact_transaction_from L S) db (compute_txid L tx) = Ok (compact_transaction_of L S tx)"
    "get_transaction fs L (full_transaction_from L S) db (compute_txid L tx) = Ok (full_transaction_of L S tx)"
    if "h < length blks" "tx \<in> set (txdata (blks ! h))" for h tx
  proof -
    have "blks ! h \<in> set blks" using that(1) by simp
    with assms(1) that(2) have "get_transaction fs L Ok db (compute_txid L tx) = Ok tx" by (simp add: answers_txs_def)
    then show "get_transaction fs L (compact_transaction_from L S) db (compute_txid L tx) = Ok (compact_transaction_of L S tx)"
      and "get_transaction fs L (full_transaction_from L S) db (compute_txid L tx) = Ok (full_transaction_of L S tx)"
      by (simp_all add: get_transaction_conv [of fs L "compact_transaction_from L S"] get_transaction_conv [of fs L "full_transaction_from L S"]
          conversions_ok [OF assms(3)])
    from assms(2) that show "get_connected_transaction fs L (compact_connected_tx_connect R fs L S) db (compute_txid L tx) = Ok (?ct tx)"
      by (simp add: answers_connected_def)
  qed
  have "cct_txid (?ct tx) = compute_txid L tx" "length (cct_input (?ct tx)) = length (tx_spends L tx)" for tx
    by (simp_all add: compact_connected_of_def)
  moreover have "length (tx_spends L tx) = (if is_coinbase L tx then 0 else length (tx_input tx))"
    if "h < length blks" "tx \<in> set (txdata (blks ! h))" for h tx
    using spends nth_mem [OF that(1)] that(2) by blast
  ultimately have "for_each (check_connected_tx R fs L S db) (ccb_txdata (compact_ideal L S blks (blks ! h))) = Ok ()"
    if "h < length blks" for h
    using that by (simp add: txs for_each_iff check_connected_tx_def found [OF that] compact_transaction_of_def full_transaction_of_def)
  then show ?thesis by (simp add: test_get_connected_transactions_def assms(5) for_each_iff [of _ "map _ _"])
qed

text \<open>Of a valid chain, all blocks are yielded.\<close>

lemma valid_chain_prefix:
  assumes "valid_chain L blks"
  shows "map f (take (connected_prefix L blks {..<length blks} n) blks) = map (\<lambda>h. f (blks ! h)) [0..<min n (length blks)]"
  using valid_connected_prefix [OF assms, of "{..<length blks}" n] map_nth_take [of "min n (length blks)" blks f]
  by (simp add: readable_prefix_def takeWhile_less_upt)

text \<open>What has been yielded before the threads have come to an end, with either cache.\<close>

lemma mem_compact_seen:
  assumes "p2pk_doc S" and "sound_chain L blks" and "chain_readable_at fs L db blks R n"
    and "(fine_step (lock_update_unspent_cache fs L (compact_tx_impl L S) db) (lock_start L compact_block_impl)
        (lock_wstep L (compact_tx_impl L S) compact_block_impl) lock_finished n)\<^sup>*\<^sup>* lock_iter_new st"
  shows "\<exists>k \<le> length blks. pipeline_output (fine_done lock_finished st) 0 n = map (\<lambda>h. compact_ideal L S blks (blks ! h)) [0..<k]"
proof -
  from compact_blk.mem_lock.fine_result [OF assms(1,2) lock_reads_some [OF assms(3)] lock_ok_new lock_view_new
      assms(4) [unfolded lock_iter_new_def], folded compact_ideal_eq]
  obtain k where k: "k \<le> connected_prefix L blks R n"
    "pipeline_output (fine_done lock_finished st) 0 n = map (compact_ideal L S blks) (take k blks)" by blast
  from k(1) connected_prefix_length [of L blks R n] have "k \<le> length blks" by simp
  with k(2) map_nth_take [OF this, of "compact_ideal L S blks"] show ?thesis by auto
qed

lemma disk_compact_seen:
  assumes "p2pk_doc S" and "disk_good D rview L" and "sound_chain L blks" and "chain_readable_at fs L db blks R n" and "rview d = Map.empty"
    and "(fine_step (disk_update_unspent_cache D fs L db) Disk_Start
        (disk_wstep D L (compact_tx_impl L S) compact_block_impl) disk_finished n)\<^sup>*\<^sup>* (fine_init d) st"
  shows "\<exists>k \<le> length blks. pipeline_output (fine_done disk_finished st) 0 n = map (\<lambda>h. compact_ideal L S blks (blks ! h)) [0..<k]"
proof -
  from compact_disk_ops.fine_result [OF conjI [OF assms(1,2)] assms(3) disk_reads_some [OF assms(4)] TrueI
      disk_view_empty [of rview d, OF assms(5)] assms(6), folded compact_ideal_eq]
  obtain k where k: "k \<le> connected_prefix L blks R n"
    "pipeline_output (fine_done disk_finished st) 0 n = map (compact_ideal L S blks) (take k blks)" by blast
  from k(1) connected_prefix_length [of L blks R n] have "k \<le> length blks" by simp
  with k(2) map_nth_take [OF this, of "compact_ideal L S blks"] show ?thesis by auto
qed

section \<open>A directory with a chain answers them\<close>

text \<open>
  What the tests ask of the chain: it is valid, a txid belongs to one transaction, every block starts with its coinbase,
  and block 0 with the genesis transaction.
\<close>

definition test_chain :: "bitcoin_lib \<Rightarrow> hash256 \<Rightarrow> block list \<Rightarrow> bool" where
  "test_chain L genesis blks \<longleftrightarrow>
     valid_chain L blks \<and> inputs_spend L genesis blks \<and> inj_on (compute_txid L) (set (chain_txs blks))
     \<and> (\<forall>blk \<in> set blks. txdata blk \<noteq> [] \<and> length (txdata blk) < 2 ^ 32 \<and> is_coinbase L (hd (txdata blk)))
     \<and> (blks \<noteq> [] \<longrightarrow> compute_txid L (hd (txdata (hd blks))) = genesis)"

lemma test_chain_spends:
  assumes "test_chain L genesis blks" and "coinbase_doc L" and "blk \<in> set blks" and "tx \<in> set (txdata blk)"
  shows "length (tx_spends L tx) = (if is_coinbase L tx then 0 else length (tx_input tx))"
proof (cases "is_coinbase L tx")
  case False
  with assms(1,3,4) have "\<forall>i \<in> set (tx_input tx). \<not> is_null L (previous_output i)"
    unfolding test_chain_def inputs_spend_def by blast
  then have "tx_spends L tx = map previous_output (tx_input tx)" by (auto simp: tx_spends_def intro!: filter_True)
  with False show ?thesis by simp
qed (simp add: coinbase_spends [OF assms(2)])

lemma dir_answers_blocks:
  assumes dir: "dir_stores fs L leveldb_open dir msk sbs" and handle: "handle_of dir msk sbs db"
    and "test_chain L genesis (map sb_block sbs)"
  shows "answers_blocks fs L db (map sb_block sbs)"
proof -
  from handle have records: "bi_records (db_block_index db) = stored_records sbs" by (simp add: handle_of_def)
  have "n_tx r \<noteq> 0" if r: "r \<in> set (stored_records sbs)" for r
  proof -
    from r obtain h where h: "h < length sbs" "r = stored_record h (sbs ! h)" by (auto simp: in_set_conv_nth)
    with assms(3) have "0 < length (txdata (sb_block (sbs ! h)))" "length (txdata (sb_block (sbs ! h))) < 2 ^ 32"
      by (auto simp: test_chain_def)
    then have "(word_of_nat (length (txdata (sb_block (sbs ! h)))) :: u32) \<noteq> 0"
      by (metis bot_nat_0.not_eq_extremum unat_0 unat_word_of_nat_u32)
    with h show ?thesis by (simp add: stored_record_def)
  qed
  then have "get_block_count db = length sbs"
    by (simp add: get_block_count_def block_count_loop_eq records takeWhile_eq_all_conv [THEN iffD2])
  moreover have "get_block fs L Ok db h = Err (BlockIndexRecordNotFound h)" if "\<not> h < length sbs" for h
    using that by (simp add: get_block_def slice_get_def records)
  ultimately show ?thesis using dir_stores_raw_block(2) [OF dir handle] by (simp add: answers_blocks_def)
qed

lemma dir_answers_txs:
  assumes dir: "dir_stores fs L leveldb_open dir msk sbs" and handle: "handle_of dir msk sbs db" and ok: "db_ok L db"
    and td: "db_tx_db db = Some td" "td_genesis_txid td = genesis" and index: "txindex_stores L (td_db td) genesis sbs"
    and chain: "test_chain L genesis (map sb_block sbs)"
  shows "answers_txs fs L db (map sb_block sbs)"
proof -
  let ?blks = "map sb_block sbs"
  from dir have ne: "sbs \<noteq> []" by (simp add: dir_stores_def)
  from chain have inj: "inj_on (compute_txid L) (set (chain_txs ?blks))"
    and first: "txdata (sb_block (hd sbs)) \<noteq> []" "compute_txid L (hd (txdata (sb_block (hd sbs)))) = genesis"
    using ne by (simp_all add: test_chain_def hd_map)
  have "get_transaction fs L Ok db (compute_txid L tx) = Ok tx" if tx: "tx \<in> set (chain_txs ?blks)" for tx
  proof (cases "compute_txid L tx = genesis")
    case True
    have "hd (txdata (sb_block (hd sbs))) \<in> set (chain_txs ?blks)" using ne first(1) by (auto simp: chain_txs_def intro!: bexI [of _ "hd sbs"])
    from inj_onD [OF inj _ this tx] True first(2) dir_finds_genesis [OF dir handle td first(1)] show ?thesis by simp
  next
    case False
    from dir_finds [OF dir handle ok td index _ False] tx obtain h tx' where h: "h < length sbs"
      "tx' \<in> set (txdata (sb_block (sbs ! h)))" "compute_txid L tx' = compute_txid L tx"
      "get_transaction fs L Ok db (compute_txid L tx) = Ok tx'" by blast
    from chain_txs_nth [of h ?blks tx'] h have "tx' \<in> set (chain_txs ?blks)" by simp
    from inj_onD [OF inj h(3) this tx] h(4) show ?thesis by simp
  qed
  then show ?thesis by (auto simp: answers_txs_def chain_txs_def)
qed

lemma dir_answers_connected:
  assumes dir: "dir_stores fs L leveldb_open dir msk sbs" and handle: "handle_of dir msk sbs db" and ok: "db_ok L db"
    and td: "db_tx_db db = Some td" "td_genesis_txid td = genesis" and index: "txindex_stores L (td_db td) genesis sbs"
    and chain: "test_chain L genesis (map sb_block sbs)" and docs: "p2pk_doc S" "rayon_doc R" "coinbase_doc L"
  shows "answers_connected fs L S R db (map sb_block sbs)"
proof -
  let ?blks = "map sb_block sbs"
  from chain have valid: "valid_chain L ?blks" and spend: "inputs_spend L genesis ?blks" by (simp_all add: test_chain_def)
  then have here: "h \<in> connectable_heights L ?blks" if "h < length sbs" for h using that by (simp add: valid_chain_def)
  note agrees = dir_index_agrees [OF dir handle index td(2) sound_chain_blocks [OF valid_chain_sound [OF valid]] spend]
  have whole: "genesis_whole ?blks" using spend by (simp add: inputs_spend_def)
  note facts = docs dir_mask_ok [OF dir handle] dir_genesis_readable [OF dir handle whole] td(1) agrees
  have blk: "get_block fs L Ok db h = Ok (?blks ! h)" if "h < length sbs" for h
    using dir_stores_raw_block(2) [OF dir handle that] that by simp
  have above: "\<exists>e. get_connected_block fs L (compact_connected_block_connect R fs L S) db h = Err e" if "length sbs \<le> h" for h
    using that handle by (simp add: get_connected_block_def td(1) get_block_def slice_get_def handle_of_def)
  have "get_transaction fs L Ok db (compute_txid L tx) = Ok tx" if "h < length sbs" "tx \<in> set (txdata (?blks ! h))" for h tx
    using dir_answers_txs [OF dir handle ok td index chain] that by (auto simp: answers_txs_def)
  then show ?thesis
    using get_connected_block_at(2) [OF facts here blk] get_connected_transaction_at(2) [OF facts here] above
    by (simp add: answers_connected_def)
qed

section \<open>Properties\<close>

text \<open>
  C16. What becomes of the tests of the block iterator and of the queries on a data directory that stores a valid chain with its
  transaction index, for whatever heights they use. The one that counts all blocks passes if the chain has at most \<open>END\<close> = 700000
  blocks and panics otherwise; a range passes if it ends where it starts, or if it goes up and ends at most at the number of blocks, a loop that is left
  before \<open>END\<close> if the chain has the block it is left at, a list of heights if the chain has them all, and each panics otherwise. The
  tests of the transactions and of the coinbase inputs always pass. In the valid chain (\<open>test_chain\<close>) every block has fewer than
  \<open>2 ^ 32\<close> transactions and starts with its coinbase, a txid belongs to one transaction, no other input is null or names the
  genesis transaction, and block 0 starts with that, which has an output.
\<close>

theorem block_tests_pass:
  assumes "dir_stores fs L leveldb_open (crate_root_dir @ [''resources'', ''tests'', ''Bitcoin'']) msk sbs"
    and "from_str GENESIS_TXID = Inr genesis"
    and "dir_indexed fs L leveldb_open (crate_root_dir @ [''resources'', ''tests'', ''Bitcoin'']) genesis sbs"
    and "test_chain L genesis (map sb_block sbs)" and "p2pk_doc S"
    and "par_iter_doc P" and "par_iter_doc P'" and "par_iter_doc P''"
  shows "\<exists>db. get_test_db fs L leveldb_open from_str crate_root_dir = Ok db
    \<and> test_iter_block P fs L S db = (if length sbs \<le> END then Ok () else Panic)
    \<and> (\<forall>start early_end. test_iter_block_early_end P fs L S db start early_end =
         (if start = early_end \<or> start \<le> early_end \<and> early_end \<le> length sbs then Ok () else Panic))
    \<and> (\<forall>break_height < END. test_iter_block_break P fs L S db break_height = (if break_height < length sbs then Ok () else Panic))
    \<and> (\<forall>early_end. test_get_transactions P' fs L db early_end = Ok ())
    \<and> test_coinbase_input P P'' fs L S db = Ok ()
    \<and> (\<forall>test_heights. test_iter_block_heights P fs L S db test_heights =
         (if list_all (\<lambda>h. h < length sbs) test_heights then Ok () else Panic))"
proof -
  obtain db td where new: "get_test_db fs L leveldb_open from_str crate_root_dir = Ok db" "db_ok L db"
    and handle: "handle_of (crate_root_dir @ [''resources'', ''tests'', ''Bitcoin'']) msk sbs db"
    and td: "db_tx_db db = Some td" "td_genesis_txid td = genesis" and index: "txindex_stores L (td_db td) genesis sbs"
    by (rule dir_opens_indexed [where from_str = from_str, OF assms(1-3)]) (simp add: get_test_db_def bitcoin_db_new_db_ok)
  have blocks: "answers_blocks fs L db (map sb_block sbs)" by (rule dir_answers_blocks [OF assms(1) handle assms(4)])
  have txs: "answers_txs fs L db (map sb_block sbs)" by (rule dir_answers_txs [OF assms(1) handle new(2) td index assms(4)])
  have "\<forall>blk \<in> set (map sb_block sbs). txdata blk \<noteq> [] \<and> is_coinbase L (hd (txdata blk))"
    using assms(4) unfolding test_chain_def by blast
  with new(1) show ?thesis
    using iter_block_passes [OF blocks assms(5,6)] iter_block_early_end_passes [OF blocks assms(5,6)]
      iter_block_break_passes [OF blocks assms(5,6)] get_transactions_passes [OF blocks txs assms(7)]
      coinbase_input_passes [OF blocks assms(5,6,8)] iter_block_heights_passes [OF blocks assms(5,6)]
    by (intro exI [of _ db]) simp
qed

text \<open>
  C17. What becomes of the tests of the connected block iterator on such a directory, with either cache of unspent outputs and
  under every schedule of the threads: what is yielded is what the queries return, block by block and transaction by transaction.
  The test that counts all blocks passes if the chain has at most \<open>END\<close> = 700000 blocks, the one that ends early if the chain
  has that many, a loop that is left before \<open>END\<close> if the chain has the block it is left at, and each panics otherwise; the test of the
  transactions always passes. With either cache, a loop that is left early passes as soon as enough blocks have been yielded,
  wherever the threads are.
\<close>

theorem connected_tests_pass:
  assumes "dir_stores fs L leveldb_open (crate_root_dir @ [''resources'', ''tests'', ''Bitcoin'']) msk sbs"
    and "from_str GENESIS_TXID = Inr genesis"
    and "dir_indexed fs L leveldb_open (crate_root_dir @ [''resources'', ''tests'', ''Bitcoin'']) genesis sbs"
    and "test_chain L genesis (map sb_block sbs)" and "p2pk_doc S" and "rayon_doc R" and "coinbase_doc L"
    and "disk_good D rview L" and "disk_iter_db db_open num_cpus tempdir = Some d" and "rview d = Map.empty"
  shows "\<exists>db. get_test_db fs L leveldb_open from_str crate_root_dir = Ok db
    \<and> (\<forall>iter. (\<forall>n. mem_connected_block_iter fs L (compact_tx_impl L S) compact_block_impl db n (iter n))
          \<or> (\<forall>n. disk_connected_block_iter D db_open num_cpus tempdir fs L (compact_tx_impl L S) compact_block_impl db n (iter n)) \<longrightarrow>
        test_iter_connected iter fs L S db = (if length sbs \<le> END then Ok () else Panic)
        \<and> (\<forall>early_end. test_iter_connected_early_end iter R fs L S db early_end = (if early_end \<le> length sbs then Ok () else Panic))
        \<and> (\<forall>break_height < END. test_iter_connected_break iter R fs L S db break_height = (if break_height < length sbs then Ok () else Panic))
        \<and> (\<forall>early_end. test_get_connected_transactions iter R fs L S db early_end = Ok ()))
    \<and> (\<forall>st. (fine_step (lock_update_unspent_cache fs L (compact_tx_impl L S) db) (lock_start L compact_block_impl)
          (lock_wstep L (compact_tx_impl L S) compact_block_impl) lock_finished END)\<^sup>*\<^sup>* lock_iter_new st \<longrightarrow>
        (\<forall>break_height < length (pipeline_output (fine_done lock_finished st) 0 END).
           test_iter_connected_break (pipeline_output (fine_done lock_finished st) 0) R fs L S db break_height = Ok ()))
    \<and> (\<forall>st. (fine_step (disk_update_unspent_cache D fs L db) Disk_Start
          (disk_wstep D L (compact_tx_impl L S) compact_block_impl) disk_finished END)\<^sup>*\<^sup>* (fine_init d) st \<longrightarrow>
        (\<forall>break_height < length (pipeline_output (fine_done disk_finished st) 0 END).
           test_iter_connected_break (pipeline_output (fine_done disk_finished st) 0) R fs L S db break_height = Ok ()))"
proof -
  let ?blks = "map sb_block sbs"
  obtain db td where new: "get_test_db fs L leveldb_open from_str crate_root_dir = Ok db" "db_ok L db"
    and handle: "handle_of (crate_root_dir @ [''resources'', ''tests'', ''Bitcoin'']) msk sbs db"
    and td: "db_tx_db db = Some td" "td_genesis_txid td = genesis" and index: "txindex_stores L (td_db td) genesis sbs"
    by (rule dir_opens_indexed [where from_str = from_str, OF assms(1-3)]) (simp add: get_test_db_def bitcoin_db_new_db_ok)
  note blocks = dir_answers_blocks [OF assms(1) handle assms(4)]
    and txs = dir_answers_txs [OF assms(1) handle new(2) td index assms(4)]
    and connected = dir_answers_connected [OF assms(1) handle new(2) td index assms(4-7)]
    and readable = dir_stores_readable [OF assms(1) handle]
  have valid: "valid_chain L ?blks" using assms(4) by (simp add: test_chain_def)
  note sound = valid_chain_sound [OF valid]
  note yields = mem_compact_yields [OF assms(5) sound readable] disk_compact_yields [OF assms(5,8) sound readable assms(9,10)]
  note all = valid_chain_prefix [OF valid, of "compact_ideal L S ?blks", unfolded length_map]
  have "test_iter_connected iter fs L S db = (if length sbs \<le> END then Ok () else Panic)
      \<and> (\<forall>early_end. test_iter_connected_early_end iter R fs L S db early_end = (if early_end \<le> length sbs then Ok () else Panic))
      \<and> (\<forall>break_height < END. test_iter_connected_break iter R fs L S db break_height = (if break_height < length sbs then Ok () else Panic))
      \<and> (\<forall>early_end. test_get_connected_transactions iter R fs L S db early_end = Ok ())"
    if iter: "\<And>n. iter n = map (\<lambda>h. compact_ideal L S ?blks (?blks ! h)) [0..<min n (length ?blks)]" for iter
    using test_chain_spends [OF assms(4,7)]
      iter_connected_passes [where iter = iter, OF blocks assms(5) iter] iter_connected_early_end_passes [where iter = iter, OF connected iter]
      iter_connected_break_passes [where iter = iter, OF connected _ _ iter] iter_connected_break_panics [where iter = iter, OF connected]
      get_connected_transactions_passes [where iter = iter, OF txs connected assms(5) _ iter]
    by (simp add: not_less)
  moreover have left: "test_iter_connected_break out R fs L S db break_height = Ok ()"
    if "\<exists>k \<le> length ?blks. out END = map (\<lambda>h. compact_ideal L S ?blks (?blks ! h)) [0..<k]" and "break_height < length (out END)"
    for out break_height
    using that iter_connected_break_passes [where iter = out, OF connected] by auto
  ultimately show ?thesis
    using new(1) yields all left [OF mem_compact_seen [OF assms(5) sound readable]]
      left [OF disk_compact_seen [OF assms(5,8) sound readable assms(10)]]
    by (intro exI [of _ db] conjI allI impI) (auto simp: all)
qed

end
