(* ===== verification/Data_Dir_Samples.thy ===== *)
theory Data_Dir_Samples
  imports Integration_Tests
begin

text \<open>
  A data directory of three blocks, with an obfuscated block file, a block off the chain, an entry of another kind in the
  block index and a transaction index, for the witnesses of \<open>Data_Dir\<close>,
  \<open>Data_Dir_Lookup\<close> and \<open>Integration_Tests\<close>.
\<close>

section \<open>The chain\<close>

text \<open>
  A block has 82 bytes, nonce and parent first and last its coinbase and, if it is not zero, another
  transaction; transaction 6 spends the output of transaction 5, the others are coinbases.
\<close>

definition link_tx :: "byte \<Rightarrow> transaction" where
  "link_tx b = sample_tx (ucast b) [if b = 6 then sample_in 5 0 else sample_in 0 0xFFFFFFFF]"

definition link_txs :: "byte \<Rightarrow> byte \<Rightarrow> transaction list" where
  "link_txs t c = link_tx t # (if c = 0 then [] else [link_tx c])"

definition link_lib :: bitcoin_lib where
  "link_lib = sample_lib\<lparr>
     decode_block := (\<lambda>bs. if length bs < 82 then Inl ''eof''
       else Inr (\<lparr>blk_header = sample_header (ucast (bs ! 0)) (ucast (bs ! 1)), txdata = link_txs (bs ! 80) (bs ! 81)\<rparr>, drop 82 bs)),
     decode_transaction := (\<lambda>bs. case bs of [] \<Rightarrow> Inl ''eof'' | b # r \<Rightarrow> Inr (link_tx b, r))\<rparr>"

definition link_stored :: "nat \<Rightarrow> byte \<Rightarrow> byte \<Rightarrow> byte \<Rightarrow> byte \<Rightarrow> stored_block" where
  "link_stored pos nonce parent t c =
     \<lparr>sb_block = \<lparr>blk_header = sample_header (ucast nonce) (ucast parent), txdata = link_txs t c\<rparr>,
      sb_bytes = [nonce, parent] @ replicate 78 0 @ [t, c], sb_header = [nonce, parent], sb_version = 1, sb_status = 13,
      sb_file = 0, sb_pos = pos, sb_undo = 0\<rparr>"

definition link_chain :: "stored_block list" where
  "link_chain = [link_stored 4 1 0 4 0, link_stored 90 2 1 5 0, link_stored 176 3 2 8 6]"

definition link_stale :: stored_block where
  "link_stale = link_stored 4 9 1 7 0"

lemma link_lib_simps [simp]:
  "block_hash link_lib h = sample_hash (hdr_nonce h)" "compute_txid link_lib tx = sample_hash (tx_lock_time tx)"
  "is_null link_lib p \<longleftrightarrow> op_vout p = 0xFFFFFFFF"
  "decode_header link_lib = decode_header sample_lib" "is_coinbase link_lib = is_coinbase sample_lib"
  by (simp_all add: link_lib_def)

lemma link_stored_simps [simp]:
  "sb_file (link_stored pos a b t c) = 0" "sb_pos (link_stored pos a b t c) = pos"
  "sb_bytes (link_stored pos a b t c) = [a, b] @ replicate 78 0 @ [t, c]"
  "sb_block (link_stored pos a b t c) = \<lparr>blk_header = sample_header (ucast a) (ucast b), txdata = link_txs t c\<rparr>"
  "sb_hash link_lib (link_stored pos a b t c) = sample_hash (ucast a)"
  by (simp_all add: link_stored_def sb_hash_def)

lemma link_stored_ok: "pos < 2 ^ 32 \<Longrightarrow> stored_ok link_lib (link_stored pos a b t c)"
  by (simp add: stored_ok_def link_stored_def block_status_defs sample_lib_def) (simp add: link_lib_def nth_append)

lemma link_chain_ok: "list_all (stored_ok link_lib) link_chain" "stored_ok link_lib link_stale"
  by (simp_all add: link_chain_def link_stale_def link_stored_ok)

lemma link_linked: "chain_linked link_lib link_chain"
  by (simp add: chain_linked_def link_chain_def less_Suc_eq numeral_3_eq_3 All_less_Suc)

section \<open>The directory\<close>

abbreviation link_dir :: path where
  "link_dir \<equiv> [''resources'', ''tests'', ''Bitcoin'']"

definition link_index :: leveldb where
  "link_index = \<lparr>ldb_entries = ([0x66], [0]) # index_entry link_lib 1 link_stale
       # map (\<lambda>(h, sb). index_entry link_lib h sb) (enumerate 0 link_chain), ldb_get = (\<lambda>_. Inr None)\<rparr>"

definition link_txindex :: leveldb where
  "link_txindex = \<lparr>ldb_entries = [], ldb_get = (\<lambda>k.
       if k = 0x74 # sample_hash 5 then Inr (Some (varint_bytes 0 @ varint_bytes 90 @ varint_bytes 0))
       else if k = 0x74 # sample_hash 6 then Inr (Some (varint_bytes 0 @ varint_bytes 176 @ varint_bytes 1))
       else if k = 0x74 # sample_hash 8 then Inr (Some (varint_bytes 0 @ varint_bytes 176 @ varint_bytes 0))
       else Inr None)\<rparr>"

definition link_open :: "path \<Rightarrow> string + leveldb" where
  "link_open p = Inr (if last p = ''index'' then link_index else link_txindex)"

definition link_key :: "byte list" where
  "link_key = [1, 2, 3, 4, 5, 6, 7, 8]"

definition link_file :: "byte list" where
  "link_file = concat (map (\<lambda>sb. u32_le (word_of_nat (length (sb_bytes sb))) @ sb_bytes sb) link_chain)"

definition link_fs :: filesystem where
  "link_fs = sample_fs\<lparr>fs_exists := (\<lambda>_. True),
     fs_open := (\<lambda>p. Inr (if last p = ''xor.dat'' then link_key else unmask (Some link_key) link_file)),
     fs_read_dir := (\<lambda>_. Inr [Inr \<lparr>de_is_symlink = Inr False, de_path = link_dir @ [''blocks'', ''rev00000.dat'']\<rparr>,
       Inr \<lparr>de_is_symlink = Inr False, de_path = blk_path link_dir 0\<rparr>])\<rparr>"

lemma decode_valid_record:
  "stored_ok L sb \<Longrightarrow> valid_record L (index_entry L h sb) = Some (stored_record h sb)"
  using index_entry_decodes [of L sb h] by (simp add: valid_record_def split_beta)

lemma link_valid_records:
  "valid_records link_lib (ldb_entries link_index) = stored_record 1 link_stale # stored_records link_chain"
  "entries_decode link_lib (ldb_entries link_index)"
proof -
  have other: "valid_record link_lib ([0x66], [0]) = None" by (simp add: valid_record_def is_block_index_record_def)
  note ok = link_chain_ok [unfolded link_chain_def, simplified]
  show "valid_records link_lib (ldb_entries link_index) = stored_record 1 link_stale # stored_records link_chain"
    by (simp add: valid_records_def link_index_def List.map_filter_def other decode_valid_record ok link_chain_def stored_records_def)
  show "entries_decode link_lib (ldb_entries link_index)"
    using index_entry_decodes(2) [of link_lib] ok
    by (auto simp: entries_decode_def link_index_def link_chain_def is_block_index_record_def is_ok_def split_beta)
qed

lemma link_index_stores: "index_stores link_lib link_index link_chain"
proof -
  have hashes: "map (record_hash link_lib) (stored_records link_chain) = [sample_hash 1, sample_hash 2, sample_hash 3]"
    by (simp add: link_chain_def stored_records_def)
  have "sint (n_height (stored_record 1 link_stale)) < int (length link_chain) - 1"
    by (simp add: stored_record_def link_chain_def)
  moreover have "distinct (map (record_hash link_lib) (stored_record 1 link_stale # stored_records link_chain))"
    unfolding list.map hashes by (simp add: link_stale_def)
  moreover have "index_entry link_lib h (link_chain ! h) \<in> set (ldb_entries link_index)" if "h < length link_chain" for h
  proof -
    from that have "(h, link_chain ! h) \<in> set (enumerate 0 link_chain)" by (simp add: in_set_enumerate_eq)
    then show ?thesis unfolding link_index_def by force
  qed
  ultimately show ?thesis unfolding index_stores_def link_valid_records by (auto simp: link_valid_records)
qed

lemma link_block_at: "list_all (block_at link_fs link_dir (Some link_key)) link_chain"
proof -
  let ?f = "\<lambda>sb. u32_le (word_of_nat (length (sb_bytes sb))) @ sb_bytes sb"
  have disk: "fs_open link_fs (blk_path link_dir n) = Inr (unmask (Some link_key) link_file)" for n
    by (simp add: link_fs_def blk_path_def blk_name_def)
  have at: "block_at link_fs link_dir (Some link_key) sb"
    if "link_file = pre @ ?f sb @ post" "sb_pos sb = length pre + 4" for sb pre post
    unfolding block_at_def disk using that by (intro exI [of _ pre] exI [of _ post]) simp
  have len: "length (?f (link_stored p a b t c)) = 86" for p a b t c by (simp add: u32_le_def)
  let ?a = "link_stored 4 1 0 4 0" and ?b = "link_stored 90 2 1 5 0" and ?c = "link_stored 176 3 2 8 6"
  have all: "link_file = ?f ?a @ ?f ?b @ ?f ?c" by (simp add: link_file_def link_chain_def)
  have "block_at link_fs link_dir (Some link_key) ?a"
    by (rule at [of "[]"]) (simp add: all, simp)
  moreover have "block_at link_fs link_dir (Some link_key) ?b"
    by (rule at [of "?f ?a"]) (simp add: all, simp only: len link_stored_simps, simp)
  moreover have "block_at link_fs link_dir (Some link_key) ?c"
    by (rule at [of "?f ?a @ ?f ?b" _ "[]"]) (simp add: all, simp only: len link_stored_simps length_append, simp)
  ultimately show ?thesis by (simp add: link_chain_def)
qed

lemma link_files_listed: "files_listed link_fs link_dir link_chain"
proof -
  have rev: "parse_blk_index (link_dir @ [''blocks'', ''rev00000.dat'']) = None"
    by (simp add: parse_blk_index_def file_name_def strip_prefix_def)
  have blk: "parse_blk_index (blk_path link_dir 0) = Some 0"
    using parse_blk_index_roundtrip [of 0 "link_dir @ [''blocks'']" "5 - length (decimal 0)"] by (simp add: blk_path_def blk_name_def)
  let ?entries = "[Inr \<lparr>de_is_symlink = Inr False, de_path = link_dir @ [''blocks'', ''rev00000.dat'']\<rparr>,
       Inr \<lparr>de_is_symlink = Inr False, de_path = blk_path link_dir 0\<rparr>]"
  have "List.map_filter (entry_index link_fs) ?entries = [(0, blk_path link_dir 0)]"
    by (simp add: List.map_filter_def entry_index_def resolve_path_def rev [unfolded append_Cons append_Nil] blk link_fs_def sample_fs_def)
  then show ?thesis
    unfolding files_listed_def
    by (intro exI [of _ ?entries]) (auto simp: link_fs_def sample_fs_def entry_readable_def resolve_path_def link_chain_def)
qed

lemma link_dir_stores: "dir_stores link_fs link_lib link_open link_dir (Some link_key) link_chain"
  using link_index_stores link_block_at link_files_listed link_chain_ok(1) link_linked
  by (simp add: dir_stores_def link_open_def mask_stored_def XOR_MASK_LEN_def)
    (simp add: link_fs_def link_key_def link_chain_def)

lemma link_dir_indexed: "dir_indexed link_fs link_lib link_open link_dir (sample_hash 4) link_chain"
proof -
  have off: "\<exists>off < 2 ^ 32. tx_at link_lib sb off tx \<and> (\<exists>rest. varint_bytes k = varint_bytes off @ rest)"
    if "tx_at link_lib sb k tx" "k < 2 ^ 32" for sb k tx using that by (intro exI [of _ k]) simp
  have at: "\<exists>off < 2 ^ 32. tx_at link_lib (link_stored pos a b t c) off (link_tx t) \<and> (\<exists>rest. varint_bytes 0 = varint_bytes off @ rest)"
    "\<exists>off < 2 ^ 32. tx_at link_lib (link_stored pos a b t c) off (link_tx c) \<and> (\<exists>rest. varint_bytes 1 = varint_bytes off @ rest)"
    for pos a b t c by (rule off; simp add: tx_at_def link_lib_def)+
  have "compute_txid link_lib ` set (chain_txs (map sb_block link_chain)) = {sample_hash 4, sample_hash 5, sample_hash 8, sample_hash 6}"
    by (simp add: chain_txs_def link_chain_def link_txs_def link_tx_def)
  then have "txindex_stores link_lib link_txindex (sample_hash 4) link_chain"
    unfolding txindex_stores_def using at(1) [of 90 2 1 5 0] at [of 176 3 2 8 6]
    by (auto simp: link_txindex_def link_chain_def link_txs_def link_tx_def)
  then show ?thesis by (simp add: dir_indexed_def link_fs_def link_open_def)
qed

section \<open>Its chain is sound\<close>

abbreviation link_blocks :: "block list" where
  "link_blocks \<equiv> map sb_block link_chain"

lemma link_spends:
  "block_spends link_lib (link_blocks ! 0) = []" "block_spends link_lib (link_blocks ! Suc 0) = []"
  "block_spends link_lib (link_blocks ! Suc (Suc 0)) = [\<lparr>op_txid = sample_hash 5, op_vout = 0\<rparr>]" "length link_blocks = 3"
  by (simp_all add: block_spends_def tx_spends_def link_chain_def link_txs_def link_tx_def sample_in_def)

lemma link_sound: "sound_chain link_lib link_blocks"
proof -
  have "sound_blocks link_lib link_blocks"
    by (simp add: sound_blocks_def chain_txs_def link_chain_def link_txs_def link_tx_def)
  moreover have "map (block_spends link_lib) link_blocks = [[], [], [\<lparr>op_txid = sample_hash 5, op_vout = 0\<rparr>]]"
    using link_spends by (simp add: link_chain_def)
  moreover have "j \<le> h" if "h < length link_blocks" "p \<in> set (block_spends link_lib (link_blocks ! h))" "j < length link_blocks" for h p j
  proof -
    from that(1,2) link_spends have "h = Suc (Suc 0)" by (auto simp: less_Suc_eq numeral_3_eq_3)
    with that(3) link_spends(4) show ?thesis by simp
  qed
  ultimately show ?thesis
    unfolding sound_chain_def by (intro conjI allI impI ballI) simp_all
qed

lemma link_connectable: "connectable_heights link_lib link_blocks = {..<3}"
proof -
  have "chain_outputs link_lib link_blocks \<lparr>op_txid = sample_hash 5, op_vout = 0\<rparr> \<noteq> None"
    by (simp add: chain_outputs_def link_chain_def block_outputs_def tx_outputs_def link_txs_def link_tx_def)
  then show ?thesis
    using link_spends by (auto simp: connectable_heights_def less_Suc_eq numeral_3_eq_3)
qed

lemma link_inputs: "inputs_spend link_lib (sample_hash 4) link_blocks"
  by (simp add: inputs_spend_def genesis_whole_def link_chain_def link_txs_def link_tx_def sample_in_def sample_lib_def)

lemma link_whole: "genesis_whole link_blocks"
  using link_inputs by (simp add: inputs_spend_def)

lemma link_coinbase_doc: "coinbase_doc link_lib"
  using sample_coinbase_doc by (simp add: coinbase_doc_def)

lemma link_test_chain: "test_chain link_lib (sample_hash 4) link_blocks"
proof -
  have "valid_chain link_lib link_blocks"
    using link_sound link_connectable link_spends(4) by (simp add: valid_chain_def)
  moreover have "inj_on (compute_txid link_lib) (set (chain_txs link_blocks))"
    by (auto simp: chain_txs_def link_chain_def link_txs_def link_tx_def)
  ultimately show ?thesis
    using link_inputs by (simp add: test_chain_def) (simp add: link_chain_def link_txs_def link_tx_def sample_lib_def sample_in_def)
qed

lemma link_disk_good: "disk_good sample_rocks (\<lambda>d. d) link_lib"
  using toy_disk_good by (simp add: disk_good_def txout_codec_def link_lib_def toy_lib_def)

section \<open>Witnesses\<close>

theorem data_dir_roundtrip_witness:
  "\<exists>db. bitcoin_db_new link_fs link_lib link_open (\<lambda>_. Inr (sample_hash 4)) link_dir False = Ok db
     \<and> get_max_height db = 3 \<and> get_raw_block link_fs db 2 = Ok ([3, 2] @ replicate 78 0 @ [8, 6])
     \<and> get_height_from_hash db (sample_hash 3) = Ok 2"
proof -
  have h: "2 < length link_chain" "length link_chain = 3" by (simp_all add: link_chain_def)
  have "sb_hash link_lib (link_chain ! 2) = sample_hash 3" "sb_bytes (link_chain ! 2) = [3, 2] @ replicate 78 0 @ [8, 6]"
    by (simp_all add: link_chain_def)
  with data_dir_roundtrip [where from_str = "\<lambda>_. Inr (sample_hash 4)", OF link_dir_stores refl, of False] h show ?thesis
    by metis
qed

theorem data_dir_connected_iter_witness:
  "\<exists>db yielded. bitcoin_db_new link_fs link_lib link_open (\<lambda>_. Inr (sample_hash 4)) link_dir False = Ok db
     \<and> mem_connected_block_iter link_fs link_lib (full_tx_impl link_lib sample_script_lib) full_block_impl db 9 yielded
     \<and> length yielded = 3"
proof -
  have "readable_prefix {..<3} 9 = 3" by (simp add: readable_prefix_def upt_rec)
  with data_dir_connected_iter [where from_str = "\<lambda>_. Inr (sample_hash 4)", OF link_dir_stores refl sample_p2pk_doc link_sound, of False]
  show ?thesis by (auto simp: link_connectable link_spends(4) [simplified])
qed

theorem data_dir_connected_lookup_witness:
  "\<exists>db. bitcoin_db_new link_fs link_lib link_open (\<lambda>_. Inr (sample_hash 4)) link_dir True = Ok db
     \<and> is_ok (get_connected_block link_fs link_lib (full_connected_block_connect sample_rayon link_fs link_lib sample_script_lib) db 2)
     \<and> get_connected_block link_fs link_lib (full_connected_block_connect sample_rayon link_fs link_lib sample_script_lib) db 2
         = block_by_lookup link_lib (sample_hash 4) link_blocks (full_txout_of sample_script_lib) (full_connected_of link_lib sample_script_lib)
             (full_connected_block_of link_lib) (link_blocks ! 2)"
proof -
  have "2 < length link_chain" by (simp add: link_chain_def)
  with data_dir_connected_lookup [where from_str = "\<lambda>_. Inr (sample_hash 4)", OF link_dir_stores refl link_dir_indexed link_whole
      sample_p2pk_doc sample_rayon_doc link_coinbase_doc sound_chain_blocks [OF link_sound]] link_inputs
  show ?thesis by (auto simp: link_connectable is_ok_def)
qed

theorem data_dir_iter_is_lookup_witness:
  "\<exists>db yielded. bitcoin_db_new link_fs link_lib link_open (\<lambda>_. Inr (sample_hash 4)) link_dir True = Ok db
     \<and> mem_connected_block_iter link_fs link_lib (full_tx_impl link_lib sample_script_lib) full_block_impl db 9 yielded
     \<and> length yielded = 3
     \<and> map Ok yielded = takeWhile is_ok
         (map (get_connected_block link_fs link_lib (full_connected_block_connect sample_rayon link_fs link_lib sample_script_lib) db) [0..<9])"
proof -
  obtain db where new: "bitcoin_db_new link_fs link_lib link_open (\<lambda>_. Inr (sample_hash 4)) link_dir True = Ok db"
    and same: "\<And>n yielded. mem_connected_block_iter link_fs link_lib (full_tx_impl link_lib sample_script_lib) full_block_impl db n yielded \<longleftrightarrow>
      map Ok yielded = takeWhile is_ok
        (map (get_connected_block link_fs link_lib (full_connected_block_connect sample_rayon link_fs link_lib sample_script_lib) db) [0..<n])"
    using data_dir_iter_is_lookup [where from_str = "\<lambda>_. Inr (sample_hash 4)", OF link_dir_stores refl link_dir_indexed link_inputs
        sample_p2pk_doc sample_rayon_doc link_coinbase_doc link_sound] by blast
  let ?ys = "map (full_ideal link_lib sample_script_lib link_blocks) (take (connected_prefix link_lib link_blocks {..<length link_chain} 9) link_blocks)"
  from dir_stores_opens [where from_str = "\<lambda>_. Inr (sample_hash 4)", OF link_dir_stores refl, of True] new
  have handle: "handle_of link_dir (Some link_key) link_chain db" by auto
  have yields: "mem_connected_block_iter link_fs link_lib (full_tx_impl link_lib sample_script_lib) full_block_impl db 9 ?ys"
    unfolding mem_full_yields [OF sample_p2pk_doc link_sound dir_stores_readable [OF link_dir_stores handle]] ..
  have "readable_prefix {..<3} 9 = 3" by (simp add: readable_prefix_def upt_rec)
  then have "connected_prefix link_lib link_blocks {..<length link_chain} 9 = 3"
    by (simp add: connected_prefix_def link_connectable link_spends(4) [simplified])
  with link_spends(4) have "length ?ys = 3" by simp
  with new yields same show ?thesis by (intro exI [of _ db] exI [of _ ?ys]) simp
qed

theorem data_dir_connected_transactions_witness:
  "\<exists>db. bitcoin_db_new link_fs link_lib link_open (\<lambda>_. Inr (sample_hash 4)) link_dir True = Ok db
     \<and> (\<exists>tx. compute_txid link_lib tx = sample_hash 6
         \<and> get_connected_transaction link_fs link_lib (full_connected_tx_connect sample_rayon link_fs link_lib sample_script_lib) db (sample_hash 6)
           = tx_by_lookup link_lib (sample_hash 4) link_blocks (full_txout_of sample_script_lib) (full_connected_of link_lib sample_script_lib) tx)
     \<and> get_connected_transaction link_fs link_lib (full_connected_tx_connect sample_rayon link_fs link_lib sample_script_lib) db (sample_hash 77)
         = Err (TransactionRecordNotFound (sample_hash 77))"
proof -
  have txids: "compute_txid link_lib ` set (chain_txs link_blocks) = {sample_hash 4, sample_hash 5, sample_hash 8, sample_hash 6}"
    by (simp add: chain_txs_def link_chain_def link_txs_def link_tx_def)
  then have "sample_hash 6 \<in> compute_txid link_lib ` set (chain_txs link_blocks) - {sample_hash 4}"
    "sample_hash 77 \<notin> compute_txid link_lib ` set (chain_txs link_blocks)" "sample_hash 77 \<noteq> sample_hash 4" by simp_all
  with data_dir_connected_transactions [where from_str = "\<lambda>_. Inr (sample_hash 4)", OF link_dir_stores refl link_dir_indexed link_whole
      sample_p2pk_doc sample_rayon_doc link_coinbase_doc sound_chain_blocks [OF link_sound]]
  show ?thesis by metis
qed

theorem data_dir_transactions_witness:
  "\<exists>db h. bitcoin_db_new link_fs link_lib link_open (\<lambda>_. Inr (sample_hash 4)) link_dir True = Ok db
     \<and> get_block_height db (sample_hash 6) = Ok h"
proof -
  have "sample_hash 6 \<in> compute_txid link_lib ` set (chain_txs link_blocks)"
    by (simp add: chain_txs_def link_chain_def link_txs_def link_tx_def)
  with data_dir_transactions [where from_str = "\<lambda>_. Inr (sample_hash 4)", OF link_dir_stores refl link_dir_indexed]
  show ?thesis by fastforce
qed

text \<open>The tests on this directory, with other heights.\<close>

lemma link_tests_dir:
  "dir_stores link_fs link_lib link_open ([] @ [''resources'', ''tests'', ''Bitcoin'']) (Some link_key) link_chain"
  "dir_indexed link_fs link_lib link_open ([] @ [''resources'', ''tests'', ''Bitcoin'']) (sample_hash 4) link_chain"
  using link_dir_stores link_dir_indexed by simp_all

theorem block_tests_pass_witness:
  "\<exists>db. get_test_db link_fs link_lib link_open (\<lambda>_. Inr (sample_hash 4)) [] = Ok db
     \<and> test_iter_block sample_par_iter link_fs link_lib sample_script_lib db = Ok ()
     \<and> test_iter_block_early_end sample_par_iter link_fs link_lib sample_script_lib db 1 2 = Ok ()
     \<and> test_iter_block_early_end sample_par_iter link_fs link_lib sample_script_lib db 100 100000 = Panic
     \<and> test_iter_block_break sample_par_iter link_fs link_lib sample_script_lib db 1 = Ok ()
     \<and> test_iter_block_heights sample_par_iter link_fs link_lib sample_script_lib db [2, 0, 2, 1] = Ok ()"
proof -
  have len: "length link_chain = 3" by (simp add: link_chain_def)
  obtain db where db: "get_test_db link_fs link_lib link_open (\<lambda>_. Inr (sample_hash 4)) [] = Ok db"
    "test_iter_block sample_par_iter link_fs link_lib sample_script_lib db = (if 3 \<le> END then Ok () else Panic)"
    and range: "\<And>start early_end. test_iter_block_early_end sample_par_iter link_fs link_lib sample_script_lib db start early_end =
      (if start = early_end \<or> start \<le> early_end \<and> early_end \<le> 3 then Ok () else Panic)"
    and left: "\<And>k. k < END \<Longrightarrow> test_iter_block_break sample_par_iter link_fs link_lib sample_script_lib db k = (if k < 3 then Ok () else Panic)"
    and hs: "\<And>hs. test_iter_block_heights sample_par_iter link_fs link_lib sample_script_lib db hs =
      (if list_all (\<lambda>h. h < 3) hs then Ok () else Panic)"
    using block_tests_pass [where from_str = "\<lambda>_. Inr (sample_hash 4)", OF link_tests_dir(1) refl link_tests_dir(2) link_test_chain
        sample_p2pk_doc sample_par_iter_doc sample_par_iter_doc sample_par_iter_doc, unfolded len] by blast
  with left [of 1] show ?thesis by (intro exI [of _ db]) (simp add: END_def)
qed

theorem connected_tests_pass_witness:
  "\<exists>db iter. get_test_db link_fs link_lib link_open (\<lambda>_. Inr (sample_hash 4)) [] = Ok db
     \<and> (\<forall>n. mem_connected_block_iter link_fs link_lib (compact_tx_impl link_lib sample_script_lib) compact_block_impl db n (iter n))
     \<and> test_iter_connected iter link_fs link_lib sample_script_lib db = Ok ()
     \<and> test_iter_connected_break iter sample_rayon link_fs link_lib sample_script_lib db 2 = Ok ()
     \<and> test_get_connected_transactions iter sample_rayon link_fs link_lib sample_script_lib db 3 = Ok ()"
proof -
  obtain db where db: "get_test_db link_fs link_lib link_open (\<lambda>_. Inr (sample_hash 4)) [] = Ok db"
    and pass: "\<And>iter. (\<forall>n. mem_connected_block_iter link_fs link_lib (compact_tx_impl link_lib sample_script_lib) compact_block_impl db n (iter n)) \<Longrightarrow>
      test_iter_connected iter link_fs link_lib sample_script_lib db = (if length link_chain \<le> END then Ok () else Panic)
      \<and> (\<forall>k < END. test_iter_connected_break iter sample_rayon link_fs link_lib sample_script_lib db k
           = (if k < length link_chain then Ok () else Panic))
      \<and> (\<forall>e. test_get_connected_transactions iter sample_rayon link_fs link_lib sample_script_lib db e = Ok ())"
    using connected_tests_pass [where from_str = "\<lambda>_. Inr (sample_hash 4)" and rview = "\<lambda>d. d" and d = Map.empty, OF link_tests_dir(1) refl link_tests_dir(2) link_test_chain
        sample_p2pk_doc sample_rayon_doc link_coinbase_doc link_disk_good sample_iter_db refl] by blast
  from dir_stores_opens [where from_str = "\<lambda>_. Inr (sample_hash 4)", OF link_tests_dir(1) refl, of True] db
  have handle: "handle_of ([] @ [''resources'', ''tests'', ''Bitcoin'']) (Some link_key) link_chain db"
    by (auto simp: get_test_db_def)
  define iter where "iter n = map (compact_ideal link_lib sample_script_lib link_blocks)
    (take (connected_prefix link_lib link_blocks {..<length link_chain} n) link_blocks)" for n
  have "mem_connected_block_iter link_fs link_lib (compact_tx_impl link_lib sample_script_lib) compact_block_impl db n (iter n)" for n
    unfolding mem_compact_yields [OF sample_p2pk_doc link_sound dir_stores_readable [OF link_tests_dir(1) handle]] iter_def ..
  moreover have "2 < length link_chain" "length link_chain \<le> END" "2 < END" by (simp_all add: link_chain_def END_def)
  ultimately show ?thesis using db pass [of iter] by (intro exI [of _ db] exI [of _ iter]) simp
qed

end
