(* ===== verification/Script_Kinds.thy ===== *)
theory Script_Kinds
  imports Script
begin

text \<open>
  The classification of \<open>parser/script.rs\<close> against the kinds of output scripts the protocol
  defines, as patterns of bytes: \<open>evaluate_script\<close> tests nine kinds in turn, and here the kinds are
  shown not to overlap, so that its answer is the kind of the script and not the first test that
  fires. The unit tests of \<open>script.rs\<close> follow.
\<close>

section \<open>The instructions of a script\<close>

text \<open>
  The encoding of scripts: an opcode up to \<open>0x4b\<close> pushes as many of the bytes that follow,
  \<open>0x4c\<close> to \<open>0x4e\<close> as many as the next one, two or four bytes say, and the others stand for themselves.
\<close>

definition length_bytes :: "byte \<Rightarrow> nat" where
  "length_bytes b = (if b = 0x4c then 1 else if b = 0x4d then 2 else if b = 0x4e then 4 else 0)"

definition push_split :: "byte \<Rightarrow> byte list \<Rightarrow> (byte list \<times> byte list) option" where
  "push_split b bs =
     (let k = length_bytes b; n = if b \<le> 0x4b then unat b else le_nat (take k bs)
      in if length bs < k + n then None else Some (take n (drop k bs), drop (k + n) bs))"

lemma push_split_length: "push_split b bs = Some (d, r) \<Longrightarrow> length r \<le> length bs"
  by (auto simp: push_split_def Let_def split: if_splits)

function script_instructions :: "byte list \<Rightarrow> (string + instruction) list" where
  "script_instructions [] = []"
| "script_instructions (b # bs) =
     (if 0x4e < b then Inr (Op b) # script_instructions bs
      else (case push_split b bs of
              None \<Rightarrow> [Inl ''unexpected end of script'']
            | Some (d, r) \<Rightarrow> Inr (PushBytes d) # script_instructions r))"
  by pat_completeness auto
termination
  by (relation "measure length") (auto dest!: push_split_length)

section \<open>The kinds of scripts\<close>

definition p2pk_bytes :: "byte list \<Rightarrow> bool" where
  "p2pk_bytes s \<longleftrightarrow> length s = 67 \<and> s ! 0 = 0x41 \<and> s ! 66 = 0xac \<or> length s = 35 \<and> s ! 0 = 0x21 \<and> s ! 34 = 0xac"

definition p2pkh_bytes :: "byte list \<Rightarrow> bool" where
  "p2pkh_bytes s \<longleftrightarrow> length s = 25 \<and> take 3 s = [0x76, 0xa9, 0x14] \<and> drop 23 s = [0x88, 0xac]"

definition p2sh_bytes :: "byte list \<Rightarrow> bool" where
  "p2sh_bytes s \<longleftrightarrow> length s = 23 \<and> take 2 s = [0xa9, 0x14] \<and> drop 22 s = [0x87]"

definition p2wpkh_bytes :: "byte list \<Rightarrow> bool" where
  "p2wpkh_bytes s \<longleftrightarrow> length s = 22 \<and> take 2 s = [0x00, 0x14]"

definition p2wsh_bytes :: "byte list \<Rightarrow> bool" where
  "p2wsh_bytes s \<longleftrightarrow> length s = 34 \<and> take 2 s = [0x00, 0x20]"

definition witness_program_bytes :: "byte list \<Rightarrow> bool" where
  "witness_program_bytes s \<longleftrightarrow>
     4 \<le> length s \<and> length s \<le> 42
     \<and> (s ! 0 = 0x00 \<or> OP_PUSHNUM_1 \<le> s ! 0 \<and> s ! 0 \<le> OP_PUSHNUM_16) \<and> unat (s ! 1) = length s - 2"

definition op_return_bytes :: "byte list \<Rightarrow> bool" where
  "op_return_bytes s \<longleftrightarrow> take 1 s = [0x6a]"

definition multisig_bytes :: "byte list \<Rightarrow> bool" where
  "multisig_bytes s \<longleftrightarrow>
     (\<exists>m keys n v. script_instructions s = map Inr (multisig_chunks m keys n v) \<and> multisig_ops m keys n v)"

text \<open>
  What is documented of the \<open>bitcoin\<close> crate: the instruction iterator decodes the encoding (the
  error it stops with is not fixed here), the tests are those patterns, the hash of a key has the
  length \<open>PubkeyHash\<close> asks for, and \<open>Address::from_script\<close> knows no other kinds than the hashes
  and the witness programs.
\<close>

definition instruction_of :: "string + instruction \<Rightarrow> instruction option" where
  "instruction_of i = (case i of Inl e \<Rightarrow> None | Inr c \<Rightarrow> Some c)"

definition script_doc :: "('pk, 'addr) script_lib \<Rightarrow> bool" where
  "script_doc S \<longleftrightarrow>
     (\<forall>s. map instruction_of (instructions S s) = map instruction_of (script_instructions s))
     \<and> is_p2pk S = p2pk_bytes \<and> is_p2pkh S = p2pkh_bytes \<and> is_p2sh S = p2sh_bytes
     \<and> is_p2wpkh S = p2wpkh_bytes \<and> is_p2wsh S = p2wsh_bytes
     \<and> is_witness_program S = witness_program_bytes \<and> is_op_return S = op_return_bytes
     \<and> (\<forall>k. pubkey_hash_from_slice S (hash160 S k) = Some (hash160 S k))
     \<and> (\<forall>s net. address_from_script S s net \<noteq> None \<longrightarrow>
          p2pkh_bytes s \<or> p2sh_bytes s \<or> witness_program_bytes s)"

lemma script_docD:
  assumes "script_doc S"
  shows "map instruction_of (instructions S s) = map instruction_of (script_instructions s)"
    and "is_p2pk S = p2pk_bytes" "is_p2pkh S = p2pkh_bytes" "is_p2sh S = p2sh_bytes"
    and "is_p2wpkh S = p2wpkh_bytes" "is_p2wsh S = p2wsh_bytes"
    and "is_witness_program S = witness_program_bytes" "is_op_return S = op_return_bytes"
    and "pubkey_hash_from_slice S (hash160 S k) = Some (hash160 S k)"
    and "address_from_script S s net \<noteq> None \<Longrightarrow> p2pkh_bytes s \<or> p2sh_bytes s \<or> witness_program_bytes s"
  using assms unfolding script_doc_def by blast+

lemma instruction_of_Inr: "map instruction_of xs = map instruction_of (map Inr cs) \<longleftrightarrow> xs = map Inr cs"
proof (induction cs arbitrary: xs)
  case (Cons c cs)
  have "instruction_of x = Some c \<longleftrightarrow> x = Inr c" for x
    by (cases x) (simp_all add: instruction_of_def)
  with Cons show ?case by (cases xs) (simp_all add: instruction_of_def)
qed simp

lemma script_doc_instructions:
  assumes "script_doc S"
  shows "instructions S s = map Inr cs \<longleftrightarrow> script_instructions s = map Inr cs"
  using script_docD(1) [OF assms, of s] by (metis instruction_of_Inr)

lemma script_doc_multisig: "script_doc S \<Longrightarrow> is_multisig S s \<longleftrightarrow> multisig_bytes s"
  by (simp add: is_multisig_shape multisig_bytes_def script_doc_instructions)

section \<open>The kinds do not overlap\<close>

lemma multisig_bytes_head:
  assumes "multisig_bytes s"
  obtains m r keys n v where "s = m # r" "OP_PUSHNUM_1 \<le> m" "m \<le> OP_PUSHNUM_16" "keys \<noteq> []"
    and "script_instructions r = map Inr (map PushBytes keys @ [Op n, Op v])"
proof -
  from assms obtain m keys n v where inst: "script_instructions s = map Inr (multisig_chunks m keys n v)"
    and ops: "multisig_ops m keys n v" by (auto simp: multisig_bytes_def)
  from inst obtain b r where s: "s = b # r" by (cases s) (auto simp: multisig_chunks_def)
  with inst have "b = m" "script_instructions r = map Inr (map PushBytes keys @ [Op n, Op v])"
    by (auto simp: multisig_chunks_def split: if_splits option.splits)
  with s that multisig_opsD(2) [OF ops] ops show ?thesis by (auto simp: multisig_ops_def)
qed

lemma multisig_not_witness: "multisig_bytes s \<Longrightarrow> \<not> witness_program_bytes s"
proof
  assume "multisig_bytes s" and w: "witness_program_bytes s"
  then obtain m r keys n v where s: "s = m # r" and keys: "keys \<noteq> []"
    and inst: "script_instructions r = map Inr (map PushBytes keys @ [Op n, Op v])"
    by (elim multisig_bytes_head)
  from w s have len: "length r = unat (r ! 0) + 1" "length r \<le> 41" "3 \<le> length r"
    by (auto simp: witness_program_bytes_def)
  then obtain c d where r: "r = c # d" by (cases r) simp_all
  with len have c: "unat c = length d" "unat c \<le> 40" by simp_all
  then have "c \<le> 40" by (simp add: word_le_nat_alt)
  moreover from this have "\<not> 0x4e < c" "c \<le> 0x4b" by (simp_all add: word_le_nat_alt word_less_nat_alt)
  ultimately have "script_instructions r = [Inr (PushBytes d)]"
    using c(1) by (auto simp: r push_split_def length_bytes_def)
  with inst keys show False by (cases keys) auto
qed

text \<open>The first byte tells the kinds apart, up to the versions of the witness program.\<close>

lemma first_byte:
  "p2pk_bytes s \<Longrightarrow> s ! 0 = 0x41 \<or> s ! 0 = 0x21"
  "p2pkh_bytes s \<Longrightarrow> s ! 0 = 0x76"
  "p2sh_bytes s \<Longrightarrow> s ! 0 = 0xa9"
  "witness_program_bytes s \<Longrightarrow> s ! 0 = 0x00 \<or> OP_PUSHNUM_1 \<le> s ! 0 \<and> s ! 0 \<le> OP_PUSHNUM_16"
  "op_return_bytes s \<Longrightarrow> s ! 0 = 0x6a"
  "multisig_bytes s \<Longrightarrow> OP_PUSHNUM_1 \<le> s ! 0 \<and> s ! 0 \<le> OP_PUSHNUM_16"
proof -
  have head: "s ! 0 = b" if "take k s = b # bs" for k b bs
    using that by (cases s; cases k) simp_all
  show "p2pk_bytes s \<Longrightarrow> s ! 0 = 0x41 \<or> s ! 0 = 0x21" by (auto simp: p2pk_bytes_def)
  show "p2pkh_bytes s \<Longrightarrow> s ! 0 = 0x76" unfolding p2pkh_bytes_def by (blast intro: head)
  show "p2sh_bytes s \<Longrightarrow> s ! 0 = 0xa9" unfolding p2sh_bytes_def by (blast intro: head)
  show "witness_program_bytes s \<Longrightarrow> s ! 0 = 0x00 \<or> OP_PUSHNUM_1 \<le> s ! 0 \<and> s ! 0 \<le> OP_PUSHNUM_16"
    unfolding witness_program_bytes_def by blast
  show "op_return_bytes s \<Longrightarrow> s ! 0 = 0x6a" unfolding op_return_bytes_def by (blast intro: head)
  show "multisig_bytes s \<Longrightarrow> OP_PUSHNUM_1 \<le> s ! 0 \<and> s ! 0 \<le> OP_PUSHNUM_16"
    by (elim multisig_bytes_head) simp
qed

lemma witness_versions:
  "p2wpkh_bytes s \<Longrightarrow> witness_program_bytes s \<and> \<not> p2wsh_bytes s"
  "p2wsh_bytes s \<Longrightarrow> witness_program_bytes s"
proof -
  have pair: "s ! 0 = a \<and> s ! 1 = b" if "take 2 s = [a, b]" for a b
    using that by (cases s; cases "tl s") simp_all
  show "p2wpkh_bytes s \<Longrightarrow> witness_program_bytes s \<and> \<not> p2wsh_bytes s" "p2wsh_bytes s \<Longrightarrow> witness_program_bytes s"
    using pair [of 0 "0x14"] pair [of 0 "0x20"] by (simp_all add: p2wpkh_bytes_def p2wsh_bytes_def witness_program_bytes_def)
qed

lemma kinds_exclusive:
  "p2pk_bytes s \<Longrightarrow> \<not> p2pkh_bytes s \<and> \<not> p2sh_bytes s \<and> \<not> witness_program_bytes s \<and> \<not> op_return_bytes s \<and> \<not> multisig_bytes s"
  "p2pkh_bytes s \<Longrightarrow> \<not> p2sh_bytes s \<and> \<not> witness_program_bytes s \<and> \<not> op_return_bytes s \<and> \<not> multisig_bytes s"
  "p2sh_bytes s \<Longrightarrow> \<not> witness_program_bytes s \<and> \<not> op_return_bytes s \<and> \<not> multisig_bytes s"
  "witness_program_bytes s \<Longrightarrow> \<not> op_return_bytes s \<and> \<not> multisig_bytes s"
  "op_return_bytes s \<Longrightarrow> \<not> multisig_bytes s"
proof -
  show "p2pk_bytes s \<Longrightarrow> \<not> p2pkh_bytes s \<and> \<not> p2sh_bytes s \<and> \<not> witness_program_bytes s \<and> \<not> op_return_bytes s \<and> \<not> multisig_bytes s"
    by (auto dest!: first_byte)
  show "p2pkh_bytes s \<Longrightarrow> \<not> p2sh_bytes s \<and> \<not> witness_program_bytes s \<and> \<not> op_return_bytes s \<and> \<not> multisig_bytes s"
    by (auto dest!: first_byte)
  show "p2sh_bytes s \<Longrightarrow> \<not> witness_program_bytes s \<and> \<not> op_return_bytes s \<and> \<not> multisig_bytes s"
    by (auto dest!: first_byte)
  show "op_return_bytes s \<Longrightarrow> \<not> multisig_bytes s"
    by (auto dest!: first_byte)
  assume w: "witness_program_bytes s"
  then have "\<not> op_return_bytes s" by (auto dest!: first_byte)
  with w show "\<not> op_return_bytes s \<and> \<not> multisig_bytes s" using multisig_not_witness by blast
qed

section \<open>The answer is the kind\<close>

fun kind_bytes :: "script_type \<Rightarrow> byte list \<Rightarrow> bool" where
  "kind_bytes OpReturn s = op_return_bytes s"
| "kind_bytes Pay2MultiSig s = multisig_bytes s"
| "kind_bytes Pay2PublicKey s = p2pk_bytes s"
| "kind_bytes Pay2PublicKeyHash s = p2pkh_bytes s"
| "kind_bytes Pay2ScriptHash s = p2sh_bytes s"
| "kind_bytes Pay2WitnessPublicKeyHash s = p2wpkh_bytes s"
| "kind_bytes Pay2WitnessScriptHash s = p2wsh_bytes s"
| "kind_bytes WitnessProgram s = (witness_program_bytes s \<and> \<not> p2wpkh_bytes s \<and> \<not> p2wsh_bytes s)"
| "kind_bytes NotRecognised s =
     (\<not> (op_return_bytes s \<or> multisig_bytes s \<or> p2pk_bytes s \<or> p2pkh_bytes s \<or> p2sh_bytes s \<or> witness_program_bytes s))"

definition p2pk_key :: "byte list \<Rightarrow> byte list" where
  "p2pk_key s = take (length s - 2) (drop 1 s)"

text \<open>The addresses that go with a kind; \<open>as\<close> are those of a bare multi-signature script.\<close>

definition kind_addresses :: "('pk, 'addr) script_lib \<Rightarrow> byte list \<Rightarrow> network \<Rightarrow> script_type \<Rightarrow> 'addr list \<Rightarrow> bool" where
  "kind_addresses S s net k as \<longleftrightarrow>
     (case k of
        Pay2PublicKey \<Rightarrow> as = [address_p2pkh S (hash160 S (p2pk_key s)) Bitcoin]
      | Pay2MultiSig \<Rightarrow> multisig_addresses S s = Ok as
      | OpReturn \<Rightarrow> as = []
      | NotRecognised \<Rightarrow> as = []
      | _ \<Rightarrow> as = (case address_from_script S s net of None \<Rightarrow> [] | Some a \<Rightarrow> [a]))"

lemma kind_bytes_unique: "kind_bytes k s \<Longrightarrow> kind_bytes k' s \<Longrightarrow> k = k'"
  using kinds_exclusive [of s] witness_versions [of s] by (cases k; cases k') simp_all

lemma p2pk_instructions:
  assumes "p2pk_bytes s"
  shows "\<exists>rest. script_instructions s = Inr (PushBytes (p2pk_key s)) # rest"
proof -
  from assms obtain b bs where s: "s = b # bs" by (cases s) (auto simp: p2pk_bytes_def)
  with assms have "b = 0x41 \<and> length bs = 66 \<or> b = 0x21 \<and> length bs = 34" by (auto simp: p2pk_bytes_def)
  then show ?thesis unfolding s by (elim disjE) (simp_all add: push_split_def length_bytes_def p2pk_key_def)
qed

lemma script_doc_p2pk:
  assumes "script_doc S" and "is_p2pk S s"
  shows "\<exists>rest. instructions S s = Inr (PushBytes (p2pk_key s)) # rest"
proof -
  obtain rest where "script_instructions s = Inr (PushBytes (p2pk_key s)) # rest"
    using p2pk_instructions assms(2) script_docD(2) [OF assms(1)] by auto
  with script_docD(1) [OF assms(1), of s] obtain i rest where i: "instructions S s = i # rest"
    and "instruction_of i = Some (PushBytes (p2pk_key s))"
    by (auto simp: instruction_of_def map_eq_Cons_conv)
  then have "i = Inr (PushBytes (p2pk_key s))" by (cases i) (simp_all add: instruction_of_def)
  with i show ?thesis by simp
qed

lemma script_doc_p2pk_doc: "script_doc S \<Longrightarrow> p2pk_doc S"
  using script_doc_p2pk by (fastforce simp: p2pk_doc_def)

lemma evaluate_script_p2pk:
  assumes "script_doc S" and "p2pk_bytes s"
  shows "evaluate_script S s net = Ok (script_info_from_vec [address_p2pkh S (hash160 S (p2pk_key s)) Bitcoin] Pay2PublicKey)"
proof -
  have p: "is_p2pk S s" using assms by (simp add: script_docD(2))
  with script_doc_p2pk [OF assms(1)] obtain rest where "instructions S s = Inr (PushBytes (p2pk_key s)) # rest" by blast
  with p show ?thesis
    by (simp add: evaluate_script_def p2pk_to_address_def script_docD(9) [OF assms(1)] script_info_new_def)
qed

lemma evaluate_script_kind:
  assumes "script_doc S"
  obtains info where "evaluate_script S s net = Ok info" and "kind_bytes (si_pattern info) s"
    and "kind_addresses S s net (si_pattern info) (si_addresses info)"
proof (cases "p2pk_bytes s")
  case True
  with evaluate_script_p2pk [OF assms True] that show ?thesis by (simp add: kind_addresses_def)
next
  case False
  note doc = script_docD(2-8) [OF assms] script_doc_multisig [OF assms, of s]
  have none: "address_from_script S s net = None" if "\<not> p2pkh_bytes s" "\<not> p2sh_bytes s" "\<not> witness_program_bytes s"
    using script_docD(10) [OF assms, of s net] that by blast
  obtain as where as: "multisig_bytes s \<longrightarrow> multisig_addresses S s = Ok as"
    using multisig_addresses_ok [of S s] doc(8) by blast
  have "\<exists>info. evaluate_script S s net = Ok info \<and> kind_bytes (si_pattern info) s
      \<and> kind_addresses S s net (si_pattern info) (si_addresses info)"
    unfolding evaluate_script_def Let_def doc
    using False as none witness_versions [of s] by (simp add: kind_addresses_def)
  with that show ?thesis by blast
qed

text \<open>
  C35. The script type is the kind of the script. \<open>evaluate_script\<close> never panics; the type it reports is
  the one kind of output script whose byte pattern the script has, so the order of its tests decides
  nothing but that a witness program of version 0 is named by its length, and the addresses are those of that kind.
\<close>

theorem evaluate_script_classifies:
  assumes "script_doc S"
  shows "\<exists>info. evaluate_script S s net = Ok info \<and> (\<forall>k. si_pattern info = k \<longleftrightarrow> kind_bytes k s)
    \<and> kind_addresses S s net (si_pattern info) (si_addresses info)"
proof -
  obtain info where "evaluate_script S s net = Ok info" "kind_bytes (si_pattern info) s"
    "kind_addresses S s net (si_pattern info) (si_addresses info)"
    by (rule evaluate_script_kind [OF assms])
  with kind_bytes_unique show ?thesis by blast
qed

section \<open>Unit tests of the source\<close>

text \<open>
  The tests of \<open>script.rs\<close>; \<open>to_string\<close> is \<open>Display\<close> of \<open>Address\<close>. A test holds if it returns, so
  \<open>unwrap\<close> on no address fails it.
\<close>

definition test_assert ::
  "('pk, 'addr) script_lib \<Rightarrow> byte list \<Rightarrow> ('addr option \<Rightarrow> bool) \<Rightarrow> script_type \<Rightarrow> bool" where
  "test_assert S bytes first_address pattern =
     (case evaluate_script S bytes Bitcoin of
        Ok result \<Rightarrow>
          first_address (case si_addresses result of [] \<Rightarrow> None | a # _ \<Rightarrow> Some a) \<and> si_pattern result = pattern
      | _ \<Rightarrow> False)"

definition p2pkh_script :: "byte list" where
  "p2pkh_script =
    [0x76, 0xa9, 0x14, 0x12, 0xab, 0x8d, 0xc5, 0x88, 0xca, 0x9d, 0x57, 0x87, 0xdd, 0xe7, 0xeb, 0x29,
     0x56, 0x9d, 0xa6, 0x3c, 0x3a, 0x23, 0x8c, 0x88, 0xac]"

definition test_bitcoin_script_p2pkh :: "('pk, 'addr) script_lib \<Rightarrow> ('addr \<Rightarrow> string) \<Rightarrow> bool" where
  "test_bitcoin_script_p2pkh S to_string = test_assert S p2pkh_script
     (\<lambda>a. map_option to_string a = Some ''12higDjoCCNXSA95xZMWUdPvXNmkAduhWv'') Pay2PublicKeyHash"

definition p2pk_script :: "byte list" where
  "p2pk_script =
    [0x41, 0x04, 0x4b, 0xca, 0x63, 0x3a, 0x91, 0xde, 0x10, 0xdf, 0x85, 0xa6, 0x3d, 0x0a, 0x24, 0xcb,
     0x09, 0x78, 0x31, 0x48, 0xfe, 0x0e, 0x16, 0xc9, 0x2e, 0x93, 0x7f, 0xc4, 0x49, 0x15, 0x80, 0xc8,
     0x60, 0x75, 0x71, 0x48, 0xef, 0xfa, 0x05, 0x95, 0xa9, 0x55, 0xf4, 0x40, 0x78, 0xb4, 0x8b, 0xa6,
     0x7f, 0xa1, 0x98, 0x78, 0x2e, 0x8b, 0xb6, 0x81, 0x15, 0xda, 0x0d, 0xaa, 0x8f, 0xde, 0x53, 0x01,
     0xf7, 0xf9, 0xac]"

definition test_bitcoin_script_p2pk :: "('pk, 'addr) script_lib \<Rightarrow> ('addr \<Rightarrow> string) \<Rightarrow> bool" where
  "test_bitcoin_script_p2pk S to_string = test_assert S p2pk_script
     (\<lambda>a. map_option to_string a = Some ''1LEWwJkDj8xriE87ALzQYcHjTmD8aqDj1f'') Pay2PublicKey"

definition p2ms_script :: "byte list" where
  "p2ms_script =
    [0x52, 0x21, 0x02, 0x2d, 0xf8, 0x75, 0x04, 0x80, 0xad, 0x5b, 0x26, 0x95, 0x0b, 0x25, 0xc7, 0xba,
     0x79, 0xd3, 0xe3, 0x7d, 0x75, 0xf6, 0x40, 0xf8, 0xe5, 0xd9, 0xbc, 0xd5, 0xb1, 0x50, 0xa0, 0xf8,
     0x50, 0x14, 0xda, 0x21, 0x03, 0xe3, 0x81, 0x8b, 0x65, 0xbc, 0xc7, 0x3a, 0x7d, 0x64, 0x06, 0x41,
     0x06, 0xa8, 0x59, 0xcc, 0x1a, 0x5a, 0x72, 0x8c, 0x43, 0x45, 0xff, 0x0b, 0x64, 0x12, 0x09, 0xfb,
     0xa0, 0xd9, 0x0d, 0xe6, 0xe9, 0x21, 0x02, 0x1f, 0x2f, 0x6e, 0x1e, 0x50, 0xcb, 0x6a, 0x95, 0x39,
     0x35, 0xc3, 0x60, 0x12, 0x84, 0x92, 0x5d, 0xec, 0xd3, 0xfd, 0x21, 0xbc, 0x44, 0x57, 0x12, 0x57,
     0x68, 0x73, 0xfb, 0x8c, 0x6e, 0xbc, 0x18, 0x53, 0xae]"

definition test_bitcoin_script_p2ms :: "('pk, 'addr) script_lib \<Rightarrow> bool" where
  "test_bitcoin_script_p2ms S = test_assert S p2ms_script (\<lambda>_. True) Pay2MultiSig"

definition p2sh_script :: "byte list" where
  "p2sh_script =
    [0xa9, 0x14, 0xe9, 0xc3, 0xdd, 0x0c, 0x07, 0xaa, 0xc7, 0x61, 0x79, 0xeb, 0xc7, 0x6a, 0x6c, 0x78,
     0xd4, 0xd6, 0x7c, 0x6c, 0x16, 0x0a, 0x87]"

definition test_bitcoin_script_p2sh :: "('pk, 'addr) script_lib \<Rightarrow> ('addr \<Rightarrow> string) \<Rightarrow> bool" where
  "test_bitcoin_script_p2sh S to_string = test_assert S p2sh_script
     (\<lambda>a. map_option to_string a = Some ''3P14159f73E4gFr7JterCCQh9QjiTjiZrG'') Pay2ScriptHash"

definition test_bitcoin_script_non_standard :: "('pk, 'addr) script_lib \<Rightarrow> bool" where
  "test_bitcoin_script_non_standard S = test_assert S [0x73, 0x63, 0x72, 0x69, 0x70, 0x74] (\<lambda>a. a = None) NotRecognised"

definition test_bitcoin_bogus_script :: "('pk, 'addr) script_lib \<Rightarrow> bool" where
  "test_bitcoin_bogus_script S = test_assert S [0x4c, 0xff, 0x00] (\<lambda>a. a = None) NotRecognised"

lemma test_assert_kind:
  assumes "script_doc S" and "kind_bytes k bytes" and "\<And>as. kind_addresses S bytes Bitcoin k as \<longleftrightarrow> as = addresses"
  shows "test_assert S bytes P k \<longleftrightarrow> P (case addresses of [] \<Rightarrow> None | a # _ \<Rightarrow> Some a)"
proof -
  obtain info where "evaluate_script S bytes Bitcoin = Ok info" "kind_bytes (si_pattern info) bytes"
    "kind_addresses S bytes Bitcoin (si_pattern info) (si_addresses info)"
    by (rule evaluate_script_kind [OF assms(1)])
  moreover from this(2) assms(2) have "si_pattern info = k" by (rule kind_bytes_unique)
  ultimately show ?thesis using assms(3) by (simp add: test_assert_def)
qed

text \<open>
  The tests that ask for no address of a key pass. Those that ask for the text of an address pass exactly
  if the \<open>bitcoin\<close> crate writes the address of that script, or of the hash of the key in it, that way.
\<close>

lemma p2ms_instructions:
  "script_instructions p2ms_script = map Inr (multisig_chunks 0x52
    [[0x02, 0x2d, 0xf8, 0x75, 0x04, 0x80, 0xad, 0x5b, 0x26, 0x95, 0x0b, 0x25, 0xc7, 0xba, 0x79, 0xd3,
     0xe3, 0x7d, 0x75, 0xf6, 0x40, 0xf8, 0xe5, 0xd9, 0xbc, 0xd5, 0xb1, 0x50, 0xa0, 0xf8, 0x50, 0x14,
     0xda],
     [0x03, 0xe3, 0x81, 0x8b, 0x65, 0xbc, 0xc7, 0x3a, 0x7d, 0x64, 0x06, 0x41, 0x06, 0xa8, 0x59, 0xcc,
     0x1a, 0x5a, 0x72, 0x8c, 0x43, 0x45, 0xff, 0x0b, 0x64, 0x12, 0x09, 0xfb, 0xa0, 0xd9, 0x0d, 0xe6,
     0xe9],
     [0x02, 0x1f, 0x2f, 0x6e, 0x1e, 0x50, 0xcb, 0x6a, 0x95, 0x39, 0x35, 0xc3, 0x60, 0x12, 0x84, 0x92,
     0x5d, 0xec, 0xd3, 0xfd, 0x21, 0xbc, 0x44, 0x57, 0x12, 0x57, 0x68, 0x73, 0xfb, 0x8c, 0x6e, 0xbc,
     0x18]] 0x53 0xae)"
  by (simp add: p2ms_script_def multisig_chunks_def push_split_def length_bytes_def)

lemma p2ms_multisig: "multisig_bytes p2ms_script"
  unfolding multisig_bytes_def by (intro exI conjI, rule p2ms_instructions) (simp add: multisig_ops_def)

lemma kind_addresses_none: "kind_addresses S s net NotRecognised as \<longleftrightarrow> as = []"
  by (simp add: kind_addresses_def)

lemma short_not_recognised:
  assumes "s ! 0 \<notin> {0x6a, 0x00, 0x76, 0xa9}" and "length s \<noteq> 35" and "length s \<noteq> 67"
    and "\<not> (OP_PUSHNUM_1 \<le> s ! 0 \<and> s ! 0 \<le> OP_PUSHNUM_16)"
  shows "kind_bytes NotRecognised s"
  using assms first_byte [of s] by (auto simp: p2pk_bytes_def)

lemma script_tests_pass:
  assumes "script_doc S"
  shows "test_bitcoin_script_p2ms S" "test_bitcoin_script_non_standard S" "test_bitcoin_bogus_script S"
proof -
  obtain as where as: "multisig_addresses S p2ms_script = Ok as"
    using multisig_addresses_ok script_doc_multisig [OF assms] p2ms_multisig by blast
  show "test_bitcoin_script_p2ms S"
    unfolding test_bitcoin_script_p2ms_def
    by (subst test_assert_kind [OF assms, of _ _ as]) (auto simp: p2ms_multisig kind_addresses_def as)
  show "test_bitcoin_script_non_standard S" "test_bitcoin_bogus_script S"
    unfolding test_bitcoin_script_non_standard_def test_bitcoin_bogus_script_def
    by (subst test_assert_kind [OF assms short_not_recognised kind_addresses_none]; simp)+
qed

lemma script_address_tests:
  assumes "script_doc S"
  shows "test_bitcoin_script_p2pkh S to_string \<longleftrightarrow>
      map_option to_string (address_from_script S p2pkh_script Bitcoin) = Some ''12higDjoCCNXSA95xZMWUdPvXNmkAduhWv''"
    and "test_bitcoin_script_p2pk S to_string \<longleftrightarrow>
      to_string (address_p2pkh S (hash160 S (p2pk_key p2pk_script)) Bitcoin) = ''1LEWwJkDj8xriE87ALzQYcHjTmD8aqDj1f''"
    and "test_bitcoin_script_p2sh S to_string \<longleftrightarrow>
      map_option to_string (address_from_script S p2sh_script Bitcoin) = Some ''3P14159f73E4gFr7JterCCQh9QjiTjiZrG''"
proof -
  have "kind_bytes Pay2PublicKeyHash p2pkh_script" "kind_bytes Pay2PublicKey p2pk_script" "kind_bytes Pay2ScriptHash p2sh_script"
    by (simp_all add: p2pkh_script_def p2pkh_bytes_def p2pk_script_def p2pk_bytes_def p2sh_script_def p2sh_bytes_def)
  note kinds = this [THEN test_assert_kind [OF assms]]
  show "test_bitcoin_script_p2pkh S to_string \<longleftrightarrow>
      map_option to_string (address_from_script S p2pkh_script Bitcoin) = Some ''12higDjoCCNXSA95xZMWUdPvXNmkAduhWv''"
    unfolding test_bitcoin_script_p2pkh_def
    by (subst kinds(1)) (auto simp: kind_addresses_def split: option.splits)
  show "test_bitcoin_script_p2pk S to_string \<longleftrightarrow>
      to_string (address_p2pkh S (hash160 S (p2pk_key p2pk_script)) Bitcoin) = ''1LEWwJkDj8xriE87ALzQYcHjTmD8aqDj1f''"
    unfolding test_bitcoin_script_p2pk_def
    by (subst kinds(2)) (auto simp: kind_addresses_def)
  show "test_bitcoin_script_p2sh S to_string \<longleftrightarrow>
      map_option to_string (address_from_script S p2sh_script Bitcoin) = Some ''3P14159f73E4gFr7JterCCQh9QjiTjiZrG''"
    unfolding test_bitcoin_script_p2sh_def
    by (subst kinds(3)) (auto simp: kind_addresses_def split: option.splits)
qed

section \<open>A concrete library\<close>

text \<open>The documented instruction iterator and tests; keys stand for their hashes and addresses.\<close>

definition std_script_lib :: "(byte list, byte list) script_lib" where
  "std_script_lib =
     \<lparr>address_from_script = (\<lambda>s _. if p2pkh_bytes s \<or> p2sh_bytes s \<or> witness_program_bytes s then Some s else None),
      is_p2pk = p2pk_bytes, is_p2pkh = p2pkh_bytes, is_p2sh = p2sh_bytes, is_p2wpkh = p2wpkh_bytes, is_p2wsh = p2wsh_bytes,
      is_witness_program = witness_program_bytes, is_op_return = op_return_bytes,
      instructions = script_instructions, public_key_from_slice = Some,
      pubkey_hash = (\<lambda>k. k), hash160 = (\<lambda>k. k), pubkey_hash_from_slice = Some, address_p2pkh = (\<lambda>h _. h)\<rparr>"

lemma std_script_doc: "script_doc std_script_lib"
  by (simp add: script_doc_def std_script_lib_def)

theorem evaluate_script_classifies_witness:
  "\<exists>info. evaluate_script std_script_lib p2ms_script Bitcoin = Ok info \<and> si_pattern info = Pay2MultiSig"
  using evaluate_script_classifies [OF std_script_doc, of p2ms_script Bitcoin] p2ms_multisig by auto

end
