(* ===== verification/Db_Open.thy ===== *)
theory Db_Open
  imports Bitcoin_DB
begin

text \<open>
  Every way in which \<open>BitcoinDB::new\<close> (\<open>api.rs\<close>) can end, by what the directory holds: the exact conditions of success and
  of each error. It panics only on a block index whose chain is broken.
\<close>

section \<open>The block files\<close>

text \<open>There is no \<open>xor.dat\<close> or it has a mask; the directory and its entries can be read, with these block files.\<close>

definition mask_readable :: "filesystem \<Rightarrow> path \<Rightarrow> bool" where
  "mask_readable fs blocks_dir \<longleftrightarrow> \<not> fs_exists fs (blocks_dir @ [''xor.dat''])
     \<or> (\<exists>bytes. fs_open fs (blocks_dir @ [''xor.dat'']) = Inr bytes \<and> XOR_MASK_LEN \<le> length bytes)"

definition block_files :: "filesystem \<Rightarrow> path \<Rightarrow> (i32 \<times> path) list option" where
  "block_files fs blocks_dir =
     (case fs_read_dir fs blocks_dir of
        Inl e \<Rightarrow> None
      | Inr entries \<Rightarrow> if list_all (entry_readable fs) entries then Some (List.map_filter (entry_index fs) entries) else None)"

lemma scan_entries_unreadable:
  "\<not> list_all (entry_readable fs) entries \<Longrightarrow> \<exists>e. scan_entries fs entries m = Err (Io e)"
proof (induction entries arbitrary: m)
  case (Cons entry entries)
  show ?case
  proof (cases entry)
    case (Inr d)
    with Cons show ?thesis
      by (cases "resolve_path fs d") (auto simp: entry_readable_def split: option.splits)
  qed simp
qed simp

lemma scan_blocks_dir_outcome:
  "scan_blocks_dir fs d = Err EmptyBlockFiles \<and> block_files fs d = Some []
   \<or> (\<exists>files. scan_blocks_dir fs d = Ok files \<and> block_files fs d \<notin> {None, Some []})
   \<or> (\<exists>e. scan_blocks_dir fs d = Err (Io e) \<and> block_files fs d = None)"
proof (cases "fs_read_dir fs d")
  case (Inr entries)
  show ?thesis
  proof (cases "list_all (entry_readable fs) entries")
    case True
    with scan_blocks_dir_eq [OF Inr True] Inr show ?thesis by (simp add: block_files_def Let_def)
  next
    case False
    with scan_entries_unreadable [OF False, of Map.empty] Inr show ?thesis
      by (auto simp: scan_blocks_dir_def block_files_def)
  qed
qed (simp add: scan_blocks_dir_def block_files_def)

lemma blk_file_new_outcome:
  "blk_file_new fs d = Err EmptyBlockFiles \<and> mask_readable fs d \<and> block_files fs d = Some []
   \<or> (\<exists>bf. blk_file_new fs d = Ok bf \<and> mask_readable fs d \<and> block_files fs d \<notin> {None, Some []})
   \<or> (\<exists>e. blk_file_new fs d = Err (Io e) \<and> \<not> (mask_readable fs d \<and> block_files fs d \<noteq> None))"
proof (cases "read_xor_mask fs d")
  case (Inl e)
  then have "\<not> mask_readable fs d"
    by (auto simp: read_xor_mask_eq mask_readable_def split: if_splits sum.splits)
  with Inl show ?thesis by (simp add: blk_file_new_def)
next
  case (Inr msk)
  then have "mask_readable fs d"
    by (auto simp: read_xor_mask_eq mask_readable_def split: if_splits sum.splits)
  with Inr scan_blocks_dir_outcome [of fs d] show ?thesis by (auto simp: blk_file_new_def)
qed

section \<open>The handle\<close>

text \<open>What is asked of the block index, if it can be opened: it decodes, and no parent is missing.\<close>

definition index_consistent :: "bitcoin_lib \<Rightarrow> (string + leveldb) \<Rightarrow> bool" where
  "index_consistent L opened \<longleftrightarrow>
     (\<forall>db. opened = Inr db \<longrightarrow> entries_decode L (ldb_entries db) \<and> parents_present L (valid_records L (ldb_entries db)))"

lemma block_index_new_outcome:
  assumes "index_consistent L opened"
  shows "(\<exists>e. opened = Inl e \<and> block_index_new L opened = Err (Leveldb e)) \<or> (\<exists>db bi. opened = Inr db \<and> block_index_new L opened = Ok bi)"
proof (cases opened)
  case (Inr db)
  with assms load_block_index_succeeds [of L db] show ?thesis by (auto simp: index_consistent_def block_index_new_def)
qed (simp add: block_index_new_def load_block_index_def)

lemma tx_db_open_outcome:
  "from_str GENESIS_TXID = Inr genesis \<Longrightarrow>
     \<exists>td. tx_db_open from_str ex opened bi = Ok td \<and> (td \<noteq> None \<longleftrightarrow> ex \<and> (\<exists>db. opened = Inr db))"
  by (auto simp: tx_db_open_def split: sum.split)

text \<open>
  C21. Every outcome of \<open>BitcoinDB::new\<close> by what the directory holds. It does not panic on a consistent block index; it succeeds
  exactly when the directory exists, the index opens, the mask and the entries of the blocks directory can be read, and there is
  a block file; each error means what it says; and the transaction index is there exactly when it was asked for
  and opens, without being an error otherwise.
\<close>

theorem bitcoin_db_new_outcomes:
  fixes L leveldb_open dir fs
  defines "index \<equiv> leveldb_open (dir @ [''blocks'', ''index''])" and "blocks \<equiv> dir @ [''blocks'']"
    and "txindex \<equiv> dir @ [''indexes'', ''txindex'']"
  assumes "index_consistent L index" and "from_str GENESIS_TXID = Inr genesis"
    and "new = bitcoin_db_new fs L leveldb_open from_str dir tx_index"
  shows "returns new
    \<and> (new = Err (BitcoinDataDirDoesNotExist dir) \<longleftrightarrow> \<not> fs_exists fs dir)
    \<and> (\<forall>e. new = Err (Leveldb e) \<longleftrightarrow> fs_exists fs dir \<and> index = Inl e)
    \<and> (new = Err EmptyBlockFiles \<longleftrightarrow> fs_exists fs dir \<and> \<not> isl index \<and> mask_readable fs blocks \<and> block_files fs blocks = Some [])
    \<and> ((\<exists>e. new = Err (Io e)) \<longleftrightarrow> fs_exists fs dir \<and> \<not> isl index \<and> \<not> (mask_readable fs blocks \<and> block_files fs blocks \<noteq> None))
    \<and> (is_ok new \<longleftrightarrow> fs_exists fs dir \<and> \<not> isl index \<and> mask_readable fs blocks \<and> block_files fs blocks \<notin> {None, Some []})
    \<and> (\<forall>db. new = Ok db \<longrightarrow> db_ok L db
         \<and> (db_tx_db db \<noteq> None \<longleftrightarrow> tx_index \<and> fs_exists fs txindex \<and> \<not> isl (leveldb_open txindex)))"
proof (cases "fs_exists fs dir")
  case False
  then have "new = Err (BitcoinDataDirDoesNotExist dir)" by (simp add: assms(6) bitcoin_db_new_def)
  with False show ?thesis by (simp add: is_ok_def)
next
  case True
  consider (broken) e where "index = Inl e" "block_index_new L index = Err (Leveldb e)"
    | (opened) ldb bi where "index = Inr ldb" "block_index_new L index = Ok bi"
    using block_index_new_outcome [OF assms(4)] by blast
  then show ?thesis
  proof cases
    case broken
    with True have "new = Err (Leveldb e)" by (simp add: assms(6) bitcoin_db_new_def Let_def index_def)
    with True broken show ?thesis by (auto simp: is_ok_def)
  next
    case opened
    obtain td where td: "tx_db_open from_str (fs_exists fs txindex) (leveldb_open txindex) bi = Ok td"
      "td \<noteq> None \<longleftrightarrow> fs_exists fs txindex \<and> (\<exists>db. leveldb_open txindex = Inr db)" using tx_db_open_outcome [where from_str = from_str, OF assms(5)] by blast
    let ?td = "if tx_index then td else None"
    have new: "new = bind_result (blk_file_new fs blocks) (\<lambda>bf. Ok \<lparr>db_blk_file = bf, db_block_index = bi, db_tx_db = ?td\<rparr>)"
      using True opened(2) td(1) by (simp add: assms(6) bitcoin_db_new_def Let_def index_def blocks_def txindex_def)
    have ok: "db_ok L db" if "new = Ok db" for db using that bitcoin_db_new_db_ok unfolding assms(6) by blast
    have tx: "(?td \<noteq> None) = (tx_index \<and> fs_exists fs txindex \<and> \<not> isl (leveldb_open txindex))"
      using td(2) by (cases "leveldb_open txindex") auto
    from blk_file_new_outcome [of fs blocks] show ?thesis
      using True opened(1) tx ok unfolding new by (auto simp: is_ok_def)
  qed
qed

section \<open>A sample\<close>

lemma sample_consistent: "index_consistent sample_lib (Inr sample_db)"
  using sample_valid_records(2) sample_parents by (simp add: index_consistent_def)

theorem bitcoin_db_new_outcomes_witness:
  "bitcoin_db_new (sample_db_fs\<lparr>fs_read_dir := (\<lambda>_. Inr [])\<rparr>) sample_lib (\<lambda>_. Inr sample_db) (\<lambda>_. Inr (sample_hash 0)) [''data''] True
     = Err EmptyBlockFiles"
proof -
  let ?fs = "sample_db_fs\<lparr>fs_read_dir := (\<lambda>_. Inr [])\<rparr>"
  have "fs_exists ?fs [''data'']" "mask_readable ?fs [''data'', ''blocks'']" "block_files ?fs [''data'', ''blocks''] = Some []"
    by (simp_all add: sample_db_fs_def mask_readable_def block_files_def List.map_filter_def)
  with bitcoin_db_new_outcomes [where leveldb_open = "\<lambda>_. Inr sample_db" and from_str = "\<lambda>_. Inr (sample_hash 0)" and dir = "[''data'']"
      and tx_index = True and fs = ?fs, OF sample_consistent refl refl]
  show ?thesis by simp
qed

end
