(* ===== verification/Spec2Isabelle.thy ===== *)
theory Spec2Isabelle
  imports Data_Dir_Samples Script_Kinds Db_Open
begin

text \<open>
  A verification of \<open>bitcoin-explorer\<close> (Rust), the library that reads the data directory of Bitcoin
  Core: the block index in LevelDB, the \<open>blk*.dat\<close> files, the transaction index, and from them blocks
  and transactions whose inputs are replaced by the outputs they spend.

  \<^bold>\<open>Conventions.\<close> A fallible Rust call is a value of \<open>'a result\<close> (\<open>Errors\<close>): \<open>Ok\<close>, \<open>Err\<close> with the crate's own
  error type, \<open>Panic\<close> for a failed assertion, \<open>unwrap\<close>, index or slice, and \<open>Diverge\<close> for a loop that does
  not end. Machine integers are words (\<open>i32\<close> is a 32-bit word read with \<open>sint\<close>), in a release build,
  so arithmetic wraps; \<open>usize\<close> has 64 bits and the host is little-endian. State is passed explicitly.
  Names follow the source, with a prefix where a name clashes. What is not in the repository is a
  parameter: the \<open>bitcoin\<close> crate (records \<open>bitcoin_lib\<close>, \<open>script_lib\<close>), LevelDB (\<open>leveldb\<close>), RocksDB
  (\<open>rocksdb\<close>), the file system (\<open>filesystem\<close>, with an oracle for short reads), \<open>rayon\<close>, and
  \<open>par_iter_sync\<close>. The documented facts used of them are the predicates \<open>coinbase_doc\<close>, \<open>txout_codec\<close>,
  \<open>p2pk_doc\<close>, \<open>script_doc\<close>, \<open>rocks_doc\<close>, \<open>rayon_doc\<close> and \<open>par_iter_doc\<close>, which appear as hypotheses; every witness
  instantiates them with concrete functions.

  \<^bold>\<open>Theories, and the files under \<open>src/src/\<close> they model.\<close>

  \<^item> \<open>Prelude\<close>: types of the model, little-endian numbers, collections of lemmas.
  \<^item> \<open>Errors\<close>: \<open>parser/error.rs\<close>, the enum, its texts (\<open>error_display\<close>), its conversions (\<open>error_from_*\<close>) and the
    monad of outcomes.
  \<^item> \<open>Reader\<close>: \<open>parser/reader.rs\<close>, the trait \<open>BlockchainRead\<close>, generic in its reader. The locale \<open>byte_source\<close>
    is the contract of \<open>read_exact\<close>, \<open>raw_reader\<close> that of \<open>Read::read\<close> with short reads, and the first
    follows from the second (sublocale). The varint loop is a partial function; it is shown to end on
    every source and to invert Bitcoin Core's encoder modulo the width of \<open>usize\<close>.
  \<^item> \<open>Xor\<close>: \<open>parser/xor.rs\<close>, the reader that removes the obfuscation of the block files, over a file with
    arbitrary short reads: what it reads after a seek is the unmasked file from there.
    The integer reads of \<open>bitcoin::io\<close> forward to the buffered file.
  \<^item> \<open>Bitcoin_Types\<close>: the data of the \<open>bitcoin\<close> crate the library copies, and the parameter \<open>bitcoin_lib\<close>.
  \<^item> \<open>Script\<close>: \<open>parser/script.rs\<close>, script types (ordered as the derived \<open>Ord\<close>), multisig
    recognition, addresses.
  \<^item> \<open>Script_Kinds\<close>: the same against the kinds of output scripts as patterns of bytes, which are shown not to
    overlap: \<open>evaluate_script\<close> reports the kind of the script, with its addresses. The tests of \<open>script.rs\<close>.
  \<^item> \<open>Block_Types\<close>: \<open>parser/block_types/compact_block.rs\<close> and \<open>full_block.rs\<close>, the two formats.
  \<^item> \<open>Blk_File\<close>: \<open>parser/blk_file.rs\<close>, scanning for block files, reading blocks and transactions.
  \<^item> \<open>Block_Index\<close>: \<open>parser/block_index.rs\<close>, decoding records, walking the longest chain back.
  \<^item> \<open>Tx_Index\<close>: \<open>parser/tx_index.rs\<close>, positions and heights of transactions.
  \<^item> \<open>Connected_Block\<close>: \<open>parser/block_types/connected_block.rs\<close>. The traits \<open>ConnectedTx\<close> and \<open>ConnectedBlock\<close>
    are records of functions with the contracts \<open>connected_tx\<close> and \<open>connected_block\<close> (locales, both
    interpreted for the full and the compact format). One parallel batch over a block is shown to be
    the same as transaction by transaction.
  \<^item> \<open>Bitcoin_DB\<close>: \<open>api.rs\<close>, the handle, its invariant \<open>db_ok\<close>, established by \<open>new\<close>, and its queries.
  \<^item> \<open>Db_Open\<close>: every outcome of \<open>BitcoinDB::new\<close>, with the exact condition of each.
  \<^item> \<open>Vec_Map\<close>: \<open>iter/util.rs\<close>, the outputs of one transaction as slots with a count.
  \<^item> \<open>Utxo_Cache\<close>: the contract of a cache of unspent outputs (locale \<open>utxo_cache\<close>) as a map from outpoints.
  \<^item> \<open>Utxo_Mem\<close>, \<open>Utxo_Disk\<close>: \<open>iter/fetch_connected_async.rs\<close>, the backends in memory and on disk; both satisfy
    the contract for both formats.
  \<^item> \<open>Chain\<close>: the chains the iterator can connect. In a \<open>sound_chain\<close> an output is spent at most once, and not
    before the last copy of its transaction; a transaction may occur twice (as two coinbases of Bitcoin
    do), and an input may spend nothing. In a \<open>valid_chain\<close> every input spends an output.
  \<^item> \<open>Pipeline\<close>: \<open>iter/connected_block_iter.rs\<close>, two parallel stages as a step relation whose steps are whole
    calls; the invariant of its reachable states shows that every interleaving yields the same blocks.
  \<^item> \<open>Interleave\<close>: the same stages with calls in progress: a worker is a state of its own and a step is one
    access to the shared cache. The locale \<open>fine_cache\<close> asks that a worker alone computes the call and
    that a step of one worker disturbs neither what another still needs nor what it has taken; from it
    follow confluence, liveness (no reachable state is stuck before every height is done) and a bound on
    the length of a run. On a sound chain the iterator stops before the first block that cannot be read or
    that has an input that spends nothing, and nowhere else; other workers may go on behind it.
  \<^item> \<open>Chain_Samples\<close>: data directories of a few bytes, with a transaction that occurs twice and a missing output.
  \<^item> \<open>Utxo_Mem_Locks\<close>: the backend in memory at its locks. The \<open>Arc\<close>s are addresses of a store, and a step is one
    critical section: the lookup under the mutex of the map, the removal under the mutex of one
    transaction, the removal of an emptied transaction under the mutex of the map.
  \<^item> \<open>Utxo_Disk_Ops\<close>: the backend on disk at the operations of the database: a step is one \<open>multi_get\<close>, one
    \<open>delete\<close>, or the building of the block from what was read.
  \<^item> \<open>Connected_Iter\<close>: \<open>ConnectedBlockIter::new\<close> with its two backends, the options of the database, and
    \<open>Iterator::next\<close>: both backends agree with each other.
  \<^item> \<open>Calls\<close>: every run whose steps are whole calls is a run of the threads with their single accesses, with the
    same results (a forward simulation). The locale \<open>call_runs\<close> is what this needs of a backend, and both have it.
  \<^item> \<open>Schedules\<close>: with it a chain that is not sound is run under two schedules: when a transaction is created
    again after its output was spent, the iterator yields four blocks or three, with either backend.
  \<^item> \<open>Final_Cache\<close>: when the threads have come to an end on a valid chain, the cache is exactly the set of unspent
    outputs, in memory without entries of transactions that have none.
  \<^item> \<open>Data_Dir\<close>, \<open>Data_Dir_Lookup\<close>: the composition. \<open>dir_stores\<close> is a data directory that stores a chain in the layout
    of Bitcoin Core: the block index (with blocks off the chain, which are lower), the mask, the files. It is
    opened by \<open>BitcoinDB::new\<close>, the queries return what was stored, and the iterator yields the chain, connected;
    with a transaction index (\<open>dir_indexed\<close>) each block and each transaction is found and connected as its inputs are
    looked up on the chain (\<open>lookup_output\<close>, \<open>tx_by_lookup\<close>, \<open>block_by_lookup\<close>), and looking up height by height is
    iterating when no input of a transaction but a coinbase is null or names the genesis transaction (\<open>inputs_spend\<close>).
    \<open>Data_Dir_Samples\<close> is such a directory.
  \<^item> \<open>Integration_Tests\<close>: \<open>tests/test_api.rs\<close>, the ten tests that check queries and iterators against each other, on every
    directory that stores a valid chain with its transaction index: each is shown to pass exactly when the chain is long enough for the
    heights it uses and, where it counts all blocks, not longer than \<open>END\<close>, and to panic otherwise.
  \<^item> \<open>Block_Iter\<close>: \<open>iter/block_iter.rs\<close> and the iterators of \<open>api.rs\<close>, and the agreement of iterating with
    looking up in a transaction index that resolves the inputs as the chain does.

  \<^bold>\<open>Bounds.\<close> No fuel is used: loops are structural, have a measure (the bytes left to read, the height
  going down), or are partial functions whose termination is proved. Loops over a device
  (\<open>read_exact\<close>) end because each round delivers a byte. A run of the pipeline is bounded by the heights
  not yet inserted or connected (\<open>Pipeline\<close>), with the steps its workers have left (\<open>fine_measure\<close>).

  \<^bold>\<open>Tests.\<close> The tests in \<open>iter/util.rs\<close>, \<open>iter/connected_block_iter.rs\<close>, \<open>parser/blk_file.rs\<close> and
  \<open>parser/script.rs\<close> are definitions (\<open>test_*\<close>) that are proved to pass; the three that ask for the text of an
  address are proved to pass exactly if the \<open>bitcoin\<close> crate writes that address so. The integration tests are
  outcomes, \<open>Panic\<close> when an assertion or an \<open>unwrap\<close> fails. The heights at which they start, stop and break
  are arguments of them, as the source has 100000 and the chains of the witnesses three blocks; \<open>END\<close> is that of the source,
  700000 blocks.

  \<^bold>\<open>Not modelled.\<close> Logging, derived \<open>Debug\<close> and \<open>serde\<close> output, the reference count behind \<open>Deref\<close> of the handle,
  poisoned mutexes, and running out of memory. A critical section is one step, which is exact as the
  code takes no lock while it holds another; \<open>multi_get\<close> of RocksDB is taken to be one step,
  a read of one snapshot. The \<open>Deref\<close> of the handle and the module declarations have nothing to model.
  The decoders of \<open>bitcoin\<close> are functions of the bytes they are given; that a
  decoder does not mix the two reading interfaces of \<open>XorReader\<close> is assumed by \<open>xor_decode\<close>, and why it
  must not is the theorem \<open>xor_read_skips_buffer\<close>.
\<close>

end
